(* ===== verification/Amux_Prelude.thy ===== *)
theory Amux_Prelude
  imports Main "HOL-Library.Word" "HOL-Library.AList" "HOL-Library.Char_ord"
    "HOL-Library.List_Lexorder" "HOL-Library.Sublist"
begin

text \<open>
  Shared vocabulary of the development.

  \<^item> A Go \<^verbatim>\<open>string\<close> and a Go \<^verbatim>\<open>[]byte\<close> are both sequences of bytes;
    both are \<^typ>\<open>string\<close> here (a \<^typ>\<open>char\<close> is eight bits).
  \<^item> A Go \<^verbatim>\<open>map\<close> is an association list with distinct keys (\<open>gwf\<close>). The order of
    the list is the order in which a \<^verbatim>\<open>range\<close> loop happens to visit the entries, which Go
    leaves open: every theorem holds for every list, hence for every visiting order.
  \<^item> A fallible call returns a sum, with the error on the left.
  \<^item> The parts of Go's standard library the sources use (decimal printing, hexadecimal and
    base64 text, big-endian integers, \<^verbatim>\<open>strings.TrimSpace\<close>, \<^verbatim>\<open>strings.Split\<close>)
    are defined here, with the round trips and the order facts the components rely on.
\<close>

named_theorems amux_simps \<open>unfolding equations of the small helper definitions\<close>

section \<open>Go maps\<close>

type_synonym ('k, 'v) gomap = "('k \<times> 'v) list"

abbreviation mput :: "'k \<Rightarrow> 'v \<Rightarrow> ('k, 'v) gomap \<Rightarrow> ('k, 'v) gomap" where
  "mput \<equiv> AList.update"

abbreviation mdel :: "'k \<Rightarrow> ('k, 'v) gomap \<Rightarrow> ('k, 'v) gomap" where
  "mdel \<equiv> AList.delete"

abbreviation gwf :: "('k, 'v) gomap \<Rightarrow> bool" where
  "gwf m \<equiv> distinct (map fst m)"

text \<open>Indexing a map that may lack the key gives the zero value \<open>z\<close> of the value type.\<close>

definition mget0 :: "'v \<Rightarrow> ('k, 'v) gomap \<Rightarrow> 'k \<Rightarrow> 'v" where
  [amux_simps]: "mget0 z m k = (case map_of m k of None \<Rightarrow> z | Some v \<Rightarrow> v)"

definition mkeep :: "('k \<Rightarrow> 'v \<Rightarrow> bool) \<Rightarrow> ('k, 'v) gomap \<Rightarrow> ('k, 'v) gomap" where
  "mkeep P m = filter (\<lambda>(k, v). P k v) m"

declare map_of_eq_Some_iff [simp del]

declare update_conv' [simp] delete_conv' [simp] distinct_update [simp] distinct_delete [simp]

lemma mget0_put [simp]: "mget0 z (mput k v m) k' = (if k' = k then v else mget0 z m k')"
  by (simp add: mget0_def)

lemma mget0_del [simp]: "mget0 z (mdel k m) k' = (if k' = k then z else mget0 z m k')"
  by (simp add: mget0_def)

lemma mget0_Nil [simp]: "mget0 z [] k = z"
  by (simp add: mget0_def)

lemma mget0_Cons [simp]: "mget0 z ((a, b) # m) k = (if k = a then b else mget0 z m k)"
  by (simp add: mget0_def)

lemma mget0_Some: "map_of m k = Some v \<Longrightarrow> mget0 z m k = v"
  by (simp add: mget0_def)

lemma mget0_neq: "mget0 z m k \<noteq> z \<Longrightarrow> map_of m k = Some (mget0 z m k)"
  by (auto simp: mget0_def split: option.splits)

lemma mkeep_Nil [simp]: "mkeep P [] = []"
  by (simp add: mkeep_def)

lemma mkeep_Cons [simp]: "mkeep P ((k, v) # m) = (if P k v then (k, v) # mkeep P m else mkeep P m)"
  by (simp add: mkeep_def)

lemma set_mkeep [simp]: "set (mkeep P m) = {(k, v) \<in> set m. P k v}"
  by (auto simp: mkeep_def)

lemma gwf_mkeep [simp]: "gwf m \<Longrightarrow> gwf (mkeep P m)"
  by (simp add: mkeep_def distinct_map_filter)

lemma length_mkeep: "length (mkeep P m) \<le> length m"
  by (simp add: mkeep_def)

lemma map_of_mkeep:
  "gwf m \<Longrightarrow> map_of (mkeep P m) k =
     (case map_of m k of None \<Rightarrow> None | Some v \<Rightarrow> if P k v then Some v else None)"
proof (induction m)
  case Nil
  then show ?case by simp
next
  case (Cons e m)
  obtain a b where e: "e = (a, b)" by (cases e)
  from Cons.prems e have "gwf m" and out: "map_of m a = None"
    by (auto simp: map_of_eq_None_iff)
  with Cons.IH e show ?case by (auto split: option.splits)
qed

lemma gwf_map_of: "gwf m \<Longrightarrow> (k, v) \<in> set m \<longleftrightarrow> map_of m k = Some v"
  by (simp add: map_of_eq_Some_iff)

lemma set_update_gwf:
  "gwf m \<Longrightarrow> set (mput k v m) = {(a, b) \<in> set m. a \<noteq> k} \<union> {(k, v)}"
proof -
  assume wf: "gwf m"
  have "(a, b) \<in> set (mput k v m) \<longleftrightarrow> map_of (mput k v m) a = Some b" for a b
    by (rule gwf_map_of) (simp add: wf)
  then have "(a, b) \<in> set (mput k v m) \<longleftrightarrow> (if a = k then b = v else (a, b) \<in> set m)" for a b
    using wf by (auto simp: map_of_eq_Some_iff)
  then show ?thesis by (auto split: if_splits)
qed

lemma length_mput: "length (mput k v m) \<le> Suc (length m)"
  by (induction m) auto

lemma map_of_map_snd: "map_of (map (\<lambda>(k, v). (k, f v)) m) k = map_option f (map_of m k)"
  by (induction m) auto

lemma gwf_map_snd [simp]: "gwf (map (\<lambda>(k, v). (k, f k v)) m) = gwf m"
proof -
  have "map fst (map (\<lambda>(k, v). (k, f k v)) m) = map fst m"
    by (induction m) auto
  then show ?thesis by metis
qed

text \<open>The laws a client of a Go map relies on, whatever implements it.\<close>

locale go_map =
  fixes look :: "'m \<Rightarrow> 'k \<Rightarrow> 'v option"
    and put :: "'k \<Rightarrow> 'v \<Rightarrow> 'm \<Rightarrow> 'm"
    and del :: "'k \<Rightarrow> 'm \<Rightarrow> 'm"
    and ok :: "'m \<Rightarrow> bool"
  assumes look_put: "ok m \<Longrightarrow> look (put k v m) k' = (if k' = k then Some v else look m k')"
    and look_del: "ok m \<Longrightarrow> look (del k m) k' = (if k' = k then None else look m k')"
    and ok_put: "ok m \<Longrightarrow> ok (put k v m)"
    and ok_del: "ok m \<Longrightarrow> ok (del k m)"
begin

lemma put_overwrites: "ok m \<Longrightarrow> look (put k v (put k w m)) = look (put k v m)"
  by (rule ext) (simp add: look_put ok_put)

lemma del_put_fresh: "ok m \<Longrightarrow> look m k = None \<Longrightarrow> look (del k (put k v m)) = look m"
  by (rule ext) (simp add: look_put look_del ok_put)

lemma put_restore: "ok m \<Longrightarrow> look m k = Some v \<Longrightarrow> look (put k v (put k w m)) = look m"
  by (rule ext) (simp add: look_put ok_put)

end

interpretation gm: go_map map_of mput mdel gwf
  by unfold_locales auto

section \<open>Runs of a state machine\<close>

text \<open>
  Every stateful component is a set of operations on a state and an invariant that each of them
  keeps. \<open>kept_by_steps\<close> is the contract of a step relation, \<open>kept_by_ops\<close> that of
  a family of operations with a guard (what the caller has to provide at each call).
\<close>

locale kept_by_steps =
  fixes start :: "'s \<Rightarrow> bool"
    and step :: "'s \<Rightarrow> 's \<Rightarrow> bool"
    and inv :: "'s \<Rightarrow> bool"
  assumes start_inv: "start s \<Longrightarrow> inv s"
    and step_inv: "inv s \<Longrightarrow> step s t \<Longrightarrow> inv t"
begin

lemma steps_inv: "step\<^sup>*\<^sup>* s t \<Longrightarrow> inv s \<Longrightarrow> inv t"
  by (induction rule: rtranclp_induct) (auto intro: step_inv)

lemma reach_inv: "start s \<Longrightarrow> step\<^sup>*\<^sup>* s t \<Longrightarrow> inv t"
  by (blast intro: start_inv steps_inv)

end

fun guarded :: "('s \<Rightarrow> 'e \<Rightarrow> bool) \<Rightarrow> ('s \<Rightarrow> 'e \<Rightarrow> 's) \<Rightarrow> 's \<Rightarrow> 'e list \<Rightarrow> bool" where
  "guarded G f s [] = True"
| "guarded G f s (e # es) = (G s e \<and> guarded G f (f s e) es)"

locale kept_by_ops =
  fixes guard :: "'s \<Rightarrow> 'e \<Rightarrow> bool"
    and app :: "'s \<Rightarrow> 'e \<Rightarrow> 's"
    and inv :: "'s \<Rightarrow> bool"
  assumes app_inv: "inv s \<Longrightarrow> guard s e \<Longrightarrow> inv (app s e)"
begin

lemma run_inv: "inv s \<Longrightarrow> guarded guard app s es \<Longrightarrow> inv (foldl app s es)"
  by (induction es arbitrary: s) (auto intro: app_inv)

end

end
