(* ===== verification/Go_Text.thy ===== *)
theory Go_Text
  imports Amux_Prelude
begin

text \<open>
  The text and byte encodings of Go's standard library that the sources use: decimal printing
  (\<^verbatim>\<open>strconv.FormatUint\<close>, \<^verbatim>\<open>fmt.Sprint\<close>) and parsing
  (\<^verbatim>\<open>strconv.ParseUint\<close>, \<^verbatim>\<open>strconv.Atoi\<close>), hexadecimal
  (\<^verbatim>\<open>encoding/hex\<close>), unpadded base64 (\<^verbatim>\<open>base64.RawStdEncoding\<close>),
  big-endian integers (\<^verbatim>\<open>encoding/binary\<close>), \<^verbatim>\<open>strings.TrimSpace\<close> and
  \<^verbatim>\<open>strings.Split\<close>. Each codec has its round trip, and the encodings whose order matters
  have the lemma that they keep it.
\<close>

section \<open>Decimal numbers\<close>

definition digit_char :: "nat \<Rightarrow> char" where
  "digit_char d = char_of (48 + d)"

fun dec_nat :: "nat \<Rightarrow> string" where
  "dec_nat n = (if n < 10 then [digit_char n] else dec_nat (n div 10) @ [digit_char (n mod 10)])"

declare dec_nat.simps [simp del]

definition dec_int :: "int \<Rightarrow> string" where
  "dec_int i = (if i < 0 then CHR ''-'' # dec_nat (nat (- i)) else dec_nat (nat i))"

definition is_digit :: "char \<Rightarrow> bool" where
  "is_digit c \<longleftrightarrow> 48 \<le> (of_char c :: nat) \<and> (of_char c :: nat) \<le> 57"

definition dec_val :: "string \<Rightarrow> nat" where
  "dec_val s = foldl (\<lambda>a c. a * 10 + (of_char c - 48)) 0 s"

text \<open>\<open>ParseUint\<close> in base 10: digits only, at least one, within \<open>bits\<close> bits.\<close>

definition parse_uint :: "nat \<Rightarrow> string \<Rightarrow> nat option" where
  "parse_uint bits s =
     (if s \<noteq> [] \<and> list_all is_digit s \<and> dec_val s < 2 ^ bits then Some (dec_val s) else None)"

lemma of_char_digit [simp]: "d < 10 \<Longrightarrow> (of_char (digit_char d) :: nat) = 48 + d"
  by (simp add: digit_char_def of_char_of)

lemma is_digit_digit_char [simp]: "d < 10 \<Longrightarrow> is_digit (digit_char d)"
  by (simp add: is_digit_def)

lemma dec_val_append: "dec_val (s @ [c]) = dec_val s * 10 + (of_char c - 48)"
  by (simp add: dec_val_def)

lemma dec_val_dec_nat [simp]: "dec_val (dec_nat n) = n"
proof (induction n rule: dec_nat.induct)
  case (1 n)
  show ?case
  proof (cases "n < 10")
    case True
    then show ?thesis by (subst dec_nat.simps) (simp add: dec_val_def)
  next
    case False
    with "1.IH" show ?thesis by (subst dec_nat.simps) (simp add: dec_val_append)
  qed
qed

lemma dec_nat_digits [simp]: "list_all is_digit (dec_nat n)"
proof (induction n rule: dec_nat.induct)
  case (1 n)
  then show ?case by (subst dec_nat.simps) simp
qed

lemma dec_nat_nonempty [simp]: "dec_nat n \<noteq> []"
  by (subst dec_nat.simps) simp

lemma dec_nat_inject [simp]: "dec_nat m = dec_nat n \<longleftrightarrow> m = n"
  by (metis dec_val_dec_nat)

lemma dec_nat_not_digit: "\<not> is_digit c \<Longrightarrow> c \<notin> set (dec_nat n)"
  using dec_nat_digits [of n] by (auto simp: list_all_iff)

lemma dec_int_inject [simp]: "dec_int i = dec_int j \<longleftrightarrow> i = j"
proof
  assume eq: "dec_int i = dec_int j"
  have minus: "CHR ''-'' # s \<noteq> dec_nat n" for s n
  proof
    assume "CHR ''-'' # s = dec_nat n"
    then have "CHR ''-'' \<in> set (dec_nat n)" by (metis list.set_intros(1))
    then show False using dec_nat_not_digit [of "CHR ''-''" n] by (simp add: is_digit_def)
  qed
  have "i < 0 \<longleftrightarrow> j < 0"
    using eq minus minus [symmetric] by (auto simp: dec_int_def split: if_splits)
  with eq show "i = j" by (auto simp: dec_int_def split: if_splits)
qed simp

lemma parse_uint_dec_nat [simp]: "parse_uint bits (dec_nat n) = (if n < 2 ^ bits then Some n else None)"
  by (simp add: parse_uint_def)

lemma parse_uint_bound: "parse_uint bits s = Some n \<Longrightarrow> n < 2 ^ bits"
  by (auto simp: parse_uint_def split: if_splits)

section \<open>Big-endian integers\<close>

fun be_bytes :: "nat \<Rightarrow> nat \<Rightarrow> string" where
  "be_bytes 0 v = []"
| "be_bytes (Suc k) v = char_of ((v div 256 ^ k) mod 256) # be_bytes k v"

fun be_val :: "string \<Rightarrow> nat" where
  "be_val [] = 0"
| "be_val (c # s) = of_char c * 256 ^ length s + be_val s"

lemma length_be_bytes [simp]: "length (be_bytes k v) = k"
  by (induction k) auto

lemma be_val_bound: "be_val s < 256 ^ length s"
proof (induction s)
  case Nil
  then show ?case by simp
next
  case (Cons c s)
  have c: "(of_char c :: nat) \<le> 255"
    using nat_of_char_less_256 [of c] by linarith
  have "of_char c * 256 ^ length s + be_val s < (of_char c + 1) * 256 ^ length s"
    using Cons by simp
  also have "\<dots> \<le> 256 * 256 ^ length s"
    using c by (intro mult_right_mono) auto
  finally show ?case by simp
qed

lemma be_val_be_bytes: "be_val (be_bytes k v) = v mod 256 ^ k"
proof (induction k)
  case 0
  then show ?case by simp
next
  case (Suc k)
  have "v mod (256 ^ k * 256) = 256 ^ k * (v div 256 ^ k mod 256) + v mod 256 ^ k"
    by (rule mod_mult2_eq)
  with Suc show ?case by (simp add: of_char_of mult.commute)
qed

lemma be_val_be_bytes_small [simp]: "v < 256 ^ k \<Longrightarrow> be_val (be_bytes k v) = v"
  by (simp add: be_val_be_bytes)

lemma be_bytes_inject: "v < 256 ^ k \<Longrightarrow> w < 256 ^ k \<Longrightarrow> be_bytes k v = be_bytes k w \<longleftrightarrow> v = w"
  by (metis be_val_be_bytes_small)

text \<open>Big-endian bytes compare as the numbers they stand for.\<close>

lemma be_val_less:
  "length s = length t \<Longrightarrow> be_val s < be_val t \<Longrightarrow> s < t"
proof (induction s t rule: list_induct2)
  case Nil
  then show ?case by simp
next
  case (Cons c s d t)
  have bs: "be_val s < 256 ^ length s" and bt: "be_val t < 256 ^ length s"
    using be_val_bound [of s] be_val_bound [of t] Cons.hyps by auto
  have "\<not> (of_char d :: nat) < of_char c"
  proof
    assume "(of_char d :: nat) < of_char c"
    then have "(of_char d + 1) * 256 ^ length s \<le> (of_char c :: nat) * 256 ^ length s"
      by (intro mult_right_mono) auto
    with Cons.prems Cons.hyps bt show False by simp
  qed
  then consider "(of_char c :: nat) < of_char d" | "c = d"
    by (metis linorder_neqE_nat of_char_eq_iff)
  then show ?case
  proof cases
    case 1
    then show ?thesis by (simp add: less_char_def)
  next
    case 2
    with Cons show ?thesis by simp
  qed
qed

lemma be_bytes_less: "v < 256 ^ k \<Longrightarrow> w < 256 ^ k \<Longrightarrow> v < w \<Longrightarrow> be_bytes k v < be_bytes k w"
  by (rule be_val_less) auto

section \<open>Hexadecimal\<close>

definition hex_digit :: "nat \<Rightarrow> char" where
  "hex_digit d = (if d < 10 then char_of (48 + d) else char_of (87 + d))"

definition hex_val :: "char \<Rightarrow> nat option" where
  "hex_val c = (let n = of_char c :: nat in
     if 48 \<le> n \<and> n \<le> 57 then Some (n - 48)
     else if 97 \<le> n \<and> n \<le> 102 then Some (n - 87)
     else if 65 \<le> n \<and> n \<le> 70 then Some (n - 55) else None)"

definition hex_encode :: "string \<Rightarrow> string" where
  "hex_encode s =
     concat (map (\<lambda>c. [hex_digit (of_char c div 16), hex_digit (of_char c mod 16)]) s)"

fun hex_decode :: "string \<Rightarrow> string option" where
  "hex_decode [] = Some []"
| "hex_decode [c] = None"
| "hex_decode (a # b # s) =
     (case (hex_val a, hex_val b, hex_decode s) of
        (Some x, Some y, Some r) \<Rightarrow> Some (char_of (16 * x + y) # r)
      | _ \<Rightarrow> None)"

lemma of_char_hex_digit: "d < 16 \<Longrightarrow> (of_char (hex_digit d) :: nat) = (if d < 10 then 48 + d else 87 + d)"
  by (simp add: hex_digit_def of_char_of)

lemma hex_val_digit [simp]: "d < 16 \<Longrightarrow> hex_val (hex_digit d) = Some d"
  by (simp add: hex_val_def of_char_hex_digit Let_def)

lemma of_char_div16 [simp]: "(of_char c :: nat) div 16 < 16"
  using nat_of_char_less_256 [of c] by (simp add: less_mult_imp_div_less)

lemma hex_decode_encode [simp]: "hex_decode (hex_encode s) = Some s"
proof (induction s)
  case (Cons c s)
  have "16 * ((of_char c :: nat) div 16) + of_char c mod 16 = of_char c" by simp
  with Cons show ?case by (simp add: hex_encode_def)
qed (simp add: hex_encode_def)

lemma length_hex_encode [simp]: "length (hex_encode s) = 2 * length s"
  by (induction s) (auto simp: hex_encode_def)

lemma hex_encode_inject [simp]: "hex_encode s = hex_encode t \<longleftrightarrow> s = t"
  by (metis hex_decode_encode option.inject)

lemma hex_encode_append: "hex_encode (s @ t) = hex_encode s @ hex_encode t"
  by (simp add: hex_encode_def)

definition is_hex_lower :: "char \<Rightarrow> bool" where
  "is_hex_lower c \<longleftrightarrow> is_digit c \<or> 97 \<le> (of_char c :: nat) \<and> (of_char c :: nat) \<le> 102"

lemma is_hex_lower_digit [simp]: "d < 16 \<Longrightarrow> is_hex_lower (hex_digit d)"
  by (simp add: is_hex_lower_def is_digit_def of_char_hex_digit)

lemma hex_encode_lower [simp]: "list_all is_hex_lower (hex_encode s)"
  by (induction s) (auto simp: hex_encode_def)

lemma hex_digit_less: "d < e \<Longrightarrow> e < 16 \<Longrightarrow> hex_digit d < hex_digit e"
  by (simp add: less_char_def of_char_hex_digit)

lemma hex_encode_less: "length s = length t \<Longrightarrow> s < t \<Longrightarrow> hex_encode s < hex_encode t"
proof (induction s t rule: list_induct2)
  case (Cons c s d t)
  let ?c = "of_char c :: nat" and ?d = "of_char d :: nat"
  show ?case
  proof (cases "c = d")
    case True
    with Cons show ?thesis by (simp add: hex_encode_def)
  next
    case False
    with Cons.prems have less: "?c < ?d" by (simp add: less_char_def)
    then have "?c div 16 \<le> ?d div 16" by (simp add: div_le_mono)
    then consider "?c div 16 < ?d div 16" | "?c div 16 = ?d div 16" "?c mod 16 < ?d mod 16"
      using less by (metis div_mult_mod_eq le_neq_implies_less nat_add_left_cancel_less)
    then show ?thesis
      by cases (use hex_digit_less [of "?c div 16" "?d div 16"]
          hex_digit_less [of "?c mod 16" "?d mod 16"] in \<open>auto simp: hex_encode_def\<close>)
  qed
qed (simp add: hex_encode_def)

section \<open>Unpadded base64\<close>

definition b64_digit :: "nat \<Rightarrow> char" where
  "b64_digit d =
     (if d < 26 then char_of (65 + d) else if d < 52 then char_of (71 + d)
      else if d < 62 then char_of (d - 4) else if d = 62 then CHR ''+'' else CHR ''/'')"

definition b64_val :: "char \<Rightarrow> nat option" where
  "b64_val c = (let n = of_char c :: nat in
     if 65 \<le> n \<and> n \<le> 90 then Some (n - 65)
     else if 97 \<le> n \<and> n \<le> 122 then Some (n - 71)
     else if 48 \<le> n \<and> n \<le> 57 then Some (n + 4)
     else if n = 43 then Some 62 else if n = 47 then Some 63 else None)"

fun b64_encode :: "string \<Rightarrow> string" where
  "b64_encode [] = []"
| "b64_encode [a] = [b64_digit (of_char a div 4), b64_digit (of_char a mod 4 * 16)]"
| "b64_encode [a, b] =
     [b64_digit (of_char a div 4), b64_digit (of_char a mod 4 * 16 + of_char b div 16),
      b64_digit (of_char b mod 16 * 4)]"
| "b64_encode (a # b # c # s) =
     b64_digit (of_char a div 4) # b64_digit (of_char a mod 4 * 16 + of_char b div 16) #
     b64_digit (of_char b mod 16 * 4 + of_char c div 64) # b64_digit (of_char c mod 64) #
     b64_encode s"

text \<open>\<^verbatim>\<open>DecodeString\<close> skips line breaks and ignores the unused bits of a short final group.\<close>

fun b64_groups :: "string \<Rightarrow> string option" where
  "b64_groups [] = Some []"
| "b64_groups [a] = None"
| "b64_groups [a, b] =
     (case (b64_val a, b64_val b) of (Some x, Some y) \<Rightarrow> Some [char_of (x * 4 + y div 16)] | _ \<Rightarrow> None)"
| "b64_groups [a, b, c] =
     (case (b64_val a, b64_val b, b64_val c) of
        (Some x, Some y, Some z) \<Rightarrow> Some [char_of (x * 4 + y div 16), char_of (y mod 16 * 16 + z div 4)]
      | _ \<Rightarrow> None)"
| "b64_groups (a # b # c # d # s) =
     (case (b64_val a, b64_val b, b64_val c, b64_val d, b64_groups s) of
        (Some x, Some y, Some z, Some w, Some r) \<Rightarrow>
          Some (char_of (x * 4 + y div 16) # char_of (y mod 16 * 16 + z div 4) #
                char_of (z mod 4 * 64 + w) # r)
      | _ \<Rightarrow> None)"

definition b64_decode :: "string \<Rightarrow> string option" where
  "b64_decode s = b64_groups (filter (\<lambda>c. c \<noteq> CHR 0x0A \<and> c \<noteq> CHR 0x0D) s)"

lemma of_char_b64_digit:
  "d < 64 \<Longrightarrow> (of_char (b64_digit d) :: nat) =
     (if d < 26 then 65 + d else if d < 52 then 71 + d else if d < 62 then d - 4
      else if d = 62 then 43 else 47)"
  by (auto simp: b64_digit_def of_char_of)

lemma b64_val_digit: "d < 64 \<Longrightarrow> b64_val (b64_digit d) = Some d"
  by (auto simp: b64_val_def of_char_b64_digit Let_def)

lemma b64_digit_plain: "d < 64 \<Longrightarrow> b64_digit d \<noteq> CHR 0x0A \<and> b64_digit d \<noteq> CHR 0x0D"
proof -
  assume "d < 64"
  then have "(of_char (b64_digit d) :: nat) \<notin> {10, 13}"
    by (auto simp: of_char_b64_digit)
  then show ?thesis by auto
qed

lemma b64_bounds:
  fixes a b c :: char
  shows "(of_char a :: nat) div 4 < 64" "(of_char a :: nat) mod 4 * 16 < 64"
    "(of_char a :: nat) mod 4 * 16 + of_char b div 16 < 64" "(of_char b :: nat) mod 16 * 4 < 64"
    "(of_char b :: nat) mod 16 * 4 + of_char c div 64 < 64"
  using nat_of_char_less_256 [of a] nat_of_char_less_256 [of b] nat_of_char_less_256 [of c]
  by linarith+

lemma b64_joins:
  fixes a b c :: char
  shows "(of_char a :: nat) div 4 * 4 + (of_char a mod 4 * 16 + of_char b div 16) div 16 = of_char a"
    "(of_char a :: nat) div 4 * 4 + of_char a mod 4 * 16 div 16 = of_char a"
    "((of_char a :: nat) mod 4 * 16 + of_char b div 16) mod 16 * 16 +
       (of_char b mod 16 * 4 + of_char c div 64) div 4 = of_char b"
    "((of_char a :: nat) mod 4 * 16 + of_char b div 16) mod 16 * 16 +
       of_char b mod 16 * 4 div 4 = of_char b"
    "((of_char b :: nat) mod 16 * 4 + of_char c div 64) mod 4 * 64 + of_char c mod 64 = of_char c"
proof -
  have c: "(of_char c :: nat) div 64 < 4"
    using nat_of_char_less_256 [of c] by linarith
  note b = of_char_div16 [of b]
  show "(of_char a :: nat) div 4 * 4 + (of_char a mod 4 * 16 + of_char b div 16) div 16 = of_char a"
    "(of_char a :: nat) div 4 * 4 + of_char a mod 4 * 16 div 16 = of_char a"
    "((of_char a :: nat) mod 4 * 16 + of_char b div 16) mod 16 * 16 +
       (of_char b mod 16 * 4 + of_char c div 64) div 4 = of_char b"
    "((of_char a :: nat) mod 4 * 16 + of_char b div 16) mod 16 * 16 +
       of_char b mod 16 * 4 div 4 = of_char b"
    "((of_char b :: nat) mod 16 * 4 + of_char c div 64) mod 4 * 64 + of_char c mod 64 = of_char c"
    using b c by (simp_all add: mult_mod_cancel_right)
qed

lemma b64_groups_encode: "b64_groups (b64_encode s) = Some s"
  by (induction s rule: b64_encode.induct)
    (simp_all only: b64_encode.simps b64_groups.simps b64_val_digit b64_bounds b64_joins
      mod_less_divisor zero_less_numeral option.simps prod.case char_of_char)

lemma set_b64_encode: "set (b64_encode s) \<subseteq> b64_digit ` {..<64}"
proof (induction s rule: b64_encode.induct)
  case (4 a b c s)
  have "b64_digit (of_char c mod 64) \<in> b64_digit ` {..<64}" by (intro imageI) simp
  then show ?case using 4 b64_bounds
    by (simp only: b64_encode.simps list.set insert_subset imageI lessThan_iff simp_thms)
qed (simp_all only: b64_encode.simps list.set insert_subset empty_subsetI imageI lessThan_iff
    b64_bounds simp_thms)

lemma b64_encode_plain: "c \<in> set (b64_encode s) \<Longrightarrow> c \<noteq> CHR 0x0A \<and> c \<noteq> CHR 0x0D"
proof -
  assume "c \<in> set (b64_encode s)"
  with set_b64_encode [of s] obtain d where "d < 64" "c = b64_digit d" by auto
  then show ?thesis by (simp only: b64_digit_plain simp_thms)
qed

lemma b64_decode_encode [simp]: "b64_decode (b64_encode s) = Some s"
proof -
  have "filter (\<lambda>c. c \<noteq> CHR 0x0A \<and> c \<noteq> CHR 0x0D) (b64_encode s) = b64_encode s"
    using b64_encode_plain by (simp add: filter_id_conv)
  then show ?thesis by (simp add: b64_decode_def b64_groups_encode)
qed

text \<open>The URL alphabet of base64: a minus for the plus sign, an underscore for the slash.\<close>

definition url_char :: "char \<Rightarrow> char" where
  "url_char c = (if c = CHR ''+'' then CHR ''-'' else if c = CHR ''/'' then CHR ''_'' else c)"

definition std_char :: "char \<Rightarrow> char" where
  "std_char c = (if c = CHR ''-'' then CHR ''+'' else if c = CHR ''_'' then CHR ''/'' else c)"

definition b64url_encode :: "string \<Rightarrow> string" where "b64url_encode s = map url_char (b64_encode s)"

definition b64url_decode :: "string \<Rightarrow> string option" where
  "b64url_decode s = (if CHR ''+'' \<in> set s \<or> CHR ''/'' \<in> set s then None else b64_decode (map std_char s))"

lemma url_char_plain: "url_char c \<noteq> CHR ''+'' \<and> url_char c \<noteq> CHR ''/''"
  by (simp add: url_char_def)

lemma b64_digit_url:
  assumes "d < 64"
  shows "std_char (url_char (b64_digit d)) = b64_digit d"
proof -
  have "(of_char (b64_digit d) :: nat) \<notin> {45, 95}"
    using assms by (auto simp: of_char_b64_digit)
  then have "b64_digit d \<noteq> CHR ''-''" "b64_digit d \<noteq> CHR ''_''" by auto
  then show ?thesis by (simp add: std_char_def url_char_def)
qed

lemma b64url_decode_encode: "b64url_decode (b64url_encode s) = Some s"
proof -
  have "std_char (url_char c) = c" if "c \<in> set (b64_encode s)" for c
    using that set_b64_encode [of s] b64_digit_url by blast
  then have "map std_char (map url_char (b64_encode s)) = b64_encode s" by (simp add: map_idI)
  moreover have "CHR ''+'' \<notin> set (map url_char (b64_encode s))" "CHR ''/'' \<notin> set (map url_char (b64_encode s))"
    using url_char_plain by (metis ex_map_conv)+
  ultimately show ?thesis by (simp add: b64url_decode_def b64url_encode_def del: map_map set_map)
qed

lemma b64url_encode_Nil [simp]: "b64url_encode s = [] \<longleftrightarrow> s = []" "[] = b64url_encode s \<longleftrightarrow> s = []"
  by (cases s rule: b64_encode.cases; simp add: b64url_encode_def)+

section \<open>Trimming and splitting\<close>

text \<open>The UTF-8 encodings of the code points \<^verbatim>\<open>unicode.IsSpace\<close> accepts.\<close>

definition space_seqs :: "string list" where
  "space_seqs =
     [[CHR 0x09], [CHR 0x0A], [CHR 0x0B], [CHR 0x0C], [CHR 0x0D], [CHR 0x20],
      [CHR 0xC2, CHR 0x85], [CHR 0xC2, CHR 0xA0], [CHR 0xE1, CHR 0x9A, CHR 0x80]] @
     map (\<lambda>n. [CHR 0xE2, CHR 0x80, char_of n]) ([128..<139] @ [168, 169, 175 :: nat]) @
     [[CHR 0xE2, CHR 0x81, CHR 0x9F], [CHR 0xE3, CHR 0x80, CHR 0x80]]"

definition strip1 :: "string list \<Rightarrow> string \<Rightarrow> string option" where
  "strip1 seqs s =
     (case filter (\<lambda>q. take (length q) s = q) seqs of [] \<Rightarrow> None | q # _ \<Rightarrow> Some (drop (length q) s))"

fun strip_all :: "nat \<Rightarrow> string list \<Rightarrow> string \<Rightarrow> string" where
  "strip_all 0 seqs s = s"
| "strip_all (Suc n) seqs s = (case strip1 seqs s of None \<Rightarrow> s | Some t \<Rightarrow> strip_all n seqs t)"

text \<open>
  Each strip removes at least one byte, so the length of the text is enough fuel. The right end
  is the left end of the reversed text with reversed sequences.
\<close>

definition TrimSpace :: "string \<Rightarrow> string" where
  "TrimSpace s =
     (let l = strip_all (length s) space_seqs s
      in rev (strip_all (length l) (map rev space_seqs) (rev l)))"

fun split_on :: "char \<Rightarrow> string \<Rightarrow> string list" where
  "split_on d [] = [[]]"
| "split_on d (c # s) =
     (if c = d then [] # split_on d s
      else (case split_on d s of [] \<Rightarrow> [[c]] | w # ws \<Rightarrow> (c # w) # ws))"

lemma strip1_shorter: "[] \<notin> set seqs \<Longrightarrow> strip1 seqs s = Some t \<Longrightarrow> length t < length s"
proof -
  assume ne: "[] \<notin> set seqs" and st: "strip1 seqs s = Some t"
  from st obtain q qs where q: "filter (\<lambda>q. take (length q) s = q) seqs = q # qs"
    and t: "t = drop (length q) s"
    by (auto simp: strip1_def split: list.splits)
  from q have "q \<in> set (filter (\<lambda>q. take (length q) s = q) seqs)" by simp
  then have "q \<in> set seqs" "take (length q) s = q" by auto
  with ne have "q \<noteq> []" by auto
  moreover have "length q \<le> length s"
    using \<open>take (length q) s = q\<close> by (metis length_take min.cobounded1)
  ultimately show ?thesis using t by (cases q) auto
qed

lemma strip_all_done:
  assumes "[] \<notin> set seqs" and "length s \<le> n"
  shows "strip1 seqs (strip_all n seqs s) = None"
  using assms(2)
proof (induction n arbitrary: s)
  case 0
  have "filter ((=) []) seqs = []" using assms(1) by (auto simp: filter_empty_conv)
  with 0 show ?case by (simp add: strip1_def)
next
  case (Suc n)
  show ?case
  proof (cases "strip1 seqs s")
    case None
    then show ?thesis by simp
  next
    case (Some t)
    then have "length t \<le> n" using strip1_shorter [OF assms(1)] Suc.prems by fastforce
    with Some Suc.IH show ?thesis by simp
  qed
qed

text \<open>A text that begins and ends with printable ASCII is its own trim.\<close>

definition plain_char :: "char \<Rightarrow> bool" where
  "plain_char c \<longleftrightarrow> 33 \<le> (of_char c :: nat) \<and> (of_char c :: nat) \<le> 126"

lemma strip1_plain:
  assumes "list_all (\<lambda>q. q \<noteq> [] \<and> \<not> plain_char (hd q)) seqs" and "s = [] \<or> plain_char (hd s)"
  shows "strip1 seqs s = None"
proof -
  have "take (length q) s \<noteq> q" if "q \<in> set seqs" for q
  proof
    assume "take (length q) s = q"
    moreover have "q \<noteq> []" "\<not> plain_char (hd q)" using assms(1) that by (auto simp: list_all_iff)
    ultimately have "s \<noteq> []" "hd s = hd q" by (cases s; cases q; simp)+
    then show False using assms(2) \<open>\<not> plain_char (hd q)\<close> by simp
  qed
  then have "filter (\<lambda>q. take (length q) s = q) seqs = []" by (simp add: filter_empty_conv)
  then show ?thesis by (simp add: strip1_def)
qed

lemma space_seqs_ends:
  "list_all (\<lambda>q. q \<noteq> [] \<and> \<not> plain_char (hd q)) space_seqs"
  "list_all (\<lambda>q. q \<noteq> [] \<and> \<not> plain_char (hd q)) (map rev space_seqs)"
  by code_simp+

lemma strip_all_plain: "strip1 seqs s = None \<Longrightarrow> strip_all n seqs s = s"
  by (cases n) simp_all

lemma TrimSpace_plain: "s = [] \<or> plain_char (hd s) \<and> plain_char (last s) \<Longrightarrow> TrimSpace s = s"
  using strip1_plain [OF space_seqs_ends(1), of s] strip1_plain [OF space_seqs_ends(2), of "rev s"]
  by (auto simp: TrimSpace_def Let_def strip_all_plain hd_rev)

lemma split_on_nonempty [simp]: "split_on d s \<noteq> []"
  by (induction s) (auto split: list.splits)

lemma split_on_no_sep: "w \<in> set (split_on d s) \<Longrightarrow> d \<notin> set w"
  by (induction s arbitrary: w) (auto split: if_splits list.splits)

lemma split_on_join: "concat (map (\<lambda>w. d # w) (split_on d s)) = d # s"
proof (induction s)
  case Nil
  then show ?case by simp
next
  case (Cons c s)
  then show ?case by (cases "split_on d s") auto
qed

lemma split_on_single: "d \<notin> set s \<Longrightarrow> split_on d s = [s]"
  by (induction s) auto

end
