(* ===== verification/Access_Registry.thy ===== *)
theory Access_Registry
  imports Go_Text
begin

text \<open>
  The credential registry of \<^verbatim>\<open>internal/access/authority.go\<close>: the records the daemon keeps
  of issued credentials, the pure reads over them (\<^verbatim>\<open>currentRecordLocked\<close>,
  \<^verbatim>\<open>lastRecordLocked\<close>, \<^verbatim>\<open>validIn\<close>) and the two registry updates every
  writer is made of (issuing a generation, revoking the current one), with the registry invariant
  and the lemmas that both updates keep it. The stateful operations are in
  \<^verbatim>\<open>Access_Authority\<close>.

  Times are integers: nanoseconds since the epoch for a \<^verbatim>\<open>time.Time\<close>, milliseconds for the
  stored \<^verbatim>\<open>UnixMilli\<close> values. Code that is not part of the repository (SHA-256, Ed25519,
  the size of a JSON encoding) is the record \<open>world\<close>, an argument of what uses it.
\<close>

section \<open>Data\<close>

type_synonym SubjectKind = string

definition SubjectHost :: SubjectKind where "SubjectHost = ''host''"
definition SubjectProvider :: SubjectKind where "SubjectProvider = ''provider''"
definition SubjectSession :: SubjectKind where "SubjectSession = ''session''"

datatype access_error =
    ErrInvalidCredential | ErrRevoked | ErrExpired | ErrReplay | ErrCapacity
  | ErrAuthorityInUse | ErrAuthorityClosed | ErrNotProvisioned | ErrGenerationChanged
  | ErrDenied | ErrRepoNotGranted string string | ErrSubject | ErrJournal
  | ErrContext | ErrIO string

record CredentialRecord =
  cr_KeyID :: string
  cr_SubjectID :: string
  cr_Kind :: SubjectKind
  cr_Generation :: "64 word"
  cr_PublicKey :: string
  cr_IssuedAt :: int
  cr_NotAfter :: int
  cr_RevokedAt :: int

record Principal =
  p_KeyID :: string
  p_SubjectID :: string
  p_Kind :: SubjectKind
  p_Generation :: "64 word"

record Credential =
  cd_Protocol :: int
  cd_KeyID :: string
  cd_SubjectID :: string
  cd_Kind :: SubjectKind
  cd_Generation :: "64 word"
  cd_PrivateKey :: string
  cd_IssuerKeyID :: string
  cd_IssuerPublicKey :: string
  cd_DaemonCertificate :: string
  cd_NotAfter :: int

record registryFile =
  rf_Version :: int
  rf_Current :: "(string, string) gomap"
  rf_Records :: "(string, CredentialRecord) gomap"

record issuerCredential =
  is_KeyID :: string
  is_PublicKey :: string
  is_PrivateKey :: string

record world =
  w_sha256 :: "string \<Rightarrow> string"
  w_keyFromSeed :: "string \<Rightarrow> string"
  w_sign :: "string \<Rightarrow> string \<Rightarrow> string"
  w_verify :: "string \<Rightarrow> string \<Rightarrow> string \<Rightarrow> bool"
  w_registryLen :: "registryFile \<Rightarrow> nat"

definition ProtocolVersion :: int where "ProtocolVersion = 1"
definition maxStateBytes :: nat where "maxStateBytes = 4 * 2 ^ 20"

definition UnixMilli :: "int \<Rightarrow> int" where "UnixMilli t = t div 1000000"

definition credentialLifetime :: int where "credentialLifetime = 30 * 24 * 3600 * 1000000000"

section \<open>Subjects and keys\<close>

definition validateSubject :: "SubjectKind \<Rightarrow> string \<Rightarrow> access_error option" where
  "validateSubject kind sid =
     (if kind \<noteq> SubjectHost \<and> kind \<noteq> SubjectProvider \<and> kind \<noteq> SubjectSession then Some ErrSubject
      else if TrimSpace sid = [] \<or> CHR 0x00 \<in> set sid then Some ErrSubject else None)"

definition currentKey :: "SubjectKind \<Rightarrow> string \<Rightarrow> string" where
  "currentKey kind sid = kind @ CHR 0x00 # sid"

definition subjectKey :: "world \<Rightarrow> SubjectKind \<Rightarrow> string \<Rightarrow> string" where
  "subjectKey W kind sid = hex_encode (take 16 (w_sha256 W (kind @ CHR 0x00 # sid)))"

definition keyIDOf :: "world \<Rightarrow> string \<Rightarrow> string" where
  "keyIDOf W pub = hex_encode (take 16 (w_sha256 W pub))"

section \<open>Reads\<close>

abbreviation currentOf :: "registryFile \<Rightarrow> SubjectKind \<Rightarrow> string \<Rightarrow> string" where
  "currentOf r kind sid \<equiv> mget0 [] (rf_Current r) (currentKey kind sid)"

definition ofSubject :: "SubjectKind \<Rightarrow> string \<Rightarrow> CredentialRecord \<Rightarrow> bool" where
  "ofSubject kind sid rec \<longleftrightarrow> cr_Kind rec = kind \<and> cr_SubjectID rec = sid"

definition subjectWasIssued :: "registryFile \<Rightarrow> SubjectKind \<Rightarrow> string \<Rightarrow> bool" where
  "subjectWasIssued r kind sid = list_ex (\<lambda>(k, rec). ofSubject kind sid rec) (rf_Records r)"

definition currentRecord ::
  "registryFile \<Rightarrow> int \<Rightarrow> SubjectKind \<Rightarrow> string \<Rightarrow> access_error + CredentialRecord" where
  "currentRecord r now kind sid =
     (let keyID = currentOf r kind sid
      in if keyID = [] then
           (if subjectWasIssued r kind sid then Inl ErrRevoked else Inl ErrNotProvisioned)
         else (case map_of (rf_Records r) keyID of
             None \<Rightarrow> Inl ErrInvalidCredential
           | Some rec \<Rightarrow>
               if cr_KeyID rec \<noteq> keyID \<or> cr_Kind rec \<noteq> kind \<or> cr_SubjectID rec \<noteq> sid
               then Inl ErrInvalidCredential
               else if cr_RevokedAt rec \<noteq> 0 then Inl ErrRevoked
               else if cr_NotAfter rec \<le> UnixMilli now then Inl ErrExpired
               else Inr rec))"

text \<open>The loop of \<^verbatim>\<open>lastRecordLocked\<close>; \<open>lst\<close> is \<open>None\<close> until \<^verbatim>\<open>found\<close> is set.\<close>

fun lastRecord_loop ::
  "SubjectKind \<Rightarrow> string \<Rightarrow> (string \<times> CredentialRecord) list \<Rightarrow> CredentialRecord option \<Rightarrow>
   access_error + CredentialRecord option" where
  "lastRecord_loop kind sid [] lst = Inr lst"
| "lastRecord_loop kind sid ((keyID, rec) # es) lst =
     (if cr_Kind rec \<noteq> kind \<or> cr_SubjectID rec \<noteq> sid then lastRecord_loop kind sid es lst
      else if cr_KeyID rec \<noteq> keyID then Inl ErrInvalidCredential
      else (case lst of
          None \<Rightarrow> lastRecord_loop kind sid es (Some rec)
        | Some l \<Rightarrow>
            if cr_Generation l < cr_Generation rec then lastRecord_loop kind sid es (Some rec)
            else if cr_Generation rec = cr_Generation l \<and> cr_KeyID rec \<noteq> cr_KeyID l
              then Inl ErrInvalidCredential
            else lastRecord_loop kind sid es lst))"

definition lastRecord ::
  "registryFile \<Rightarrow> SubjectKind \<Rightarrow> string \<Rightarrow> access_error + CredentialRecord" where
  "lastRecord r kind sid =
     (case lastRecord_loop kind sid (rf_Records r) None of
        Inl e \<Rightarrow> Inl e | Inr None \<Rightarrow> Inl ErrNotProvisioned | Inr (Some rec) \<Rightarrow> Inr rec)"

definition validIn :: "registryFile \<Rightarrow> int \<Rightarrow> Principal \<Rightarrow> access_error option" where
  "validIn r now p =
     (case map_of (rf_Records r) (p_KeyID p) of
        None \<Rightarrow> Some ErrInvalidCredential
      | Some rec \<Rightarrow>
          if cr_SubjectID rec \<noteq> p_SubjectID p \<or> cr_Kind rec \<noteq> p_Kind p \<or>
             cr_Generation rec \<noteq> p_Generation p \<or>
             currentOf r (cr_Kind rec) (cr_SubjectID rec) \<noteq> p_KeyID p
          then Some ErrInvalidCredential
          else if cr_RevokedAt rec \<noteq> 0 then Some ErrRevoked
          else if cr_NotAfter rec \<le> UnixMilli now then Some ErrInvalidCredential
          else None)"

section \<open>Registry updates\<close>

text \<open>
  \<^verbatim>\<open>issueLocked\<close> up to key generation: check that the registry still points where the caller
  read it, pick the next generation and mark the predecessor revoked in the copy.
\<close>

definition issuePrepare ::
  "int \<Rightarrow> SubjectKind \<Rightarrow> string \<Rightarrow> string \<Rightarrow> registryFile \<Rightarrow>
   access_error + (registryFile \<times> 64 word)" where
  "issuePrepare now kind sid oldKeyID r =
     (let currentKeyID = currentOf r kind sid
      in if (oldKeyID = [] \<and> currentKeyID \<noteq> []) \<or>
            (oldKeyID \<noteq> [] \<and> currentKeyID \<noteq> [] \<and> currentKeyID \<noteq> oldKeyID)
         then Inl ErrGenerationChanged
         else if oldKeyID = [] then Inr (r, 1)
         else (case map_of (rf_Records r) oldKeyID of
             None \<Rightarrow> Inl ErrInvalidCredential
           | Some old \<Rightarrow>
               if cr_Kind old \<noteq> kind \<or> cr_SubjectID old \<noteq> sid \<or> cr_Generation old = - 1
               then Inl ErrInvalidCredential
               else Inr (if cr_RevokedAt old = 0
                         then r\<lparr>rf_Records := mput oldKeyID (old\<lparr>cr_RevokedAt := UnixMilli now\<rparr>) (rf_Records r)\<rparr>
                         else r,
                         cr_Generation old + 1)))"

definition issuedRecord ::
  "world \<Rightarrow> int \<Rightarrow> SubjectKind \<Rightarrow> string \<Rightarrow> 64 word \<Rightarrow> string \<Rightarrow> CredentialRecord" where
  "issuedRecord W now kind sid generation pub =
     \<lparr>cr_KeyID = keyIDOf W pub, cr_SubjectID = sid, cr_Kind = kind, cr_Generation = generation,
      cr_PublicKey = b64_encode pub, cr_IssuedAt = UnixMilli now,
      cr_NotAfter = UnixMilli (now + credentialLifetime), cr_RevokedAt = 0\<rparr>"

definition addRecord :: "CredentialRecord \<Rightarrow> registryFile \<Rightarrow> registryFile" where
  "addRecord rec r =
     r\<lparr>rf_Records := mput (cr_KeyID rec) rec (rf_Records r),
       rf_Current := mput (currentKey (cr_Kind rec) (cr_SubjectID rec)) (cr_KeyID rec) (rf_Current r)\<rparr>"

text \<open>The copy \<^verbatim>\<open>revokeLocked\<close> commits; \<open>None\<close> when there is nothing to revoke.\<close>

definition revokeNext ::
  "int \<Rightarrow> SubjectKind \<Rightarrow> string \<Rightarrow> string \<Rightarrow> registryFile \<Rightarrow>
   access_error + (registryFile \<times> string) option" where
  "revokeNext now kind sid expectedKeyID r =
     (let key = currentKey kind sid; keyID = mget0 [] (rf_Current r) key
      in if keyID = [] then (if expectedKeyID \<noteq> [] then Inl ErrGenerationChanged else Inr None)
         else if expectedKeyID \<noteq> [] \<and> keyID \<noteq> expectedKeyID then Inl ErrGenerationChanged
         else (case map_of (rf_Records r) keyID of
             None \<Rightarrow> Inl ErrInvalidCredential
           | Some rec \<Rightarrow>
               if cr_Kind rec \<noteq> kind \<or> cr_SubjectID rec \<noteq> sid then Inl ErrInvalidCredential
               else Inr (Some
                 (r\<lparr>rf_Records :=
                      (if cr_RevokedAt rec = 0
                       then mput keyID (rec\<lparr>cr_RevokedAt := UnixMilli now\<rparr>) (rf_Records r)
                       else rf_Records r),
                    rf_Current := mdel key (rf_Current r)\<rparr>, keyID))))"

section \<open>Subjects: keys do not collide\<close>

lemma nul_notin_kind: "validateSubject kind sid = None \<Longrightarrow> CHR 0x00 \<notin> set kind"
  by (auto simp: validateSubject_def SubjectHost_def SubjectProvider_def SubjectSession_def
      split: if_splits)

lemma currentKey_inject:
  assumes "validateSubject k1 s1 = None" and "validateSubject k2 s2 = None"
  shows "currentKey k1 s1 = currentKey k2 s2 \<longleftrightarrow> k1 = k2 \<and> s1 = s2"
proof
  have split: "takeWhile (\<lambda>c. c \<noteq> CHR 0x00) (currentKey k s) = k" if "CHR 0x00 \<notin> set k" for k s
    using that by (simp add: currentKey_def takeWhile_append)
  assume eq: "currentKey k1 s1 = currentKey k2 s2"
  then have "k1 = k2" using split nul_notin_kind assms by metis
  with eq show "k1 = k2 \<and> s1 = s2" by (simp add: currentKey_def)
qed simp

section \<open>The registry invariant\<close>

text \<open>
  Records are filed under their own key id; a current pointer leads to an unrevoked record of its
  subject; a record that is not current is revoked; generations of a subject are distinct and
  the current one is the highest.
\<close>

definition sameSubject :: "CredentialRecord \<Rightarrow> CredentialRecord \<Rightarrow> bool" where
  "sameSubject a b \<longleftrightarrow> cr_Kind a = cr_Kind b \<and> cr_SubjectID a = cr_SubjectID b"

definition recordsFiled :: "registryFile \<Rightarrow> bool" where
  "recordsFiled r \<longleftrightarrow> gwf (rf_Current r) \<and> gwf (rf_Records r) \<and>
     (\<forall>k rec. map_of (rf_Records r) k = Some rec \<longrightarrow>
        cr_KeyID rec = k \<and> k \<noteq> [] \<and> validateSubject (cr_Kind rec) (cr_SubjectID rec) = None)"

definition currentIsLive :: "registryFile \<Rightarrow> bool" where
  "currentIsLive r \<longleftrightarrow>
     (\<forall>ck k. map_of (rf_Current r) ck = Some k \<longrightarrow>
        (\<exists>rec. map_of (rf_Records r) k = Some rec \<and>
           ck = currentKey (cr_Kind rec) (cr_SubjectID rec) \<and> cr_RevokedAt rec = 0))"

definition liveIsCurrent :: "registryFile \<Rightarrow> bool" where
  "liveIsCurrent r \<longleftrightarrow>
     (\<forall>k rec. map_of (rf_Records r) k = Some rec \<longrightarrow> cr_RevokedAt rec = 0 \<longrightarrow>
        map_of (rf_Current r) (currentKey (cr_Kind rec) (cr_SubjectID rec)) = Some k)"

definition generationsDistinct :: "registryFile \<Rightarrow> bool" where
  "generationsDistinct r \<longleftrightarrow>
     (\<forall>k1 k2 r1 r2. map_of (rf_Records r) k1 = Some r1 \<longrightarrow> map_of (rf_Records r) k2 = Some r2 \<longrightarrow>
        sameSubject r1 r2 \<longrightarrow> cr_Generation r1 = cr_Generation r2 \<longrightarrow> k1 = k2)"

definition currentIsLatest :: "registryFile \<Rightarrow> bool" where
  "currentIsLatest r \<longleftrightarrow>
     (\<forall>ck k rec k' rec'. map_of (rf_Current r) ck = Some k \<longrightarrow> map_of (rf_Records r) k = Some rec \<longrightarrow>
        map_of (rf_Records r) k' = Some rec' \<longrightarrow> sameSubject rec' rec \<longrightarrow>
        cr_Generation rec' \<le> cr_Generation rec)"

definition reg_inv :: "registryFile \<Rightarrow> bool" where
  "reg_inv r \<longleftrightarrow> recordsFiled r \<and> currentIsLive r \<and> liveIsCurrent r \<and> generationsDistinct r \<and>
     currentIsLatest r"

definition emptyRegistry :: registryFile where
  "emptyRegistry = \<lparr>rf_Version = ProtocolVersion, rf_Current = [], rf_Records = []\<rparr>"

lemmas reg_inv_defs = reg_inv_def recordsFiled_def currentIsLive_def liveIsCurrent_def
  generationsDistinct_def currentIsLatest_def

lemma reg_inv_empty: "reg_inv emptyRegistry"
  by (simp add: reg_inv_defs emptyRegistry_def)

lemma reg_inv_keyID: "reg_inv r \<Longrightarrow> map_of (rf_Records r) k = Some rec \<Longrightarrow> cr_KeyID rec = k"
  by (simp add: reg_inv_def recordsFiled_def)

lemma reg_inv_subject:
  "reg_inv r \<Longrightarrow> map_of (rf_Records r) k = Some rec \<Longrightarrow>
   validateSubject (cr_Kind rec) (cr_SubjectID rec) = None"
  by (simp add: reg_inv_def recordsFiled_def)

lemma reg_inv_key_nonempty: "reg_inv r \<Longrightarrow> map_of (rf_Records r) k = Some rec \<Longrightarrow> k \<noteq> []"
  unfolding reg_inv_def recordsFiled_def by blast

lemma reg_inv_live_current:
  "reg_inv r \<Longrightarrow> map_of (rf_Records r) k = Some rec \<Longrightarrow> cr_RevokedAt rec = 0 \<Longrightarrow>
   map_of (rf_Current r) (currentKey (cr_Kind rec) (cr_SubjectID rec)) = Some k"
  by (simp add: reg_inv_def liveIsCurrent_def)

text \<open>A non-empty current pointer of a subject leads to that subject's live, latest record.\<close>

lemma current_lookup:
  assumes inv: "reg_inv r" and sub: "validateSubject kind sid = None"
    and cur: "map_of (rf_Current r) (currentKey kind sid) = Some k"
  obtains rec where "map_of (rf_Records r) k = Some rec" "cr_KeyID rec = k" "cr_Kind rec = kind"
    "cr_SubjectID rec = sid" "cr_RevokedAt rec = 0" "k \<noteq> []"
proof -
  from inv cur obtain rec where rec: "map_of (rf_Records r) k = Some rec"
    and ck: "currentKey kind sid = currentKey (cr_Kind rec) (cr_SubjectID rec)"
    and live: "cr_RevokedAt rec = 0"
    unfolding reg_inv_def currentIsLive_def by blast
  have "kind = cr_Kind rec \<and> sid = cr_SubjectID rec"
    using currentKey_inject [OF sub reg_inv_subject [OF inv rec]] ck by simp
  then show ?thesis
    using that rec live reg_inv_keyID [OF inv rec] reg_inv_key_nonempty [OF inv rec] by simp
qed

lemma currentOf_cases:
  assumes "reg_inv r" and "validateSubject kind sid = None"
  shows "currentOf r kind sid = [] \<longleftrightarrow> map_of (rf_Current r) (currentKey kind sid) = None"
  using current_lookup [OF assms]
  by (auto simp: mget0_def split: option.splits)

lemma subjectWasIssued_iff:
  "gwf (rf_Records r) \<Longrightarrow> subjectWasIssued r kind sid \<longleftrightarrow>
     (\<exists>k rec. map_of (rf_Records r) k = Some rec \<and> cr_Kind rec = kind \<and> cr_SubjectID rec = sid)"
  by (fastforce simp: subjectWasIssued_def list_ex_iff ofSubject_def map_of_eq_Some_iff)

section \<open>What the reads return\<close>

lemma lastRecord_loop_Some:
  "lastRecord_loop kind sid es lst = Inr (Some m) \<Longrightarrow>
     ((\<exists>k. (k, m) \<in> set es \<and> ofSubject kind sid m \<and> cr_KeyID m = k) \<or> lst = Some m) \<and>
     (\<forall>(k, rec) \<in> set es. ofSubject kind sid rec \<longrightarrow> cr_Generation rec \<le> cr_Generation m) \<and>
     (\<forall>l. lst = Some l \<longrightarrow> cr_Generation l \<le> cr_Generation m)"
proof (induction es arbitrary: lst)
  case (Cons e es)
  obtain keyID rec where e: "e = (keyID, rec)" by (cases e)
  show ?case
  proof (cases "ofSubject kind sid rec")
    case False
    then have "lastRecord_loop kind sid es lst = Inr (Some m)"
      using Cons.prems e by (auto simp: ofSubject_def)
    from Cons.IH [OF this] False e show ?thesis by auto
  next
    case True
    with Cons.prems e have key: "cr_KeyID rec = keyID"
      by (auto simp: ofSubject_def split: if_splits)
    have "lastRecord_loop kind sid es (Some rec) = Inr (Some m) \<and>
          (\<forall>l. lst = Some l \<longrightarrow> cr_Generation l < cr_Generation rec) \<or>
        (\<exists>l. lst = Some l \<and> cr_Generation rec \<le> cr_Generation l \<and>
          lastRecord_loop kind sid es lst = Inr (Some m))"
      using Cons.prems e key True
      by (cases lst) (auto simp: ofSubject_def split: if_splits)
    then show ?thesis
    proof (elim disjE exE conjE)
      assume "lastRecord_loop kind sid es (Some rec) = Inr (Some m)"
        and "\<forall>l. lst = Some l \<longrightarrow> cr_Generation l < cr_Generation rec"
      with Cons.IH [of "Some rec"] True key e show ?thesis by fastforce
    next
      fix l
      assume "lst = Some l" "cr_Generation rec \<le> cr_Generation l"
        "lastRecord_loop kind sid es lst = Inr (Some m)"
      with Cons.IH [of lst] e show ?thesis by fastforce
    qed
  qed
qed simp

lemma lastRecord_loop_None:
  "lastRecord_loop kind sid es lst = Inr None \<Longrightarrow>
     lst = None \<and> (\<forall>(k, rec) \<in> set es. \<not> ofSubject kind sid rec)"
  by (induction kind sid es lst rule: lastRecord_loop.induct)
    (auto simp: ofSubject_def split: if_splits option.splits)

lemma lastRecord_loop_no_error:
  assumes distinct: "\<And>a b. a \<in> S \<Longrightarrow> b \<in> S \<Longrightarrow> sameSubject a b \<Longrightarrow>
      cr_Generation a = cr_Generation b \<Longrightarrow> cr_KeyID a = cr_KeyID b"
    and "\<And>k rec. (k, rec) \<in> set es \<Longrightarrow> cr_KeyID rec = k \<and> rec \<in> S"
    and "\<And>l. lst = Some l \<Longrightarrow> ofSubject kind sid l \<and> l \<in> S"
  shows "\<exists>v. lastRecord_loop kind sid es lst = Inr v"
  using assms(2,3)
proof (induction es arbitrary: lst)
  case (Cons e es)
  obtain keyID rec where e: "e = (keyID, rec)" by (cases e)
  have rec: "cr_KeyID rec = keyID" "rec \<in> S"
    using Cons.prems(1) [of keyID rec] e by simp_all
  have es: "\<And>k rec. (k, rec) \<in> set es \<Longrightarrow> cr_KeyID rec = k \<and> rec \<in> S"
    using Cons.prems(1) by (meson list.set_intros(2))
  have keep: "\<exists>v. lastRecord_loop kind sid es lst = Inr v"
    using es Cons.prems(2) by (rule Cons.IH)
  show ?case
  proof (cases "ofSubject kind sid rec")
    case False
    with keep e show ?thesis by (auto simp: ofSubject_def)
  next
    case True
    have take: "\<exists>v. lastRecord_loop kind sid es (Some rec) = Inr v"
      using es by (rule Cons.IH) (use True rec in auto)
    show ?thesis
    proof (cases lst)
      case None
      with True rec e take show ?thesis by (auto simp: ofSubject_def)
    next
      case (Some l)
      with Cons.prems(2) [of l] have "ofSubject kind sid l" "l \<in> S" by simp_all
      then have "\<not> (cr_Generation rec = cr_Generation l \<and> cr_KeyID rec \<noteq> cr_KeyID l)"
        using distinct [of rec l] True rec by (auto simp: ofSubject_def sameSubject_def)
      with Some True rec e take keep show ?thesis by (auto simp: ofSubject_def)
    qed
  qed
qed simp

lemma lastRecord_Inr:
  assumes "reg_inv r" and "lastRecord r kind sid = Inr m"
  shows "map_of (rf_Records r) (cr_KeyID m) = Some m" and "cr_Kind m = kind" and "cr_SubjectID m = sid"
    and "\<And>k rec. map_of (rf_Records r) k = Some rec \<Longrightarrow> cr_Kind rec = kind \<Longrightarrow>
           cr_SubjectID rec = sid \<Longrightarrow> cr_Generation rec \<le> cr_Generation m"
proof -
  have wf: "gwf (rf_Records r)" using assms(1) by (simp add: reg_inv_defs)
  from assms(2) have loop: "lastRecord_loop kind sid (rf_Records r) None = Inr (Some m)"
    by (auto simp: lastRecord_def split: sum.splits option.splits)
  from lastRecord_loop_Some [OF loop] obtain k where k: "(k, m) \<in> set (rf_Records r)"
    "ofSubject kind sid m" "cr_KeyID m = k"
    by auto
  then show "map_of (rf_Records r) (cr_KeyID m) = Some m" "cr_Kind m = kind" "cr_SubjectID m = sid"
    using wf by (auto simp: ofSubject_def map_of_eq_Some_iff)
  show "cr_Generation rec \<le> cr_Generation m"
    if "map_of (rf_Records r) k = Some rec" "cr_Kind rec = kind" "cr_SubjectID rec = sid" for k rec
  proof -
    from lastRecord_loop_Some [OF loop]
    have "\<forall>(k, rec) \<in> set (rf_Records r). ofSubject kind sid rec \<longrightarrow> cr_Generation rec \<le> cr_Generation m"
      by blast
    from bspec [OF this map_of_SomeD [OF that(1)]] that(2,3) show ?thesis
      by (simp add: ofSubject_def)
  qed
qed

lemma lastRecord_Inl:
  assumes "reg_inv r" and "lastRecord r kind sid = Inl e"
  shows "e = ErrNotProvisioned \<and> \<not> subjectWasIssued r kind sid"
proof -
  have wf: "gwf (rf_Records r)" using assms(1) by (simp add: reg_inv_defs)
  have "\<exists>v. lastRecord_loop kind sid (rf_Records r) None = Inr v"
  proof (rule lastRecord_loop_no_error [where S = "ran (map_of (rf_Records r))"])
    fix a b
    assume "a \<in> ran (map_of (rf_Records r))" and "b \<in> ran (map_of (rf_Records r))"
      and same: "sameSubject a b" "cr_Generation a = cr_Generation b"
    then obtain k l where k: "map_of (rf_Records r) k = Some a" and l: "map_of (rf_Records r) l = Some b"
      unfolding ran_def by blast
    with same assms(1) have "k = l"
      unfolding reg_inv_def generationsDistinct_def by blast
    with reg_inv_keyID [OF assms(1) k] reg_inv_keyID [OF assms(1) l] show "cr_KeyID a = cr_KeyID b"
      by simp
  next
    fix k rec
    assume "(k, rec) \<in> set (rf_Records r)"
    then have "map_of (rf_Records r) k = Some rec" using wf by (simp add: map_of_eq_Some_iff)
    then show "cr_KeyID rec = k \<and> rec \<in> ran (map_of (rf_Records r))"
      using reg_inv_keyID [OF assms(1)] by (auto intro: ranI)
  qed simp
  then obtain v where v: "lastRecord_loop kind sid (rf_Records r) None = Inr v" ..
  with assms(2) have "v = None" "e = ErrNotProvisioned"
    by (auto simp: lastRecord_def split: option.splits)
  with lastRecord_loop_None [of kind sid "rf_Records r" None] v show ?thesis
    by (auto simp: subjectWasIssued_def list_ex_iff)
qed

text \<open>In a well-formed registry a principal is valid exactly when it names its subject's live record.\<close>

lemma validIn_None_iff:
  assumes "reg_inv r"
  shows "validIn r now p = None \<longleftrightarrow>
    (\<exists>rec. map_of (rf_Records r) (p_KeyID p) = Some rec \<and> cr_RevokedAt rec = 0 \<and>
       UnixMilli now < cr_NotAfter rec \<and> cr_SubjectID rec = p_SubjectID p \<and>
       cr_Kind rec = p_Kind p \<and> cr_Generation rec = p_Generation p)"
proof -
  have "currentOf r (cr_Kind rec) (cr_SubjectID rec) = p_KeyID p"
    if "map_of (rf_Records r) (p_KeyID p) = Some rec" "cr_RevokedAt rec = 0" for rec
    using reg_inv_live_current [OF assms that] by (simp add: mget0_def)
  then show ?thesis
    by (auto simp: validIn_def split: option.splits if_splits)
qed

lemma validIn_unique:
  assumes inv: "reg_inv r" and "validIn r now p = None" and "validIn r now' q = None"
    and "p_Kind p = p_Kind q" and "p_SubjectID p = p_SubjectID q"
  shows "p = q"
proof -
  from assms obtain a b where a: "map_of (rf_Records r) (p_KeyID p) = Some a" "cr_RevokedAt a = 0"
    "cr_SubjectID a = p_SubjectID p" "cr_Kind a = p_Kind p" "cr_Generation a = p_Generation p"
    and b: "map_of (rf_Records r) (p_KeyID q) = Some b" "cr_RevokedAt b = 0"
    "cr_SubjectID b = p_SubjectID q" "cr_Kind b = p_Kind q" "cr_Generation b = p_Generation q"
    by (auto simp: validIn_None_iff [OF inv])
  have "p_KeyID p = p_KeyID q"
    using reg_inv_live_current [OF inv a(1,2)] reg_inv_live_current [OF inv b(1,2)] a b assms(4,5)
    by simp
  with a b assms(4,5) show ?thesis by simp
qed

section \<open>Both updates keep the invariant\<close>

definition markRevoked :: "int \<Rightarrow> CredentialRecord \<Rightarrow> CredentialRecord" where
  "markRevoked now rec = (if cr_RevokedAt rec = 0 then rec\<lparr>cr_RevokedAt := UnixMilli now\<rparr> else rec)"

lemma markRevoked_simps [simp]:
  "cr_KeyID (markRevoked now rec) = cr_KeyID rec"
  "cr_Kind (markRevoked now rec) = cr_Kind rec"
  "cr_SubjectID (markRevoked now rec) = cr_SubjectID rec"
  "cr_Generation (markRevoked now rec) = cr_Generation rec"
  "UnixMilli now \<noteq> 0 \<Longrightarrow> cr_RevokedAt (markRevoked now rec) \<noteq> 0"
  by (simp_all add: markRevoked_def)

lemma issuedRecord_simps [simp]:
  "cr_KeyID (issuedRecord W now kind sid g pub) = keyIDOf W pub"
  "cr_Kind (issuedRecord W now kind sid g pub) = kind"
  "cr_SubjectID (issuedRecord W now kind sid g pub) = sid"
  "cr_Generation (issuedRecord W now kind sid g pub) = g"
  "cr_RevokedAt (issuedRecord W now kind sid g pub) = 0"
  by (simp_all add: issuedRecord_def)

text \<open>\<open>latestOf r kind sid k\<close>: \<open>k\<close> is the subject's latest key, empty when it has none.\<close>

definition latestOf :: "registryFile \<Rightarrow> SubjectKind \<Rightarrow> string \<Rightarrow> string \<Rightarrow> bool" where
  "latestOf r kind sid k \<longleftrightarrow>
     (\<forall>k' rec'. map_of (rf_Records r) k' = Some rec' \<longrightarrow> cr_Kind rec' = kind \<longrightarrow> cr_SubjectID rec' = sid \<longrightarrow>
        k \<noteq> [] \<and> (\<forall>rec. map_of (rf_Records r) k = Some rec \<longrightarrow> cr_Generation rec' \<le> cr_Generation rec))"

lemma issuePrepare_fresh:
  "issuePrepare now kind sid [] r = Inr (r', g) \<Longrightarrow> r' = r \<and> g = 1 \<and> currentOf r kind sid = []"
  by (auto simp: issuePrepare_def Let_def split: if_splits)

lemma issuePrepare_succ:
  assumes "issuePrepare now kind sid k r = Inr (r', g)" and "k \<noteq> []"
  obtains old where "map_of (rf_Records r) k = Some old" "cr_Kind old = kind" "cr_SubjectID old = sid"
    "cr_Generation old \<noteq> - 1" "g = cr_Generation old + 1" "rf_Current r' = rf_Current r"
    "map_of (rf_Records r') = (map_of (rf_Records r))(k \<mapsto> markRevoked now old)"
    "gwf (rf_Records r) \<Longrightarrow> gwf (rf_Records r')"
    "currentOf r kind sid = [] \<or> currentOf r kind sid = k"
proof -
  from assms obtain old where old: "map_of (rf_Records r) k = Some old" "cr_Kind old = kind"
    "cr_SubjectID old = sid" "cr_Generation old \<noteq> - 1" "g = cr_Generation old + 1"
    and r': "r' = (if cr_RevokedAt old = 0
      then r\<lparr>rf_Records := mput k (old\<lparr>cr_RevokedAt := UnixMilli now\<rparr>) (rf_Records r)\<rparr> else r)"
    and cur: "currentOf r kind sid = [] \<or> currentOf r kind sid = k"
    by (auto simp: issuePrepare_def Let_def split: if_splits option.splits)
  show ?thesis
    by (rule that [OF old]) (use r' cur old(1) in \<open>auto simp: markRevoked_def\<close>)
qed

lemma gen_succ_unat: "(g :: 64 word) \<noteq> - 1 \<Longrightarrow> unat (g + 1) = Suc (unat g)"
  by (metis add.commute add_eq_0_iff2 unatSuc)

lemma gen_succ_less: "(g :: 64 word) \<noteq> - 1 \<Longrightarrow> g < g + 1"
  by (simp add: word_less_nat_alt gen_succ_unat)

lemma addRecord_simps [simp]:
  "map_of (rf_Records (addRecord rec r)) = (map_of (rf_Records r))(cr_KeyID rec \<mapsto> rec)"
  "map_of (rf_Current (addRecord rec r)) =
     (map_of (rf_Current r))(currentKey (cr_Kind rec) (cr_SubjectID rec) \<mapsto> cr_KeyID rec)"
  "gwf (rf_Records r) \<Longrightarrow> gwf (rf_Records (addRecord rec r))"
  "gwf (rf_Current r) \<Longrightarrow> gwf (rf_Current (addRecord rec r))"
  by (simp_all add: addRecord_def)

text \<open>
  \<open>retired r r' new\<close>: \<open>r'\<close> is \<open>r\<close> with the subject's records marked revoked, so
  that the live record \<open>new\<close> of a higher generation can be added.
\<close>

definition retired :: "registryFile \<Rightarrow> registryFile \<Rightarrow> CredentialRecord \<Rightarrow> bool" where
  "retired r r' new \<longleftrightarrow>
     rf_Current r' = rf_Current r \<and> gwf (rf_Records r') \<and>
     (\<forall>k. map_of (rf_Records r') k = None \<longleftrightarrow> map_of (rf_Records r) k = None) \<and>
     (\<forall>k a b. map_of (rf_Records r') k = Some b \<longrightarrow> map_of (rf_Records r) k = Some a \<longrightarrow>
        cr_KeyID b = cr_KeyID a \<and> sameSubject b a \<and> cr_Generation b = cr_Generation a \<and>
        (if sameSubject a new then cr_RevokedAt b \<noteq> 0 else b = a)) \<and>
     (\<forall>k a. map_of (rf_Records r) k = Some a \<longrightarrow> sameSubject a new \<longrightarrow> cr_Generation a < cr_Generation new)"

definition addable :: "registryFile \<Rightarrow> CredentialRecord \<Rightarrow> bool" where
  "addable r new \<longleftrightarrow> reg_inv r \<and> map_of (rf_Records r) (cr_KeyID new) = None \<and> cr_KeyID new \<noteq> [] \<and>
     validateSubject (cr_Kind new) (cr_SubjectID new) = None \<and> cr_RevokedAt new = 0"

lemma sameSubject_trans: "sameSubject a b \<Longrightarrow> sameSubject b c \<Longrightarrow> sameSubject a c"
  by (simp add: sameSubject_def)

lemma sameSubject_sym: "sameSubject a b \<Longrightarrow> sameSubject b a"
  by (simp add: sameSubject_def)

lemma retired_back:
  assumes "retired r r' new" and "map_of (rf_Records r') k = Some b"
  obtains a where "map_of (rf_Records r) k = Some a" "cr_KeyID b = cr_KeyID a" "sameSubject b a"
    "cr_Generation b = cr_Generation a" "sameSubject a new \<Longrightarrow> cr_RevokedAt b \<noteq> 0"
    "\<not> sameSubject a new \<Longrightarrow> b = a"
proof -
  from assms have "map_of (rf_Records r) k \<noteq> None"
    unfolding retired_def by (metis option.distinct(1))
  then obtain a where a: "map_of (rf_Records r) k = Some a" by blast
  with assms have "cr_KeyID b = cr_KeyID a \<and> sameSubject b a \<and> cr_Generation b = cr_Generation a \<and>
      (if sameSubject a new then cr_RevokedAt b \<noteq> 0 else b = a)"
    unfolding retired_def by blast
  with that a show ?thesis by presburger
qed

lemma retired_forth:
  assumes "retired r r' new" and "map_of (rf_Records r) k = Some a" and "\<not> sameSubject a new"
  shows "map_of (rf_Records r') k = Some a"
proof -
  from assms(1,2) have "map_of (rf_Records r') k \<noteq> None"
    unfolding retired_def by (metis option.distinct(1))
  then obtain b where b: "map_of (rf_Records r') k = Some b" by blast
  from retired_back [OF assms(1) b] assms(2,3) b show ?thesis by (metis option.inject)
qed

text \<open>A record of the extended registry is the new one, or comes from a record of the old registry.\<close>

lemma added_cases:
  assumes "retired r r' new" and "map_of (rf_Records (addRecord new r')) k = Some b"
  obtains (new) "k = cr_KeyID new" "b = new"
  | (old) a where "k \<noteq> cr_KeyID new" "map_of (rf_Records r) k = Some a" "cr_KeyID b = cr_KeyID a"
    "sameSubject b a" "cr_Generation b = cr_Generation a" "sameSubject a new \<Longrightarrow> cr_RevokedAt b \<noteq> 0"
    "\<not> sameSubject a new \<Longrightarrow> b = a"
proof (cases "k = cr_KeyID new")
  case True
  with assms(2) have "b = new" by simp
  then show ?thesis by (rule new [OF True])
next
  case False
  with assms(2) have "map_of (rf_Records r') k = Some b" by simp
  then obtain a where a: "map_of (rf_Records r) k = Some a" "cr_KeyID b = cr_KeyID a" "sameSubject b a"
    "cr_Generation b = cr_Generation a" "sameSubject a new \<Longrightarrow> cr_RevokedAt b \<noteq> 0"
    "\<not> sameSubject a new \<Longrightarrow> b = a"
    by (rule retired_back [OF assms(1)]) blast
  show ?thesis by (rule old [OF False a])
qed

lemma added_filed:
  assumes "addable r new" and ret: "retired r r' new"
  shows "recordsFiled (addRecord new r')"
proof -
  have inv: "reg_inv r" using assms(1) by (simp add: addable_def)
  have "cr_KeyID b = k \<and> k \<noteq> [] \<and> validateSubject (cr_Kind b) (cr_SubjectID b) = None"
    if "map_of (rf_Records (addRecord new r')) k = Some b" for k b
    using ret that
  proof (cases rule: added_cases)
    case new
    then show ?thesis using assms(1) by (simp add: addable_def)
  next
    case (old a)
    then show ?thesis
      using reg_inv_keyID [OF inv old(2)] reg_inv_key_nonempty [OF inv old(2)]
        reg_inv_subject [OF inv old(2)]
      by (simp add: sameSubject_def)
  qed
  moreover have "gwf (rf_Current (addRecord new r'))" "gwf (rf_Records (addRecord new r'))"
    using inv ret by (simp_all add: reg_inv_defs retired_def)
  ultimately show ?thesis unfolding recordsFiled_def by blast
qed

lemma retired_current: "retired r r' new \<Longrightarrow> rf_Current r' = rf_Current r"
  by (simp add: retired_def)

lemma added_live:
  assumes "addable r new" and ret: "retired r r' new"
  shows "currentIsLive (addRecord new r')"
  unfolding currentIsLive_def
proof (intro allI impI)
  fix ck k
  assume ck: "map_of (rf_Current (addRecord new r')) ck = Some k"
  show "\<exists>rec. map_of (rf_Records (addRecord new r')) k = Some rec \<and>
      ck = currentKey (cr_Kind rec) (cr_SubjectID rec) \<and> cr_RevokedAt rec = 0"
  proof (cases "ck = currentKey (cr_Kind new) (cr_SubjectID new)")
    case True
    with ck assms(1) show ?thesis by (simp add: addable_def)
  next
    case False
    with ck retired_current [OF ret] have "map_of (rf_Current r) ck = Some k" by simp
    with assms(1) obtain a where a: "map_of (rf_Records r) k = Some a"
      "ck = currentKey (cr_Kind a) (cr_SubjectID a)" "cr_RevokedAt a = 0"
      unfolding addable_def reg_inv_def currentIsLive_def by blast
    with False have "\<not> sameSubject a new" by (auto simp: sameSubject_def)
    with retired_forth [OF ret a(1)] have "map_of (rf_Records r') k = Some a" by simp
    moreover have "k \<noteq> cr_KeyID new" using a(1) assms(1) by (auto simp: addable_def)
    ultimately show ?thesis using a by simp
  qed
qed

lemma added_live_current:
  assumes add: "addable r new" and ret: "retired r r' new"
  shows "liveIsCurrent (addRecord new r')"
  unfolding liveIsCurrent_def
proof (intro allI impI)
  fix k b
  assume k: "map_of (rf_Records (addRecord new r')) k = Some b" and live: "cr_RevokedAt b = 0"
  have inv: "reg_inv r" using add by (simp add: addable_def)
  show "map_of (rf_Current (addRecord new r')) (currentKey (cr_Kind b) (cr_SubjectID b)) = Some k"
    using ret k
  proof (cases rule: added_cases)
    case new
    then show ?thesis by simp
  next
    case (old a)
    with live have ns: "\<not> sameSubject a new" and [simp]: "b = a" by auto
    have "currentKey (cr_Kind a) (cr_SubjectID a) \<noteq> currentKey (cr_Kind new) (cr_SubjectID new)"
      using currentKey_inject [OF reg_inv_subject [OF inv old(2)]] add ns
      by (simp add: addable_def sameSubject_def)
    with reg_inv_live_current [OF inv old(2)] live retired_current [OF ret] show ?thesis by simp
  qed
qed

lemma retired_higher:
  "retired r r' new \<Longrightarrow> map_of (rf_Records r) k = Some a \<Longrightarrow> sameSubject a new \<Longrightarrow>
   cr_Generation a < cr_Generation new"
  unfolding retired_def by blast

lemma added_generations:
  assumes add: "addable r new" and ret: "retired r r' new"
  shows "generationsDistinct (addRecord new r')"
  unfolding generationsDistinct_def
proof (intro allI impI)
  fix k1 k2 r1 r2
  assume k1: "map_of (rf_Records (addRecord new r')) k1 = Some r1"
    and k2: "map_of (rf_Records (addRecord new r')) k2 = Some r2"
    and same: "sameSubject r1 r2" "cr_Generation r1 = cr_Generation r2"
  show "k1 = k2"
    using ret k1
  proof (cases rule: added_cases)
    case n1: new
    show ?thesis using ret k2
    proof (cases rule: added_cases)
      case (old b)
      then have "sameSubject b new" using n1 same by (simp add: sameSubject_def)
      with retired_higher [OF ret old(2)] old n1 same show ?thesis by simp
    qed (use n1 in simp)
  next
    case o1: (old a)
    show ?thesis using ret k2
    proof (cases rule: added_cases)
      case new
      then have "sameSubject a new" using o1 same by (simp add: sameSubject_def)
      with retired_higher [OF ret o1(2)] o1 new same show ?thesis by simp
    next
      case (old b)
      have "sameSubject a b" "cr_Generation a = cr_Generation b"
        using o1 old same by (simp_all add: sameSubject_def)
      with o1(2) old(2) add show ?thesis
        unfolding addable_def reg_inv_def generationsDistinct_def by blast
    qed
  qed
qed

lemma added_latest:
  assumes add: "addable r new" and ret: "retired r r' new"
  shows "currentIsLatest (addRecord new r')"
  unfolding currentIsLatest_def
proof (intro allI impI)
  fix ck k rec k' rec'
  assume ck: "map_of (rf_Current (addRecord new r')) ck = Some k"
    and k: "map_of (rf_Records (addRecord new r')) k = Some rec"
    and k': "map_of (rf_Records (addRecord new r')) k' = Some rec'" and same: "sameSubject rec' rec"
  have inv: "reg_inv r" using add by (simp add: addable_def)
  have live: "cr_RevokedAt rec = 0" and ckey: "ck = currentKey (cr_Kind rec) (cr_SubjectID rec)"
    using added_live [OF add ret] ck k unfolding currentIsLive_def by (metis option.inject)+
  show "cr_Generation rec' \<le> cr_Generation rec"
    using ret k
  proof (cases rule: added_cases)
    case new
    show ?thesis using ret k'
    proof (cases rule: added_cases)
      case (old a)
      then have "sameSubject a new" using same new by (simp add: sameSubject_def)
      with retired_higher [OF ret old(2)] old new show ?thesis by simp
    qed (use new in simp)
  next
    case (old a)
    with live have ns: "\<not> sameSubject a new" and [simp]: "rec = a" by auto
    have "ck \<noteq> currentKey (cr_Kind new) (cr_SubjectID new)"
      using currentKey_inject [OF reg_inv_subject [OF inv old(2)]] add ns ckey
      by (simp add: addable_def sameSubject_def)
    then have cur: "map_of (rf_Current r) ck = Some k" using ck retired_current [OF ret] by simp
    show ?thesis using ret k'
    proof (cases rule: added_cases)
      case (new)
      with same ns show ?thesis by (simp add: sameSubject_def)
    next
      case o2: (old b)
      then have "sameSubject b a" using same by (simp add: sameSubject_def)
      with cur old(2) o2(2) inv have "cr_Generation b \<le> cr_Generation a"
        unfolding reg_inv_def currentIsLatest_def by blast
      with o2 show ?thesis by simp
    qed
  qed
qed

lemma addRecord_inv: "addable r new \<Longrightarrow> retired r r' new \<Longrightarrow> reg_inv (addRecord new r')"
  by (simp add: reg_inv_def added_filed added_live added_live_current added_generations added_latest)

lemma retired_fresh:
  assumes inv: "reg_inv r" and "latestOf r kind sid []"
  shows "retired r r (issuedRecord W now kind sid g pub)"
proof -
  have "\<not> sameSubject a (issuedRecord W now kind sid g pub)" if "map_of (rf_Records r) k = Some a" for k a
    using assms(2) that by (auto simp: latestOf_def sameSubject_def)
  then show ?thesis using inv
    by (auto simp: retired_def reg_inv_defs sameSubject_def)
qed

lemma retired_successor:
  assumes inv: "reg_inv r" and sub: "validateSubject kind sid = None" and latest: "latestOf r kind sid k"
    and now: "UnixMilli now \<noteq> 0" and prep: "issuePrepare now kind sid k r = Inr (r', g)" and "k \<noteq> []"
  shows "retired r r' (issuedRecord W now kind sid g pub)"
proof -
  from issuePrepare_succ [OF prep \<open>k \<noteq> []\<close>] obtain old where old: "map_of (rf_Records r) k = Some old"
    "cr_Kind old = kind" "cr_SubjectID old = sid" "cr_Generation old \<noteq> - 1" "g = cr_Generation old + 1"
    and r': "rf_Current r' = rf_Current r"
    "map_of (rf_Records r') = (map_of (rf_Records r))(k \<mapsto> markRevoked now old)"
    "gwf (rf_Records r) \<Longrightarrow> gwf (rf_Records r')"
    and cur: "currentOf r kind sid = [] \<or> currentOf r kind sid = k"
    by metis
  have dead: "cr_RevokedAt a \<noteq> 0"
    if "map_of (rf_Records r) k' = Some a" "cr_Kind a = kind" "cr_SubjectID a = sid" "k' \<noteq> k" for k' a
  proof
    assume "cr_RevokedAt a = 0"
    with reg_inv_live_current [OF inv that(1)] that have "currentOf r kind sid = k'"
      by (simp add: mget0_def)
    with cur that(4) reg_inv_key_nonempty [OF inv that(1)] show False by simp
  qed
  have below: "cr_Generation a < g"
    if "map_of (rf_Records r) k' = Some a" "cr_Kind a = kind" "cr_SubjectID a = sid" for k' a
  proof -
    have "cr_Generation a \<le> cr_Generation old" using latest that old(1) unfolding latestOf_def by blast
    then show ?thesis using gen_succ_less [OF old(4)] old(5) by simp
  qed
  have "gwf (rf_Records r')" using inv r'(3) by (simp add: reg_inv_defs)
  then show ?thesis
    unfolding retired_def using r'(1,2) old dead below now
    by (auto simp: sameSubject_def)
qed

lemma issue_inv:
  assumes inv: "reg_inv r" and sub: "validateSubject kind sid = None" and latest: "latestOf r kind sid k"
    and now: "UnixMilli now \<noteq> 0" and prep: "issuePrepare now kind sid k r = Inr (r', g)"
    and key: "keyIDOf W pub \<noteq> []" "map_of (rf_Records r) (keyIDOf W pub) = None"
  shows "reg_inv (addRecord (issuedRecord W now kind sid g pub) r')"
proof (rule addRecord_inv)
  show "addable r (issuedRecord W now kind sid g pub)"
    using inv sub key by (simp add: addable_def)
  show "retired r r' (issuedRecord W now kind sid g pub)"
  proof (cases "k = []")
    case True
    with prep issuePrepare_fresh have "r' = r" by blast
    with retired_fresh [OF inv] latest True show ?thesis by simp
  next
    case False
    then show ?thesis by (rule retired_successor [OF inv sub latest now prep])
  qed
qed

text \<open>
  \<open>dropped r r' ck k dead\<close>: \<open>r'\<close> is \<open>r\<close> without the current pointer \<open>ck\<close>, which led to
  \<open>k\<close>, whose record is now the revoked \<open>dead\<close>.
\<close>

definition dropped :: "registryFile \<Rightarrow> registryFile \<Rightarrow> string \<Rightarrow> string \<Rightarrow> CredentialRecord \<Rightarrow> bool" where
  "dropped r r' ck k dead \<longleftrightarrow>
     map_of (rf_Current r) ck = Some k \<and> cr_RevokedAt dead \<noteq> 0 \<and>
     (\<exists>rec. map_of (rf_Records r) k = Some rec \<and> sameSubject dead rec \<and> cr_KeyID dead = cr_KeyID rec \<and>
        cr_Generation dead = cr_Generation rec \<and> ck = currentKey (cr_Kind rec) (cr_SubjectID rec)) \<and>
     map_of (rf_Records r') = (map_of (rf_Records r))(k \<mapsto> dead) \<and>
     map_of (rf_Current r') = (map_of (rf_Current r))(ck := None) \<and>
     gwf (rf_Records r') \<and> gwf (rf_Current r')"

lemma revokeNext_dropped:
  assumes inv: "reg_inv r" and sub: "validateSubject kind sid = None" and now: "UnixMilli now \<noteq> 0"
    and nxt: "revokeNext now kind sid expected r = Inr (Some (r', k))"
  obtains dead where "dropped r r' (currentKey kind sid) k dead"
proof -
  have cur: "map_of (rf_Current r) (currentKey kind sid) = Some k"
    using nxt by (auto simp: revokeNext_def Let_def mget0_def split: if_splits option.splits)
  from current_lookup [OF inv sub cur] obtain rec where rec: "map_of (rf_Records r) k = Some rec"
    "cr_Kind rec = kind" "cr_SubjectID rec = sid" "cr_RevokedAt rec = 0" "k \<noteq> []"
    by metis
  have wf: "gwf (rf_Records r)" "gwf (rf_Current r)" using inv by (simp_all add: reg_inv_defs)
  have "r' = r\<lparr>rf_Records := mput k (markRevoked now rec) (rf_Records r),
      rf_Current := mdel (currentKey kind sid) (rf_Current r)\<rparr>"
    using nxt rec cur by (auto simp: revokeNext_def Let_def mget0_def markRevoked_def split: if_splits)
  then have "dropped r r' (currentKey kind sid) k (markRevoked now rec)"
    using cur rec wf now by (simp add: dropped_def sameSubject_def)
  then show ?thesis by (rule that)
qed

lemma dropped_origin:
  assumes "dropped r r' ck k dead" and "map_of (rf_Records r') k' = Some b"
  obtains a where "map_of (rf_Records r) k' = Some a" "sameSubject b a" "cr_KeyID b = cr_KeyID a"
    "cr_Generation b = cr_Generation a" "cr_RevokedAt b = 0 \<Longrightarrow> b = a \<and> k' \<noteq> k"
  using assms unfolding dropped_def by (cases "k' = k") (auto simp: sameSubject_def)

lemma dropped_current:
  assumes inv: "reg_inv r" and drop: "dropped r r' ck k dead" and "map_of (rf_Current r') ck' = Some k'"
  shows "map_of (rf_Current r) ck' = Some k'" and "k' \<noteq> k"
    and "map_of (rf_Records r') k' = map_of (rf_Records r) k'"
proof -
  have ck': "ck' \<noteq> ck" and c: "map_of (rf_Current r) ck' = Some k'"
    using drop assms(3) by (auto simp: dropped_def split: if_splits)
  from inv c obtain a where a: "map_of (rf_Records r) k' = Some a"
    "ck' = currentKey (cr_Kind a) (cr_SubjectID a)"
    unfolding reg_inv_def currentIsLive_def by blast
  show "k' \<noteq> k" using ck' a drop by (auto simp: dropped_def)
  show "map_of (rf_Current r) ck' = Some k'" by (rule c)
  from \<open>k' \<noteq> k\<close> show "map_of (rf_Records r') k' = map_of (rf_Records r) k'"
    using drop by (simp add: dropped_def)
qed

lemma dropped_live_current:
  assumes inv: "reg_inv r" and drop: "dropped r r' ck k dead"
  shows "liveIsCurrent r'"
  unfolding liveIsCurrent_def
proof (intro allI impI)
  fix k' b
  assume b: "map_of (rf_Records r') k' = Some b" and live: "cr_RevokedAt b = 0"
  from dropped_origin [OF drop b] live have a: "map_of (rf_Records r) k' = Some b" and "k' \<noteq> k"
    by metis+
  from reg_inv_live_current [OF inv a live] \<open>k' \<noteq> k\<close> drop
  have "currentKey (cr_Kind b) (cr_SubjectID b) \<noteq> ck" by (auto simp: dropped_def)
  with reg_inv_live_current [OF inv a live] drop
  show "map_of (rf_Current r') (currentKey (cr_Kind b) (cr_SubjectID b)) = Some k'"
    by (simp add: dropped_def)
qed

lemma dropped_generations:
  assumes inv: "reg_inv r" and drop: "dropped r r' ck k dead"
  shows "generationsDistinct r'"
  unfolding generationsDistinct_def
proof (intro allI impI)
  fix k1 k2 r1 r2
  assume k: "map_of (rf_Records r') k1 = Some r1" "map_of (rf_Records r') k2 = Some r2"
    and same: "sameSubject r1 r2" "cr_Generation r1 = cr_Generation r2"
  obtain a where a: "map_of (rf_Records r) k1 = Some a" "sameSubject r1 a" "cr_Generation r1 = cr_Generation a"
    by (rule dropped_origin [OF drop k(1)])
  obtain b where b: "map_of (rf_Records r) k2 = Some b" "sameSubject r2 b" "cr_Generation r2 = cr_Generation b"
    by (rule dropped_origin [OF drop k(2)])
  have "sameSubject a b" "cr_Generation a = cr_Generation b"
    using a b same by (simp_all add: sameSubject_def)
  with a(1) b(1) inv show "k1 = k2" unfolding reg_inv_def generationsDistinct_def by blast
qed

lemma dropped_latest:
  assumes inv: "reg_inv r" and drop: "dropped r r' ck k dead"
  shows "currentIsLatest r'"
  unfolding currentIsLatest_def
proof (intro allI impI)
  fix ck' k1 r1 k2 r2
  assume cur: "map_of (rf_Current r') ck' = Some k1" and k1: "map_of (rf_Records r') k1 = Some r1"
    and k2: "map_of (rf_Records r') k2 = Some r2" and same: "sameSubject r2 r1"
  note old = dropped_current [OF inv drop cur]
  obtain a where a: "map_of (rf_Records r) k2 = Some a" "sameSubject r2 a" "cr_Generation r2 = cr_Generation a"
    by (rule dropped_origin [OF drop k2])
  have "sameSubject a r1" using same a by (simp add: sameSubject_def)
  with old k1 a(1) inv have "cr_Generation a \<le> cr_Generation r1"
    unfolding reg_inv_def currentIsLatest_def by metis
  with a show "cr_Generation r2 \<le> cr_Generation r1" by simp
qed

lemma dropped_inv:
  assumes inv: "reg_inv r" and drop: "dropped r r' ck k dead"
  shows "reg_inv r'"
proof -
  have "recordsFiled r'"
    unfolding recordsFiled_def
  proof (intro conjI allI impI)
    fix k' b
    assume b: "map_of (rf_Records r') k' = Some b"
    obtain a where a: "map_of (rf_Records r) k' = Some a" "sameSubject b a" "cr_KeyID b = cr_KeyID a"
      by (rule dropped_origin [OF drop b])
    show "cr_KeyID b = k'" "k' \<noteq> []" "validateSubject (cr_Kind b) (cr_SubjectID b) = None"
      using reg_inv_keyID [OF inv a(1)] reg_inv_key_nonempty [OF inv a(1)] reg_inv_subject [OF inv a(1)] a
      by (simp_all add: sameSubject_def)
  qed (use drop in \<open>simp_all add: dropped_def\<close>)
  moreover have "currentIsLive r'"
    unfolding currentIsLive_def
    using dropped_current [OF inv drop] inv unfolding reg_inv_def currentIsLive_def by metis
  ultimately show ?thesis
    using dropped_live_current [OF inv drop] dropped_generations [OF inv drop] dropped_latest [OF inv drop]
    by (simp add: reg_inv_def)
qed

lemma revoke_inv:
  assumes "reg_inv r" and "validateSubject kind sid = None" and "UnixMilli now \<noteq> 0"
    and "revokeNext now kind sid expected r = Inr (Some (r', k))"
  shows "reg_inv r'"
  by (rule revokeNext_dropped [OF assms]) (rule dropped_inv [OF assms(1)])

end
