(* ===== verification/Access_Authority.thy ===== *)
theory Access_Authority
  imports Access_Registry
begin

text \<open>
  \<^verbatim>\<open>FileAuthority\<close> of \<^verbatim>\<open>internal/access/authority.go\<close>: the registry in memory, the
  published view, the invalidation watchers and the files under the authority root, with every
  operation that reads or changes them. Each operation takes the results of the system calls it
  makes (clock readings, random seed, the error of each file operation) as an argument and
  returns the new state with its result, so that every error path of the source is a branch here.

  The writers run under \<^verbatim>\<open>writeMu\<close> and the swap of \<^verbatim>\<open>publish\<close> is a single critical
  section, so one operation is one step of the model. A watcher that registers while a writer
  publishes is a step before or after the publication.
\<close>

section \<open>Atomic file replacement\<close>

record commit_io =
  cm_mkdir :: "access_error option"
  cm_create :: "access_error option"
  cm_chmod :: "access_error option"
  cm_encode :: "access_error option"
  cm_sync :: "access_error option"
  cm_close :: "access_error option"
  cm_rename :: "access_error option"
  cm_syncdir :: "access_error option"

fun first_error :: "access_error option list \<Rightarrow> access_error option" where
  "first_error [] = None"
| "first_error (None # es) = first_error es"
| "first_error (Some e # es) = Some e"

definition stateFits :: "nat \<Rightarrow> access_error option" where
  "stateFits len = (if len + 1 > maxStateBytes then Some ErrCapacity else None)"

text \<open>The pair (committed, err): committed as soon as the rename has happened.\<close>

definition atomicJSONCommit :: "nat \<Rightarrow> commit_io \<Rightarrow> bool \<times> access_error option" where
  "atomicJSONCommit len io =
     (case first_error [stateFits len, cm_mkdir io, cm_create io, cm_chmod io, cm_encode io,
         cm_sync io, cm_close io, cm_rename io] of
        Some e \<Rightarrow> (False, Some e)
      | None \<Rightarrow> (True, cm_syncdir io))"

lemma not_committed_error: "atomicJSONCommit len io = (False, e) \<Longrightarrow> e \<noteq> None"
  by (auto simp: atomicJSONCommit_def split: option.splits dest: sym)

section \<open>State\<close>

datatype cred_file = CredFile Credential | BadFile

record FileAuthority =
  fa_root :: string
  fa_bootID :: string
  fa_issuer :: issuerCredential
  fa_signer :: "(string \<times> string) option"
  fa_tlsCert :: string
  fa_open :: bool
  fa_registry :: registryFile
  fa_view :: "registryFile option"
  fa_watchers :: "(string, nat list) gomap"
  fa_chans :: nat
  fa_closed :: "nat list"
  fa_diskRegistry :: registryFile
  fa_files :: "(string \<times> string, cred_file) gomap"

definition CredentialDir :: "world \<Rightarrow> FileAuthority \<Rightarrow> SubjectKind \<Rightarrow> string \<Rightarrow> string" where
  "CredentialDir W a kind sid = fa_root a @ ''/credentials/'' @ subjectKey W kind sid"

definition stagedName :: "string \<Rightarrow> string" where
  "stagedName keyID = ''.current.'' @ keyID @ ''.next''"

definition currentName :: string where "currentName = ''current''"

definition putFile :: "string \<Rightarrow> string \<Rightarrow> cred_file \<Rightarrow> FileAuthority \<Rightarrow> FileAuthority" where
  "putFile dir name f a = a\<lparr>fa_files := mput (dir, name) f (fa_files a)\<rparr>"

definition removeFile :: "string \<Rightarrow> string \<Rightarrow> FileAuthority \<Rightarrow> FileAuthority" where
  "removeFile dir name a = a\<lparr>fa_files := mdel (dir, name) (fa_files a)\<rparr>"

definition renameFile :: "string \<Rightarrow> string \<Rightarrow> string \<Rightarrow> FileAuthority \<Rightarrow> FileAuthority" where
  "renameFile dir from to a =
     (case map_of (fa_files a) (dir, from) of
        None \<Rightarrow> a
      | Some f \<Rightarrow> a\<lparr>fa_files := mput (dir, to) f (mdel (dir, from) (fa_files a))\<rparr>)"

section \<open>Watchers and publication\<close>

text \<open>\<^verbatim>\<open>invalidateLocked\<close>: close every channel of the key and forget it.\<close>

definition invalidateLocked :: "string \<Rightarrow> FileAuthority \<Rightarrow> FileAuthority" where
  "invalidateLocked keyID a =
     a\<lparr>fa_closed := mget0 [] (fa_watchers a) keyID @ fa_closed a,
       fa_watchers := mdel keyID (fa_watchers a)\<rparr>"

definition swapRegistry :: "registryFile \<Rightarrow> FileAuthority \<Rightarrow> FileAuthority" where
  "swapRegistry nxt a = a\<lparr>fa_registry := nxt, fa_view := Some nxt\<rparr>"

definition publish :: "registryFile \<Rightarrow> string \<Rightarrow> FileAuthority \<Rightarrow> FileAuthority" where
  "publish nxt invalidated a =
     (let a1 = swapRegistry nxt a in if invalidated \<noteq> [] then invalidateLocked invalidated a1 else a1)"

section \<open>Issuing\<close>

record issue_io =
  io_now :: int
  io_seed :: "access_error + string"
  io_dir :: "access_error option"
  io_stage :: "(access_error \<times> cred_file option) option"
  io_stageSync :: "access_error option"
  io_commit :: commit_io
  io_removed :: bool
  io_rename :: "access_error option"
  io_syncDir :: "access_error option"

definition privOf :: "world \<Rightarrow> string \<Rightarrow> string" where
  "privOf W seed = w_keyFromSeed W seed"

definition pubOf :: "world \<Rightarrow> string \<Rightarrow> string" where
  "pubOf W seed = drop 32 (w_keyFromSeed W seed)"

definition issuedCredential ::
  "world \<Rightarrow> FileAuthority \<Rightarrow> int \<Rightarrow> SubjectKind \<Rightarrow> string \<Rightarrow> 64 word \<Rightarrow> string \<Rightarrow> Credential" where
  "issuedCredential W a now kind sid generation seed =
     \<lparr>cd_Protocol = ProtocolVersion, cd_KeyID = keyIDOf W (pubOf W seed), cd_SubjectID = sid,
      cd_Kind = kind, cd_Generation = generation, cd_PrivateKey = b64_encode (privOf W seed),
      cd_IssuerKeyID = is_KeyID (fa_issuer a), cd_IssuerPublicKey = is_PublicKey (fa_issuer a),
      cd_DaemonCertificate = fa_tlsCert a, cd_NotAfter = UnixMilli (now + credentialLifetime)\<rparr>"

text \<open>\<^verbatim>\<open>_ = os.Remove(staged)\<close>: best effort.\<close>

definition dropStaged :: "issue_io \<Rightarrow> string \<Rightarrow> string \<Rightarrow> FileAuthority \<Rightarrow> FileAuthority" where
  "dropStaged io dir keyID a = (if io_removed io then removeFile dir (stagedName keyID) a else a)"

text \<open>The last part of \<^verbatim>\<open>issueLocked\<close>: commit the registry, publish it, publish the key.\<close>

definition issueCommit ::
  "world \<Rightarrow> issue_io \<Rightarrow> string \<Rightarrow> string \<Rightarrow> string \<Rightarrow> registryFile \<Rightarrow> FileAuthority \<Rightarrow>
   FileAuthority \<times> (access_error + string)" where
  "issueCommit W io dir keyID oldKeyID nxt a =
     (case stateFits (w_registryLen W nxt) of
        Some e \<Rightarrow> (dropStaged io dir keyID a, Inl e)
      | None \<Rightarrow>
          (let (committed, err) = atomicJSONCommit (w_registryLen W nxt) (io_commit io);
               a1 = (if committed then publish nxt oldKeyID (a\<lparr>fa_diskRegistry := nxt\<rparr>) else a)
           in case err of
                Some e \<Rightarrow> (if committed then a1 else dropStaged io dir keyID a1, Inl e)
              | None \<Rightarrow>
                  (case io_rename io of
                     Some e \<Rightarrow> (a1, Inl e)
                   | None \<Rightarrow>
                       (let a2 = renameFile dir (stagedName keyID) currentName a1
                        in case io_syncDir io of Some e \<Rightarrow> (a2, Inl e) | None \<Rightarrow> (a2, Inr dir)))))"

definition issueLocked ::
  "world \<Rightarrow> issue_io \<Rightarrow> FileAuthority \<Rightarrow> SubjectKind \<Rightarrow> string \<Rightarrow> string \<Rightarrow>
   FileAuthority \<times> (access_error + string)" where
  "issueLocked W io a kind sid oldKeyID =
     (case issuePrepare (io_now io) kind sid oldKeyID (fa_registry a) of
        Inl e \<Rightarrow> (a, Inl e)
      | Inr (nxt, generation) \<Rightarrow>
          (case io_seed io of
             Inl e \<Rightarrow> (a, Inl e)
           | Inr seed \<Rightarrow>
               (let keyID = keyIDOf W (pubOf W seed);
                    rec = issuedRecord W (io_now io) kind sid generation (pubOf W seed);
                    cred = issuedCredential W a (io_now io) kind sid generation seed;
                    dir = CredentialDir W a kind sid
                in case io_dir io of
                     Some e \<Rightarrow> (a, Inl e)
                   | None \<Rightarrow>
                       (case io_stage io of
                          Some (e, None) \<Rightarrow> (a, Inl e)
                        | Some (e, Some f) \<Rightarrow> (putFile dir (stagedName keyID) f a, Inl e)
                        | None \<Rightarrow>
                            (let a1 = putFile dir (stagedName keyID) (CredFile cred) a
                             in case io_stageSync io of
                                  Some e \<Rightarrow> (dropStaged io dir keyID a1, Inl e)
                                | None \<Rightarrow> issueCommit W io dir keyID oldKeyID (addRecord rec nxt) a1)))))"

section \<open>Publication of a committed credential\<close>

definition privateKeyMatchesPublic :: "world \<Rightarrow> string \<Rightarrow> string \<Rightarrow> bool" where
  "privateKeyMatchesPublic W priv pub =
     (if length priv \<noteq> 64 \<or> length pub \<noteq> 32 then False
      else (let derived = w_keyFromSeed W (take 32 priv) in priv = derived \<and> pub = drop 32 derived))"

definition validatePublishedCredential ::
  "world \<Rightarrow> FileAuthority \<Rightarrow> CredentialRecord \<Rightarrow> Credential \<Rightarrow> access_error option" where
  "validatePublishedCredential W a rec cred =
     (if cd_Protocol cred \<noteq> ProtocolVersion \<or> cd_KeyID cred \<noteq> cr_KeyID rec \<or>
         cd_SubjectID cred \<noteq> cr_SubjectID rec \<or> cd_Kind cred \<noteq> cr_Kind rec \<or>
         cd_Generation cred \<noteq> cr_Generation rec \<or> cd_NotAfter cred \<noteq> cr_NotAfter rec \<or>
         cd_IssuerKeyID cred \<noteq> is_KeyID (fa_issuer a) \<or>
         cd_IssuerPublicKey cred \<noteq> is_PublicKey (fa_issuer a)
      then Some ErrInvalidCredential
      else (case b64_decode (cr_PublicKey rec) of
          None \<Rightarrow> Some ErrInvalidCredential
        | Some pub \<Rightarrow>
            if length pub \<noteq> 32 \<or> cr_KeyID rec \<noteq> keyIDOf W pub then Some ErrInvalidCredential
            else (case b64_decode (cd_PrivateKey cred) of
                None \<Rightarrow> Some ErrInvalidCredential
              | Some priv \<Rightarrow>
                  if privateKeyMatchesPublic W priv pub then None else Some ErrInvalidCredential)))"

record publish_io =
  pi_readFault :: "string \<Rightarrow> bool"
  pi_update :: "(bool \<times> access_error) option"
  pi_rename :: "access_error option"
  pi_sync :: "access_error option"

text \<open>
  The loop of \<^verbatim>\<open>ensureCredentialPublished\<close> over the two file names; \<open>verr\<close> is
  \<^verbatim>\<open>validationErr\<close>. An unreadable or undecodable file is an error other than "does not exist".
  A failed update of the trust anchor has replaced the file when its flag is set: the rename of
  \<^verbatim>\<open>atomicJSON\<close> happened and the directory sync did not.
\<close>

fun ensurePublished_loop ::
  "world \<Rightarrow> publish_io \<Rightarrow> CredentialRecord \<Rightarrow> string \<Rightarrow> string list \<Rightarrow> access_error option \<Rightarrow>
   FileAuthority \<Rightarrow> FileAuthority \<times> access_error option" where
  "ensurePublished_loop W io rec dir [] verr a =
     (a, Some (case verr of Some e \<Rightarrow> e | None \<Rightarrow> ErrIO ''not published''))"
| "ensurePublished_loop W io rec dir (name # names) verr a =
     (if pi_readFault io name
      then ensurePublished_loop W io rec dir names (Some ErrInvalidCredential) a
      else (case map_of (fa_files a) (dir, name) of
        None \<Rightarrow> ensurePublished_loop W io rec dir names verr a
      | Some BadFile \<Rightarrow> ensurePublished_loop W io rec dir names (Some ErrInvalidCredential) a
      | Some (CredFile cred) \<Rightarrow>
          (case validatePublishedCredential W a rec cred of
             Some e \<Rightarrow> ensurePublished_loop W io rec dir names (Some e) a
           | None \<Rightarrow>
               (let stale = cd_DaemonCertificate cred \<noteq> fa_tlsCert a;
                    a1 = (if stale
                          then putFile dir name (CredFile (cred\<lparr>cd_DaemonCertificate := fa_tlsCert a\<rparr>)) a
                          else a)
                in case (if stale then pi_update io else None) of
                     Some (committed, e) \<Rightarrow> (if committed then a1 else a, Some e)
                   | None \<Rightarrow>
                       if name \<noteq> currentName
                       then (case pi_rename io of
                           Some e \<Rightarrow> (a1, Some e)
                         | None \<Rightarrow> (renameFile dir name currentName a1, pi_sync io))
                       else (a1, None)))))"

definition ensureCredentialPublished ::
  "world \<Rightarrow> publish_io \<Rightarrow> FileAuthority \<Rightarrow> CredentialRecord \<Rightarrow> FileAuthority \<times> access_error option" where
  "ensureCredentialPublished W io a rec =
     ensurePublished_loop W io rec (CredentialDir W a (cr_Kind rec) (cr_SubjectID rec))
       [currentName, stagedName (cr_KeyID rec)] None a"

section \<open>Operations\<close>

definition Current_op ::
  "world \<Rightarrow> int \<Rightarrow> publish_io \<Rightarrow> FileAuthority \<Rightarrow> SubjectKind \<Rightarrow> string \<Rightarrow>
   FileAuthority \<times> (access_error + CredentialRecord)" where
  "Current_op W now io a kind sid =
     (case validateSubject kind sid of
        Some e \<Rightarrow> (a, Inl e)
      | None \<Rightarrow>
          if \<not> fa_open a then (a, Inl ErrAuthorityClosed)
          else (case currentRecord (fa_registry a) now kind sid of
              Inl e \<Rightarrow> (a, Inl e)
            | Inr rec \<Rightarrow>
                (case ensureCredentialPublished W io a rec of
                   (a1, Some e) \<Rightarrow> (a1, Inl e) | (a1, None) \<Rightarrow> (a1, Inr rec))))"

definition ensureLocked ::
  "world \<Rightarrow> int \<Rightarrow> publish_io \<Rightarrow> issue_io \<Rightarrow> FileAuthority \<Rightarrow> SubjectKind \<Rightarrow> string \<Rightarrow>
   FileAuthority \<times> (access_error + string)" where
  "ensureLocked W now pio iio a kind sid =
     (if currentOf (fa_registry a) kind sid = [] then
        (if subjectWasIssued (fa_registry a) kind sid then (a, Inl ErrRevoked)
         else issueLocked W iio a kind sid [])
      else (case currentRecord (fa_registry a) now kind sid of
          Inl e \<Rightarrow> (a, Inl e)
        | Inr rec \<Rightarrow>
            (case ensureCredentialPublished W pio a rec of
               (a1, Some e) \<Rightarrow> (a1, Inl e) | (a1, None) \<Rightarrow> (a1, Inr (CredentialDir W a kind sid)))))"

definition Ensure ::
  "world \<Rightarrow> int \<Rightarrow> publish_io \<Rightarrow> issue_io \<Rightarrow> FileAuthority \<Rightarrow> SubjectKind \<Rightarrow> string \<Rightarrow>
   FileAuthority \<times> (access_error + string)" where
  "Ensure W now pio iio a kind sid =
     (case validateSubject kind sid of
        Some e \<Rightarrow> (a, Inl e)
      | None \<Rightarrow> if \<not> fa_open a then (a, Inl ErrAuthorityClosed) else ensureLocked W now pio iio a kind sid)"

definition LastRevoked ::
  "FileAuthority \<Rightarrow> SubjectKind \<Rightarrow> string \<Rightarrow> access_error + CredentialRecord" where
  "LastRevoked a kind sid =
     (case validateSubject kind sid of
        Some e \<Rightarrow> Inl e
      | None \<Rightarrow>
          if \<not> fa_open a then Inl ErrAuthorityClosed
          else if currentOf (fa_registry a) kind sid \<noteq> [] then Inl ErrGenerationChanged
          else (case lastRecord (fa_registry a) kind sid of
              Inl e \<Rightarrow> Inl e
            | Inr rec \<Rightarrow> if cr_RevokedAt rec = 0 then Inl ErrInvalidCredential else Inr rec))"

definition Regrant ::
  "world \<Rightarrow> issue_io \<Rightarrow> FileAuthority \<Rightarrow> SubjectKind \<Rightarrow> string \<Rightarrow> 64 word \<Rightarrow>
   FileAuthority \<times> (access_error + string)" where
  "Regrant W io a kind sid expectedRevokedGeneration =
     (case validateSubject kind sid of
        Some e \<Rightarrow> (a, Inl e)
      | None \<Rightarrow>
          if expectedRevokedGeneration = 0 then (a, Inl ErrGenerationChanged)
          else if \<not> fa_open a then (a, Inl ErrAuthorityClosed)
          else if currentOf (fa_registry a) kind sid \<noteq> [] then (a, Inl ErrGenerationChanged)
          else (case lastRecord (fa_registry a) kind sid of
              Inl e \<Rightarrow> (a, Inl e)
            | Inr rec \<Rightarrow>
                if cr_RevokedAt rec = 0 \<or> cr_Generation rec \<noteq> expectedRevokedGeneration
                then (a, Inl ErrGenerationChanged)
                else issueLocked W io a kind sid (cr_KeyID rec)))"

definition RenewExpired ::
  "world \<Rightarrow> int \<Rightarrow> issue_io \<Rightarrow> FileAuthority \<Rightarrow> SubjectKind \<Rightarrow> string \<Rightarrow> string \<Rightarrow>
   FileAuthority \<times> (access_error + string)" where
  "RenewExpired W now io a kind sid expectedKeyID =
     (case validateSubject kind sid of
        Some e \<Rightarrow> (a, Inl e)
      | None \<Rightarrow>
          if expectedKeyID = [] then (a, Inl ErrGenerationChanged)
          else if \<not> fa_open a then (a, Inl ErrAuthorityClosed)
          else (let keyID = currentOf (fa_registry a) kind sid
            in if keyID = [] then
                 (a, Inl (if subjectWasIssued (fa_registry a) kind sid then ErrRevoked else ErrNotProvisioned))
               else if keyID \<noteq> expectedKeyID then (a, Inl ErrGenerationChanged)
               else (case map_of (rf_Records (fa_registry a)) keyID of
                   None \<Rightarrow> (a, Inl ErrInvalidCredential)
                 | Some rec \<Rightarrow>
                     if cr_KeyID rec \<noteq> keyID \<or> cr_Kind rec \<noteq> kind \<or> cr_SubjectID rec \<noteq> sid
                     then (a, Inl ErrInvalidCredential)
                     else if cr_RevokedAt rec \<noteq> 0 then (a, Inl ErrRevoked)
                     else if UnixMilli now < cr_NotAfter rec then (a, Inl ErrGenerationChanged)
                     else issueLocked W io a kind sid (cr_KeyID rec))))"

definition Rotate ::
  "world \<Rightarrow> int \<Rightarrow> issue_io \<Rightarrow> FileAuthority \<Rightarrow> SubjectKind \<Rightarrow> string \<Rightarrow>
   FileAuthority \<times> (access_error + string)" where
  "Rotate W now io a kind sid =
     (case validateSubject kind sid of
        Some e \<Rightarrow> (a, Inl e)
      | None \<Rightarrow>
          if \<not> fa_open a then (a, Inl ErrAuthorityClosed)
          else (case currentRecord (fa_registry a) now kind sid of
              Inl e \<Rightarrow> (a, Inl e) | Inr rec \<Rightarrow> issueLocked W io a kind sid (cr_KeyID rec)))"

definition revokeLocked ::
  "world \<Rightarrow> int \<Rightarrow> commit_io \<Rightarrow> FileAuthority \<Rightarrow> SubjectKind \<Rightarrow> string \<Rightarrow> string \<Rightarrow>
   FileAuthority \<times> access_error option" where
  "revokeLocked W now io a kind sid expectedKeyID =
     (case revokeNext now kind sid expectedKeyID (fa_registry a) of
        Inl e \<Rightarrow> (a, Some e)
      | Inr None \<Rightarrow> (a, None)
      | Inr (Some (nxt, keyID)) \<Rightarrow>
          (let (committed, err) = atomicJSONCommit (w_registryLen W nxt) io
           in (if committed then publish nxt keyID (a\<lparr>fa_diskRegistry := nxt\<rparr>) else a, err)))"

definition Revoke ::
  "world \<Rightarrow> int \<Rightarrow> commit_io \<Rightarrow> FileAuthority \<Rightarrow> SubjectKind \<Rightarrow> string \<Rightarrow>
   FileAuthority \<times> access_error option" where
  "Revoke W now io a kind sid =
     (case validateSubject kind sid of
        Some e \<Rightarrow> (a, Some e)
      | None \<Rightarrow>
          if \<not> fa_open a then (a, Some ErrAuthorityClosed) else revokeLocked W now io a kind sid [])"

definition RevokeCurrent ::
  "world \<Rightarrow> int \<Rightarrow> commit_io \<Rightarrow> FileAuthority \<Rightarrow> Principal \<Rightarrow> FileAuthority \<times> access_error option" where
  "RevokeCurrent W now io a p =
     (case validateSubject (p_Kind p) (p_SubjectID p) of
        Some e \<Rightarrow> (a, Some e)
      | None \<Rightarrow>
          if \<not> fa_open a then (a, Some ErrAuthorityClosed)
          else (let keyID = currentOf (fa_registry a) (p_Kind p) (p_SubjectID p)
            in if keyID = [] \<or> keyID \<noteq> p_KeyID p then (a, Some ErrGenerationChanged)
               else (case map_of (rf_Records (fa_registry a)) keyID of
                   None \<Rightarrow> (a, Some ErrGenerationChanged)
                 | Some rec \<Rightarrow>
                     if cr_Generation rec \<noteq> p_Generation p \<or> cr_Kind rec \<noteq> p_Kind p \<or>
                        cr_SubjectID rec \<noteq> p_SubjectID p
                     then (a, Some ErrGenerationChanged)
                     else revokeLocked W now io a (p_Kind p) (p_SubjectID p) keyID)))"

definition Valid :: "int \<Rightarrow> FileAuthority \<Rightarrow> Principal \<Rightarrow> access_error option" where
  "Valid now a p =
     (case fa_view a of None \<Rightarrow> Some ErrAuthorityClosed | Some view \<Rightarrow> validIn view now p)"

definition HasCurrent :: "FileAuthority \<Rightarrow> SubjectKind \<Rightarrow> string \<Rightarrow> bool" where
  "HasCurrent a kind sid =
     (case fa_view a of None \<Rightarrow> False | Some view \<Rightarrow> currentOf view kind sid \<noteq> [])"

text \<open>\<open>fn\<close> is the effect admitted under the lease, \<open>ctxErr\<close> what \<^verbatim>\<open>ctx.Err\<close> returns.\<close>

definition WithValid ::
  "int \<Rightarrow> access_error option \<Rightarrow> FileAuthority \<Rightarrow> Principal \<Rightarrow> ('s \<Rightarrow> 's \<times> access_error option) \<Rightarrow> 's \<Rightarrow>
   's \<times> access_error option" where
  "WithValid now ctxErr a p fn s =
     (case ctxErr of
        Some e \<Rightarrow> (s, Some e)
      | None \<Rightarrow>
          if \<not> fa_open a then (s, Some ErrAuthorityClosed)
          else (case validIn (fa_registry a) now p of Some e \<Rightarrow> (s, Some e) | None \<Rightarrow> fn s))"

definition WatchInvalidation ::
  "int \<Rightarrow> FileAuthority \<Rightarrow> Principal \<Rightarrow> FileAuthority \<times> (access_error + nat)" where
  "WatchInvalidation now a p =
     (case fa_view a of
        None \<Rightarrow> (a, Inl ErrAuthorityClosed)
      | Some view \<Rightarrow>
          (case validIn view now p of
             Some e \<Rightarrow> (a, Inl e)
           | None \<Rightarrow>
               (let ch = fa_chans a
                in (a\<lparr>fa_chans := Suc ch,
                     fa_watchers := mput (p_KeyID p) (ch # mget0 [] (fa_watchers a) (p_KeyID p)) (fa_watchers a)\<rparr>,
                    Inr ch))))"

definition cancelWatch :: "string \<Rightarrow> nat \<Rightarrow> FileAuthority \<Rightarrow> FileAuthority" where
  "cancelWatch keyID ch a =
     (case map_of (fa_watchers a) keyID of
        None \<Rightarrow> a
      | Some ws \<Rightarrow>
          (let ws' = removeAll ch ws
           in a\<lparr>fa_watchers := (if ws' = [] then mdel keyID (fa_watchers a) else mput keyID ws' (fa_watchers a))\<rparr>))"

definition Close_op :: "FileAuthority \<Rightarrow> FileAuthority" where
  "Close_op a =
     (if \<not> fa_open a then a
      else (let a1 = a\<lparr>fa_signer := None, fa_view := None\<rparr>;
                a2 = foldl (\<lambda>b keyID. invalidateLocked keyID b) a1 (map fst (fa_watchers a1))
            in a2\<lparr>fa_open := False\<rparr>))"

definition IssuerKeyID :: "FileAuthority \<Rightarrow> string" where
  "IssuerKeyID a = (case fa_signer a of None \<Rightarrow> [] | Some (keyID, key) \<Rightarrow> keyID)"

definition SignIssuer :: "world \<Rightarrow> FileAuthority \<Rightarrow> string \<Rightarrow> access_error + string" where
  "SignIssuer W a msg =
     (case fa_signer a of None \<Rightarrow> Inl ErrAuthorityClosed | Some (keyID, key) \<Rightarrow> Inr (w_sign W key msg))"

section \<open>What one operation can change\<close>

text \<open>\<open>sameCore a a'\<close>: nothing but credential files differs.\<close>

definition sameCore :: "FileAuthority \<Rightarrow> FileAuthority \<Rightarrow> bool" where
  "sameCore a a' \<longleftrightarrow> a' = a\<lparr>fa_files := fa_files a'\<rparr>"

lemma sameCore_refl [simp]: "sameCore a a"
  by (simp add: sameCore_def)

lemma sameCore_trans: "sameCore a b \<Longrightarrow> sameCore b c \<Longrightarrow> sameCore a c"
  unfolding sameCore_def by (cases a, cases b, cases c) auto

lemma sameCore_files [simp]:
  "sameCore a (putFile d n f a)" "sameCore a (removeFile d n a)" "sameCore a (renameFile d n m a)"
  "sameCore a (dropStaged io d k a)"
  by (simp_all add: sameCore_def putFile_def removeFile_def renameFile_def dropStaged_def split: option.splits)

lemma sameCore_fields:
  assumes "sameCore a a'"
  shows "fa_registry a' = fa_registry a" "fa_view a' = fa_view a" "fa_open a' = fa_open a"
    "fa_watchers a' = fa_watchers a" "fa_closed a' = fa_closed a" "fa_chans a' = fa_chans a"
    "fa_diskRegistry a' = fa_diskRegistry a" "fa_root a' = fa_root a" "fa_issuer a' = fa_issuer a"
    "fa_tlsCert a' = fa_tlsCert a" "fa_signer a' = fa_signer a" "fa_bootID a' = fa_bootID a"
  using assms unfolding sameCore_def by (metis FileAuthority.select_convs FileAuthority.surjective
    FileAuthority.update_convs(13))+

lemma ensurePublished_core:
  "ensurePublished_loop W io rec dir names verr a = (a', e) \<Longrightarrow> sameCore a a'"
  by (induction names arbitrary: verr)
    (auto simp: Let_def sameCore_def putFile_def renameFile_def
      split: option.splits cred_file.splits if_splits)

lemma ensureCredentialPublished_core:
  "ensureCredentialPublished W io a rec = (a', e) \<Longrightarrow> sameCore a a'"
  unfolding ensureCredentialPublished_def by (rule ensurePublished_core)

definition committedTo :: "registryFile \<Rightarrow> string \<Rightarrow> FileAuthority \<Rightarrow> FileAuthority" where
  "committedTo nxt invalidated a = publish nxt invalidated (a\<lparr>fa_diskRegistry := nxt\<rparr>)"

text \<open>
  Issuing either fails with everything but credential files unchanged, or commits and publishes
  exactly one registry, whatever fails afterwards.
\<close>

lemma issueCommit_outcome:
  assumes "issueCommit W io dir keyID old nxt a = (a', res)"
  shows "sameCore a a' \<and> (\<exists>e. res = Inl e) \<or> sameCore (committedTo nxt old a) a'"
proof -
  obtain committed err where c: "atomicJSONCommit (w_registryLen W nxt) (io_commit io) = (committed, err)"
    by (cases "atomicJSONCommit (w_registryLen W nxt) (io_commit io)")
  show ?thesis
  proof (cases committed)
    case False
    with not_committed_error [of "w_registryLen W nxt" "io_commit io"] c obtain e where "err = Some e" by auto
    with False assms c show ?thesis
      by (auto simp: issueCommit_def split: option.splits)
  next
    case True
    with assms c show ?thesis
      by (auto simp: issueCommit_def committedTo_def Let_def split: option.splits)
  qed
qed

lemma issueLocked_outcome:
  assumes "issueLocked W io a kind sid old = (a', res)"
  shows "sameCore a a' \<and> (\<exists>e. res = Inl e) \<or>
    (\<exists>nxt g seed. issuePrepare (io_now io) kind sid old (fa_registry a) = Inr (nxt, g) \<and> io_seed io = Inr seed \<and>
       sameCore (committedTo (addRecord (issuedRecord W (io_now io) kind sid g (pubOf W seed)) nxt) old a) a')"
proof (cases "issuePrepare (io_now io) kind sid old (fa_registry a)")
  case (Inl e)
  with assms show ?thesis by (auto simp: issueLocked_def)
next
  case (Inr p)
  obtain nxt g where p: "p = (nxt, g)" by (cases p)
  show ?thesis
  proof (cases "io_seed io")
    case (Inl e)
    with Inr p assms have "a' = a" "res = Inl e" by (simp_all add: issueLocked_def)
    then show ?thesis by simp
  next
    case seed: (Inr seed)
    let ?key = "keyIDOf W (pubOf W seed)" and ?dir = "CredentialDir W a kind sid"
    let ?nxt = "addRecord (issuedRecord W (io_now io) kind sid g (pubOf W seed)) nxt"
    let ?a1 = "putFile ?dir (stagedName ?key)
        (CredFile (issuedCredential W a (io_now io) kind sid g seed)) a"
    have core: "sameCore a ?a1" by simp
    have comm: "sameCore (committedTo ?nxt old a) (committedTo ?nxt old ?a1)"
      by (simp add: sameCore_def committedTo_def publish_def swapRegistry_def invalidateLocked_def putFile_def Let_def)
    from assms Inr p seed have "sameCore a a' \<and> (\<exists>e. res = Inl e) \<or>
        issueCommit W io ?dir ?key old ?nxt ?a1 = (a', res)"
      using sameCore_trans [OF core sameCore_files(4)]
      by (auto simp: issueLocked_def Let_def split: option.splits)
    with issueCommit_outcome [of W io ?dir ?key old ?nxt ?a1 a' res] Inr p seed show ?thesis
      using sameCore_trans [OF core] sameCore_trans [OF comm] by blast
  qed
qed

lemma revokeLocked_outcome:
  assumes "revokeLocked W now io a kind sid expected = (a', res)"
  shows "a' = a \<and> (res \<noteq> None \<or> revokeNext now kind sid expected (fa_registry a) = Inr None) \<or>
    (\<exists>nxt k. revokeNext now kind sid expected (fa_registry a) = Inr (Some (nxt, k)) \<and> a' = committedTo nxt k a)"
  using assms not_committed_error
  by (auto simp: revokeLocked_def committedTo_def Let_def
      split: sum.splits option.splits prod.splits if_splits)

section \<open>The authority invariant\<close>

definition liveKey :: "registryFile \<Rightarrow> string \<Rightarrow> bool" where
  "liveKey r k \<longleftrightarrow> (case map_of (rf_Records r) k of None \<Rightarrow> False | Some rec \<Rightarrow> cr_RevokedAt rec = 0)"

text \<open>
  Memory and disk hold the same well-formed registry, which is the published view until the
  authority is closed, and a channel is still registered only for a live key of an open authority.
\<close>

definition auth_inv :: "FileAuthority \<Rightarrow> bool" where
  "auth_inv a \<longleftrightarrow> reg_inv (fa_registry a) \<and> fa_diskRegistry a = fa_registry a \<and>
     fa_view a = (if fa_open a then Some (fa_registry a) else None) \<and> gwf (fa_watchers a) \<and>
     (\<forall>k ws. map_of (fa_watchers a) k = Some ws \<longrightarrow>
        ws \<noteq> [] \<and> fa_open a \<and> liveKey (fa_registry a) k)"

lemma auth_inv_sameCore: "auth_inv a \<Longrightarrow> sameCore a a' \<Longrightarrow> auth_inv a'"
  by (simp add: auth_inv_def sameCore_fields)

lemma auth_invD:
  assumes "auth_inv a"
  shows "reg_inv (fa_registry a)" "fa_diskRegistry a = fa_registry a"
    "fa_view a = (if fa_open a then Some (fa_registry a) else None)"
  using assms by (simp_all add: auth_inv_def)

text \<open>A channel belongs to one key, and is either registered or closed.\<close>

abbreviation chansOf :: "FileAuthority \<Rightarrow> string \<Rightarrow> nat set" where
  "chansOf a k \<equiv> set (mget0 [] (fa_watchers a) k)"

definition channelsApart :: "FileAuthority \<Rightarrow> bool" where
  "channelsApart a \<longleftrightarrow> set (fa_closed a) \<subseteq> {..<fa_chans a} \<and>
     (\<forall>k. chansOf a k \<subseteq> {..<fa_chans a} \<and> chansOf a k \<inter> set (fa_closed a) = {}) \<and>
     (\<forall>k1 k2. k1 \<noteq> k2 \<longrightarrow> chansOf a k1 \<inter> chansOf a k2 = {})"

lemma committedTo_simps [simp]:
  "fa_registry (committedTo nxt k a) = nxt" "fa_diskRegistry (committedTo nxt k a) = nxt"
  "fa_view (committedTo nxt k a) = Some nxt" "fa_open (committedTo nxt k a) = fa_open a"
  "fa_chans (committedTo nxt k a) = fa_chans a"
  "fa_watchers (committedTo nxt k a) = (if k = [] then fa_watchers a else mdel k (fa_watchers a))"
  "fa_closed (committedTo nxt k a) =
     (if k = [] then fa_closed a else mget0 [] (fa_watchers a) k @ fa_closed a)"
  "fa_files (committedTo nxt k a) = fa_files a" "fa_root (committedTo nxt k a) = fa_root a"
  "fa_issuer (committedTo nxt k a) = fa_issuer a" "fa_tlsCert (committedTo nxt k a) = fa_tlsCert a"
  by (simp_all add: committedTo_def publish_def swapRegistry_def invalidateLocked_def Let_def)

lemma committedTo_inv:
  assumes inv: "auth_inv a" and "fa_open a" and nxt: "reg_inv nxt"
    and kept: "\<And>k'. liveKey (fa_registry a) k' \<Longrightarrow> k' = k \<and> k \<noteq> [] \<or> liveKey nxt k'"
  shows "auth_inv (committedTo nxt k a)"
proof -
  have "ws \<noteq> [] \<and> liveKey nxt k'" if "map_of (fa_watchers (committedTo nxt k a)) k' = Some ws" for k' ws
  proof -
    from that have "map_of (fa_watchers a) k' = Some ws" "k = [] \<or> k' \<noteq> k"
      by (auto split: if_splits)
    with inv kept [of k'] show ?thesis by (auto simp: auth_inv_def)
  qed
  then show ?thesis
    using inv nxt \<open>fa_open a\<close> by (simp add: auth_inv_def)
qed

lemma committedTo_apart: "channelsApart a \<Longrightarrow> channelsApart (committedTo nxt k a)"
  unfolding channelsApart_def by (simp split: if_splits) blast

definition ready :: "FileAuthority \<Rightarrow> bool" where
  "ready a \<longleftrightarrow> auth_inv a \<and> channelsApart a"

lemma ready_sameCore: "ready a \<Longrightarrow> sameCore a a' \<Longrightarrow> ready a'"
  using auth_inv_sameCore by (auto simp: ready_def channelsApart_def sameCore_fields)

lemma ready_reg_inv: "ready a \<Longrightarrow> reg_inv (fa_registry a)"
  by (simp add: ready_def auth_inv_def)

text \<open>What a caller provides when an operation may issue: a running clock and a new key.\<close>

definition freshIssue :: "world \<Rightarrow> FileAuthority \<Rightarrow> issue_io \<Rightarrow> bool" where
  "freshIssue W a io \<longleftrightarrow> UnixMilli (io_now io) \<noteq> 0 \<and>
     (\<forall>seed. io_seed io = Inr seed \<longrightarrow>
        keyIDOf W (pubOf W seed) \<noteq> [] \<and> map_of (rf_Records (fa_registry a)) (keyIDOf W (pubOf W seed)) = None)"

text \<open>Issuing leaves every live key live except the one it replaces.\<close>

lemma issue_live_kept:
  assumes inv: "reg_inv r" and prep: "issuePrepare now kind sid k r = Inr (r', g)"
    and fresh: "map_of (rf_Records r) (cr_KeyID new) = None" and live: "liveKey r k'"
  shows "k' = k \<and> k \<noteq> [] \<or> liveKey (addRecord new r') k'"
proof (cases "k = []")
  case True
  with issuePrepare_fresh prep have "r' = r" by blast
  with live fresh show ?thesis by (auto simp: liveKey_def split: option.splits)
next
  case False
  from issuePrepare_succ [OF prep False] obtain old
    where "map_of (rf_Records r') = (map_of (rf_Records r))(k \<mapsto> markRevoked now old)"
    by metis
  with live fresh False show ?thesis by (auto simp: liveKey_def split: option.splits)
qed

lemma issueLocked_ready:
  assumes rd: "ready a" and op: "fa_open a" and sub: "validateSubject kind sid = None"
    and latest: "latestOf (fa_registry a) kind sid k" and fresh: "freshIssue W a io"
    and run: "issueLocked W io a kind sid k = (a', res)"
  shows "ready a'"
  using issueLocked_outcome [OF run]
proof (elim disjE exE conjE)
  assume "sameCore a a'"
  then show ?thesis by (rule ready_sameCore [OF rd])
next
  fix nxt g seed
  let ?new = "issuedRecord W (io_now io) kind sid g (pubOf W seed)"
  assume prep: "issuePrepare (io_now io) kind sid k (fa_registry a) = Inr (nxt, g)" and seed: "io_seed io = Inr seed"
    and core: "sameCore (committedTo (addRecord ?new nxt) k a) a'"
  have key: "keyIDOf W (pubOf W seed) \<noteq> []" "map_of (rf_Records (fa_registry a)) (keyIDOf W (pubOf W seed)) = None"
    "UnixMilli (io_now io) \<noteq> 0"
    using fresh seed by (auto simp: freshIssue_def)
  have "reg_inv (addRecord ?new nxt)"
    by (rule issue_inv [OF ready_reg_inv [OF rd] sub latest key(3) prep key(1,2)])
  moreover have "k' = k \<and> k \<noteq> [] \<or> liveKey (addRecord ?new nxt) k'" if "liveKey (fa_registry a) k'" for k'
    by (rule issue_live_kept [OF ready_reg_inv [OF rd] prep _ that]) (simp add: key)
  ultimately have "ready (committedTo (addRecord ?new nxt) k a)"
    using committedTo_inv [OF _ op, of "addRecord ?new nxt" k] committedTo_apart rd by (simp add: ready_def)
  then show ?thesis using core by (rule ready_sameCore)
qed

lemma revokeLocked_ready:
  assumes rd: "ready a" and op: "fa_open a" and sub: "validateSubject kind sid = None"
    and now: "UnixMilli now \<noteq> 0" and run: "revokeLocked W now io a kind sid expected = (a', res)"
  shows "ready a'"
  using revokeLocked_outcome [OF run]
proof (elim disjE exE conjE)
  fix nxt k
  assume nxt: "revokeNext now kind sid expected (fa_registry a) = Inr (Some (nxt, k))"
    and a': "a' = committedTo nxt k a"
  note inv = ready_reg_inv [OF rd]
  obtain dead where drop: "dropped (fa_registry a) nxt (currentKey kind sid) k dead"
    by (rule revokeNext_dropped [OF inv sub now nxt])
  have "k \<noteq> []"
    using drop reg_inv_key_nonempty [OF inv] by (auto simp: dropped_def)
  with drop have "k' = k \<and> k \<noteq> [] \<or> liveKey nxt k'" if "liveKey (fa_registry a) k'" for k'
    using that by (auto simp: dropped_def liveKey_def split: option.splits)
  with committedTo_inv [OF _ op revoke_inv [OF inv sub now nxt], of k] committedTo_apart rd a' show ?thesis
    by (simp add: ready_def)
qed (use rd in simp_all)

section \<open>Every operation keeps the invariant\<close>

lemma latestOf_unissued:
  assumes "reg_inv r" and "\<not> subjectWasIssued r kind sid"
  shows "latestOf r kind sid []"
proof -
  have "gwf (rf_Records r)" using assms(1) by (simp add: reg_inv_defs)
  with assms(2) show ?thesis by (auto simp: subjectWasIssued_iff latestOf_def)
qed

lemma latestOf_current:
  assumes inv: "reg_inv r" and sub: "validateSubject kind sid = None" and "currentOf r kind sid = k" and "k \<noteq> []"
  shows "latestOf r kind sid k"
proof -
  from assms(3,4) have cur: "map_of (rf_Current r) (currentKey kind sid) = Some k"
    using mget0_neq by fastforce
  obtain rec where "map_of (rf_Records r) k = Some rec" "cr_Kind rec = kind" "cr_SubjectID rec = sid"
    by (rule current_lookup [OF inv sub cur])
  with inv cur \<open>k \<noteq> []\<close> show ?thesis
    unfolding latestOf_def reg_inv_def currentIsLatest_def sameSubject_def by (metis option.inject)
qed

lemma latestOf_last:
  assumes inv: "reg_inv r" and last: "lastRecord r kind sid = Inr rec"
  shows "latestOf r kind sid (cr_KeyID rec)"
  using lastRecord_Inr [OF inv last] reg_inv_key_nonempty [OF inv]
  unfolding latestOf_def by (metis option.inject)

lemma currentRecord_Inr:
  assumes "currentRecord r now kind sid = Inr rec"
  shows "currentOf r kind sid = cr_KeyID rec" "currentOf r kind sid \<noteq> []"
    "map_of (rf_Records r) (cr_KeyID rec) = Some rec" "cr_Kind rec = kind" "cr_SubjectID rec = sid"
    "cr_RevokedAt rec = 0" "UnixMilli now < cr_NotAfter rec"
  using assms by (auto simp: currentRecord_def Let_def split: if_splits option.splits)

datatype auth_op =
    OpEnsure int publish_io issue_io SubjectKind string
  | OpCurrent int publish_io SubjectKind string
  | OpRegrant issue_io SubjectKind string "64 word"
  | OpRenewExpired int issue_io SubjectKind string string
  | OpRotate int issue_io SubjectKind string
  | OpRevoke int commit_io SubjectKind string
  | OpRevokeCurrent int commit_io Principal
  | OpWatch int Principal
  | OpCancel string nat
  | OpClose

fun applyOp :: "world \<Rightarrow> FileAuthority \<Rightarrow> auth_op \<Rightarrow> FileAuthority" where
  "applyOp W a (OpEnsure now pio iio kind sid) = fst (Ensure W now pio iio a kind sid)"
| "applyOp W a (OpCurrent now pio kind sid) = fst (Current_op W now pio a kind sid)"
| "applyOp W a (OpRegrant io kind sid g) = fst (Regrant W io a kind sid g)"
| "applyOp W a (OpRenewExpired now io kind sid k) = fst (RenewExpired W now io a kind sid k)"
| "applyOp W a (OpRotate now io kind sid) = fst (Rotate W now io a kind sid)"
| "applyOp W a (OpRevoke now io kind sid) = fst (Revoke W now io a kind sid)"
| "applyOp W a (OpRevokeCurrent now io p) = fst (RevokeCurrent W now io a p)"
| "applyOp W a (OpWatch now p) = fst (WatchInvalidation now a p)"
| "applyOp W a (OpCancel k ch) = cancelWatch k ch a"
| "applyOp W a OpClose = Close_op a"

fun opFits :: "world \<Rightarrow> FileAuthority \<Rightarrow> auth_op \<Rightarrow> bool" where
  "opFits W a (OpEnsure now pio iio kind sid) = freshIssue W a iio"
| "opFits W a (OpRegrant io kind sid g) = freshIssue W a io"
| "opFits W a (OpRenewExpired now io kind sid k) = freshIssue W a io"
| "opFits W a (OpRotate now io kind sid) = freshIssue W a io"
| "opFits W a (OpRevoke now io kind sid) = (UnixMilli now \<noteq> 0)"
| "opFits W a (OpRevokeCurrent now io p) = (UnixMilli now \<noteq> 0)"
| "opFits W a _ = True"

lemma Ensure_ready:
  assumes rd: "ready a" and fresh: "freshIssue W a iio"
  shows "ready (fst (Ensure W now pio iio a kind sid))"
proof -
  have pub: "ready b" if "ensureCredentialPublished W pio a rec = (b, e)" for rec b e
    using ready_sameCore [OF rd ensureCredentialPublished_core [OF that]] .
  have iss: "ready (fst (issueLocked W iio a kind sid []))"
    if "fa_open a" "validateSubject kind sid = None" "\<not> subjectWasIssued (fa_registry a) kind sid"
    using issueLocked_ready [OF rd that(1,2) latestOf_unissued [OF ready_reg_inv [OF rd] that(3)] fresh]
    by (metis prod.collapse)
  show ?thesis
    using rd pub iss
    by (auto simp: Ensure_def ensureLocked_def split: option.splits sum.splits prod.splits)
qed

lemma Current_ready:
  assumes rd: "ready a"
  shows "ready (fst (Current_op W now pio a kind sid))"
proof -
  have "ready b" if "ensureCredentialPublished W pio a rec = (b, e)" for rec b e
    using ready_sameCore [OF rd ensureCredentialPublished_core [OF that]] .
  then show ?thesis
    using rd by (auto simp: Current_op_def split: option.splits sum.splits prod.splits)
qed

lemma issue_successor_ready:
  assumes "ready a" and "freshIssue W a io" and "fa_open a" and "validateSubject kind sid = None"
    and "latestOf (fa_registry a) kind sid k"
  shows "ready (fst (issueLocked W io a kind sid k))"
  using issueLocked_ready [OF assms(1,3,4,5,2)] by (metis prod.collapse)

lemma Rotate_ready:
  assumes rd: "ready a" and "freshIssue W a io"
  shows "ready (fst (Rotate W now io a kind sid))"
proof -
  have "latestOf (fa_registry a) kind sid (cr_KeyID rec)"
    if "validateSubject kind sid = None" "currentRecord (fa_registry a) now kind sid = Inr rec" for rec
    using latestOf_current [OF ready_reg_inv [OF rd] that(1)] currentRecord_Inr [OF that(2)] by simp
  then show ?thesis
    using rd issue_successor_ready [OF rd assms(2)]
    by (auto simp: Rotate_def split: option.splits sum.splits)
qed

lemma RenewExpired_ready:
  assumes rd: "ready a" and "freshIssue W a io"
  shows "ready (fst (RenewExpired W now io a kind sid k))"
proof -
  have "latestOf (fa_registry a) kind sid k"
    if "validateSubject kind sid = None" "currentOf (fa_registry a) kind sid = k" "k \<noteq> []"
    using latestOf_current [OF ready_reg_inv [OF rd] that] .
  then show ?thesis
    using rd issue_successor_ready [OF rd assms(2)]
    by (auto simp: RenewExpired_def Let_def split: option.splits)
qed

lemma Regrant_ready:
  assumes rd: "ready a" and "freshIssue W a io"
  shows "ready (fst (Regrant W io a kind sid g))"
  using rd issue_successor_ready [OF rd assms(2)] latestOf_last [OF ready_reg_inv [OF rd]]
  by (auto simp: Regrant_def split: option.splits sum.splits)

lemma Revoke_ready:
  assumes rd: "ready a" and "UnixMilli now \<noteq> 0"
  shows "ready (fst (Revoke W now io a kind sid))"
  using rd revokeLocked_ready [OF rd _ _ assms(2)]
  by (auto simp: Revoke_def split: option.splits) (metis prod.collapse)

lemma RevokeCurrent_ready:
  assumes rd: "ready a" and "UnixMilli now \<noteq> 0"
  shows "ready (fst (RevokeCurrent W now io a p))"
  using rd revokeLocked_ready [OF rd _ _ assms(2)]
  by (auto simp: RevokeCurrent_def Let_def split: option.splits) (metis prod.collapse)

lemma Watch_registers:
  assumes inv: "auth_inv a" and run: "WatchInvalidation now a p = (a', Inr ch)"
  shows "fa_open a" "validIn (fa_registry a) now p = None" "ch = fa_chans a"
    "a' = a\<lparr>fa_chans := Suc (fa_chans a),
       fa_watchers := mput (p_KeyID p) (ch # mget0 [] (fa_watchers a) (p_KeyID p)) (fa_watchers a)\<rparr>"
  using assms
  by (auto simp: WatchInvalidation_def Let_def auth_inv_def split: option.splits if_splits)

lemma Watch_ready:
  assumes rd: "ready a"
  shows "ready (fst (WatchInvalidation now a p))"
proof (cases "WatchInvalidation now a p")
  case (Pair a' res)
  show ?thesis
  proof (cases res)
    case (Inl e)
    with Pair rd show ?thesis
      by (auto simp: WatchInvalidation_def Let_def split: option.splits)
  next
    case (Inr ch)
    have inv: "auth_inv a" "channelsApart a" and reg: "reg_inv (fa_registry a)"
      using rd by (auto simp: ready_def auth_inv_def)
    note w = Watch_registers [OF inv(1) Pair [unfolded Inr]]
    have "liveKey (fa_registry a) (p_KeyID p)"
      using w(2) validIn_None_iff [OF reg] by (auto simp: liveKey_def)
    then have "auth_inv a'"
      using inv(1) w(1,4) by (auto simp: auth_inv_def)
    moreover have "channelsApart a'"
      using inv(2) w(3,4) unfolding channelsApart_def by (auto simp: lessThan_Suc)
    ultimately show ?thesis using Pair by (simp add: ready_def)
  qed
qed

lemma channelsApart_mono:
  assumes "channelsApart a" and "fa_closed b = fa_closed a" and "fa_chans b = fa_chans a"
    and sub: "\<And>k. chansOf b k \<subseteq> chansOf a k"
  shows "channelsApart b"
proof -
  have "chansOf b k \<subseteq> {..<fa_chans a} \<and> chansOf b k \<inter> set (fa_closed a) = {}" for k
    using assms(1) sub [of k] unfolding channelsApart_def by blast
  moreover have "chansOf b k1 \<inter> chansOf b k2 = {}" if "k1 \<noteq> k2" for k1 k2
  proof -
    have "chansOf a k1 \<inter> chansOf a k2 = {}" using assms(1) that by (simp add: channelsApart_def)
    then show ?thesis using sub [of k1] sub [of k2] by blast
  qed
  ultimately show ?thesis using assms(1-3) by (simp add: channelsApart_def)
qed

lemma cancel_ready:
  assumes rd: "ready a"
  shows "ready (cancelWatch k ch a)"
proof (cases "map_of (fa_watchers a) k")
  case None
  with rd show ?thesis by (simp add: cancelWatch_def)
next
  case (Some ws)
  have sub: "chansOf (cancelWatch k ch a) k' \<subseteq> chansOf a k'" for k'
    using Some by (auto simp: cancelWatch_def Let_def mget0_def)
  have "auth_inv (cancelWatch k ch a)"
    using rd Some by (auto simp: ready_def auth_inv_def cancelWatch_def Let_def split: if_splits)
  moreover have "channelsApart (cancelWatch k ch a)"
  proof (rule channelsApart_mono)
    show "channelsApart a" using rd by (simp add: ready_def)
    show "fa_closed (cancelWatch k ch a) = fa_closed a" "fa_chans (cancelWatch k ch a) = fa_chans a"
      using Some by (simp_all add: cancelWatch_def Let_def)
  qed (rule sub)
  ultimately show ?thesis by (simp add: ready_def)
qed

lemma invalidate_fold:
  fixes a ks
  defines "b \<equiv> foldl (\<lambda>b k. invalidateLocked k b) a ks"
  shows "fa_registry b = fa_registry a" "fa_diskRegistry b = fa_diskRegistry a" "fa_view b = fa_view a"
    "fa_chans b = fa_chans a" "fa_watchers b = fold mdel ks (fa_watchers a)"
    "set (fa_closed b) = set (fa_closed a) \<union> (\<Union>k \<in> set ks. chansOf a k)"
  unfolding b_def
  by (induction ks arbitrary: a) (auto simp: invalidateLocked_def split: if_splits)

lemma fold_mdel: "fold mdel ks m = filter (\<lambda>e. fst e \<notin> set ks) m"
  by (induction ks arbitrary: m) (auto simp: AList.delete_eq intro!: filter_cong)

lemma Close_watchers: "fold mdel (map fst m) m = []"
  by (auto simp: fold_mdel filter_empty_conv)

lemma Close_ready: "ready a \<Longrightarrow> ready (Close_op a)"
proof (cases "fa_open a")
  case True
  assume "ready a"
  with True show ?thesis
    unfolding ready_def auth_inv_def channelsApart_def Close_op_def
    by (simp add: Let_def invalidate_fold Close_watchers) blast
qed (simp add: Close_op_def)

lemma applyOp_ready: "ready a \<Longrightarrow> opFits W a oper \<Longrightarrow> ready (applyOp W a oper)"
  by (cases oper) (simp_all add: Ensure_ready Current_ready Regrant_ready RenewExpired_ready Rotate_ready
    Revoke_ready RevokeCurrent_ready Watch_ready cancel_ready Close_ready)

interpretation authority: kept_by_ops "opFits W" "applyOp W" ready for W
  by unfold_locales (rule applyOp_ready)

end
