(* ===== verification/Access_Authority_Props.thy ===== *)
theory Access_Authority_Props
  imports Access_Authority
begin

text \<open>
  What the credential authority promises its callers, over any sequence of operations and any
  outcome of their system calls: one valid generation per subject, revoked keys that never come
  back, watchers that are closed exactly when their key is, rotations that fail closed, and
  recovery of a committed credential whose publication was interrupted.
\<close>

section \<open>How the registry moves\<close>

definition deadKey :: "registryFile \<Rightarrow> string \<Rightarrow> bool" where
  "deadKey r k \<longleftrightarrow> (case map_of (rf_Records r) k of None \<Rightarrow> False | Some rec \<Rightarrow> cr_RevokedAt rec \<noteq> 0)"

lemma deadKey_not_live: "deadKey r k \<Longrightarrow> \<not> liveKey r k"
  by (auto simp: deadKey_def liveKey_def split: option.splits)

text \<open>
  \<open>advances r nxt k\<close>: moving from \<open>r\<close> to \<open>nxt\<close> retires \<open>k\<close> (when there is one) and no
  other live key, and revives none.
\<close>

definition advances :: "registryFile \<Rightarrow> registryFile \<Rightarrow> string \<Rightarrow> bool" where
  "advances r nxt k \<longleftrightarrow>
     (\<forall>k'. liveKey r k' \<longrightarrow> k' = k \<and> k \<noteq> [] \<or> liveKey nxt k') \<and>
     (\<forall>k'. deadKey r k' \<longrightarrow> deadKey nxt k') \<and> (k \<noteq> [] \<longrightarrow> deadKey nxt k)"

lemma issue_advances:
  assumes inv: "reg_inv r" and prep: "issuePrepare now kind sid k r = Inr (r', g)"
    and now: "UnixMilli now \<noteq> 0" and fresh: "map_of (rf_Records r) (cr_KeyID new) = None"
  shows "advances r (addRecord new r') k"
proof -
  have "deadKey (addRecord new r') k'" if "deadKey r k'" for k'
  proof (cases "k = []")
    case True
    with issuePrepare_fresh prep have "r' = r" by blast
    with that fresh show ?thesis by (auto simp: deadKey_def split: option.splits)
  next
    case False
    from issuePrepare_succ [OF prep False] obtain old
      where "map_of (rf_Records r') = (map_of (rf_Records r))(k \<mapsto> markRevoked now old)"
      by metis
    with that fresh now show ?thesis by (auto simp: deadKey_def split: option.splits)
  qed
  moreover have "deadKey (addRecord new r') k" if "k \<noteq> []"
  proof -
    from issuePrepare_succ [OF prep that] obtain old
      where "map_of (rf_Records r) k = Some old"
        "map_of (rf_Records r') = (map_of (rf_Records r))(k \<mapsto> markRevoked now old)"
      by metis
    with fresh now show ?thesis by (auto simp: deadKey_def split: option.splits)
  qed
  ultimately show ?thesis
    using issue_live_kept [OF inv prep fresh] unfolding advances_def by blast
qed

lemma revoke_advances:
  assumes inv: "reg_inv r" and sub: "validateSubject kind sid = None" and now: "UnixMilli now \<noteq> 0"
    and nxt: "revokeNext now kind sid expected r = Inr (Some (nxt, k))"
  shows "advances r nxt k"
proof -
  obtain dead where drop: "dropped r nxt (currentKey kind sid) k dead"
    by (rule revokeNext_dropped [OF inv sub now nxt])
  have "k \<noteq> []" using drop reg_inv_key_nonempty [OF inv] by (auto simp: dropped_def)
  with drop show ?thesis
    by (auto simp: advances_def dropped_def liveKey_def deadKey_def split: option.splits)
qed

text \<open>Every operation but the cancellation of a watch is one of four kinds of step.\<close>

inductive auth_step :: "FileAuthority \<Rightarrow> FileAuthority \<Rightarrow> bool" where
  files: "sameCore a b \<Longrightarrow> auth_step a b"
| commit: "fa_open a \<Longrightarrow> advances (fa_registry a) nxt k \<Longrightarrow> sameCore (committedTo nxt k a) b \<Longrightarrow> auth_step a b"
| watch: "WatchInvalidation now a p = (b, Inr ch) \<Longrightarrow> auth_step a b"
| close: "auth_step a (Close_op a)"

lemma issueLocked_step:
  assumes "ready a" and "fa_open a" and "freshIssue W a io"
  shows "auth_step a (fst (issueLocked W io a kind sid k))"
proof -
  obtain a' res where run: "issueLocked W io a kind sid k = (a', res)" by force
  from issueLocked_outcome [OF run] have "auth_step a a'"
  proof (elim disjE exE conjE)
    assume "sameCore a a'"
    then show ?thesis by (rule files)
  next
    fix nxt g seed
    assume prep: "issuePrepare (io_now io) kind sid k (fa_registry a) = Inr (nxt, g)" and seed: "io_seed io = Inr seed"
      and core: "sameCore (committedTo (addRecord (issuedRecord W (io_now io) kind sid g (pubOf W seed)) nxt) k a) a'"
    have "advances (fa_registry a) (addRecord (issuedRecord W (io_now io) kind sid g (pubOf W seed)) nxt) k"
      using assms(3) seed
      by (intro issue_advances [OF ready_reg_inv [OF assms(1)] prep]) (auto simp: freshIssue_def)
    then show ?thesis using core by (rule commit [OF assms(2)])
  qed
  with run show ?thesis by simp
qed

lemma revokeLocked_step:
  assumes "ready a" and "fa_open a" and "UnixMilli now \<noteq> 0" and "validateSubject kind sid = None"
  shows "auth_step a (fst (revokeLocked W now io a kind sid k))"
proof -
  obtain a' res where run: "revokeLocked W now io a kind sid k = (a', res)" by force
  from revokeLocked_outcome [OF run] have "auth_step a a'"
    using revoke_advances [OF ready_reg_inv [OF assms(1)] assms(4,3)] commit [OF assms(2)] files
    by (metis sameCore_refl)
  with run show ?thesis by simp
qed

lemma ensure_step: "ensureCredentialPublished W io a rec = (b, e) \<Longrightarrow> auth_step a b"
  by (rule files) (rule ensureCredentialPublished_core)

lemma applyOp_step:
  assumes rd: "ready a" and fits: "opFits W a oper" and "\<And>k ch. oper \<noteq> OpCancel k ch"
  shows "auth_step a (applyOp W a oper)"
proof -
  have stay: "auth_step a a" by (rule files) simp
  show ?thesis
  proof (cases oper)
    case (OpEnsure now pio iio kind sid)
    with fits issueLocked_step [OF rd, of W iio] show ?thesis
      by (auto simp: Ensure_def ensureLocked_def stay intro: ensure_step split: option.splits sum.splits prod.splits)
  next
    case (OpCurrent now pio kind sid)
    then show ?thesis
      by (auto simp: Current_op_def stay intro: ensure_step split: option.splits sum.splits prod.splits)
  next
    case (OpRegrant io kind sid g)
    with fits issueLocked_step [OF rd, of W io] show ?thesis
      by (auto simp: Regrant_def stay split: option.splits sum.splits)
  next
    case (OpRenewExpired now io kind sid k)
    with fits issueLocked_step [OF rd, of W io] show ?thesis
      by (auto simp: RenewExpired_def Let_def stay split: option.splits)
  next
    case (OpRotate now io kind sid)
    with fits issueLocked_step [OF rd, of W io] show ?thesis
      by (auto simp: Rotate_def stay split: option.splits sum.splits)
  next
    case (OpRevoke now io kind sid)
    with fits revokeLocked_step [OF rd] show ?thesis
      by (auto simp: Revoke_def stay split: option.splits)
  next
    case (OpRevokeCurrent now io p)
    with fits revokeLocked_step [OF rd] show ?thesis
      by (auto simp: RevokeCurrent_def Let_def stay split: option.splits)
  next
    case (OpWatch now p)
    then show ?thesis
      using watch [of now a p "applyOp W a oper"] stay
      by (cases "WatchInvalidation now a p"; cases "snd (WatchInvalidation now a p)")
        (auto simp: WatchInvalidation_def Let_def split: option.splits)
  qed (simp_all add: assms(3) auth_step.close)
qed

section \<open>Validity\<close>

lemma Valid_open: "auth_inv a \<Longrightarrow> fa_open a \<Longrightarrow> Valid t a p = validIn (fa_registry a) t p"
  by (simp add: Valid_def auth_inv_def)

lemma Valid_None:
  assumes "ready a" and "Valid t a p = None"
  shows "fa_open a" "validIn (fa_registry a) t p = None" "liveKey (fa_registry a) (p_KeyID p)"
proof -
  from assms show op: "fa_open a" and v: "validIn (fa_registry a) t p = None"
    by (auto simp: ready_def auth_inv_def Valid_def split: if_splits)
  from v validIn_None_iff [OF ready_reg_inv [OF assms(1)]] show "liveKey (fa_registry a) (p_KeyID p)"
    by (auto simp: liveKey_def)
qed

lemma not_live_not_valid: "ready a \<Longrightarrow> \<not> liveKey (fa_registry a) (p_KeyID p) \<Longrightarrow> Valid t a p \<noteq> None"
  using Valid_None(3) by blast

lemma Close_registry: "fa_registry (Close_op a) = fa_registry a"
  by (simp add: Close_op_def Let_def invalidate_fold)

lemma deadKey_step:
  assumes "auth_step a b" and "deadKey (fa_registry a) k"
  shows "deadKey (fa_registry b) k"
  using assms
proof cases
  case (watch now p ch)
  with assms(2) show ?thesis
    by (auto simp: WatchInvalidation_def Let_def split: option.splits)
qed (use assms(2) in \<open>auto simp: sameCore_fields advances_def Close_registry\<close>)

text \<open>Keys that are revoked, in a state that keeps the invariant.\<close>

lemma deadKey_apply:
  assumes "ready a" and "deadKey (fa_registry a) k" and "opFits W a oper"
  shows "deadKey (fa_registry (applyOp W a oper)) k"
proof (cases "\<exists>k' ch'. oper = OpCancel k' ch'")
  case True
  with assms(2) show ?thesis by (auto simp: cancelWatch_def Let_def split: option.splits)
next
  case False
  with applyOp_step [OF assms(1,3)] deadKey_step [OF _ assms(2)] show ?thesis by blast
qed

interpretation dead: kept_by_ops "opFits W" "applyOp W" "\<lambda>a. ready a \<and> deadKey (fa_registry a) k" for W k
  by unfold_locales (blast intro: applyOp_ready deadKey_apply)

section \<open>Watchers\<close>

text \<open>The channel is registered for its key, or closed after the key died or the authority closed.\<close>

definition watched :: "string \<Rightarrow> nat \<Rightarrow> FileAuthority \<Rightarrow> bool" where
  "watched k ch a \<longleftrightarrow> ch \<in> chansOf a k \<or>
     ch \<in> set (fa_closed a) \<and> (\<not> fa_open a \<or> deadKey (fa_registry a) k)"

lemma chansOf_live:
  assumes "ready a" and "ch \<in> chansOf a k"
  shows "fa_open a" "liveKey (fa_registry a) k" "ch \<notin> set (fa_closed a)"
proof -
  from assms(2) obtain ws where "map_of (fa_watchers a) k = Some ws"
    by (cases "map_of (fa_watchers a) k") (auto simp: mget0_def)
  with assms(1) show "fa_open a" "liveKey (fa_registry a) k"
    unfolding ready_def auth_inv_def by blast+
  from assms show "ch \<notin> set (fa_closed a)"
    unfolding ready_def channelsApart_def by blast
qed

lemma watched_iff:
  assumes "ready a" and "watched k ch a"
  shows "ch \<in> set (fa_closed a) \<longleftrightarrow> \<not> fa_open a \<or> \<not> liveKey (fa_registry a) k"
  using assms chansOf_live [OF assms(1)] deadKey_not_live unfolding watched_def by blast

lemma Close_fields:
  assumes "fa_open a"
  shows "\<not> fa_open (Close_op a)"
    "set (fa_closed (Close_op a)) = set (fa_closed a) \<union> (\<Union>k \<in> fst ` set (fa_watchers a). chansOf a k)"
  using assms by (simp_all add: Close_op_def Let_def invalidate_fold)

lemma Close_closes: "fa_open a \<Longrightarrow> ch \<in> chansOf a k \<Longrightarrow> ch \<in> set (fa_closed (Close_op a))"
  by (cases "map_of (fa_watchers a) k")
    (auto simp: Close_fields mget0_def intro: map_of_SomeD intro!: disjI2 bexI [of _ "(k, the (map_of (fa_watchers a) k))"])

lemma watched_close: "watched k ch a \<Longrightarrow> watched k ch (Close_op a)"
  using Close_closes [of a ch k] Close_fields [of a]
  by (cases "fa_open a") (auto simp: watched_def Close_registry Close_op_def [of a])

lemma watched_commit:
  assumes "advances (fa_registry a) nxt k'" and "watched k ch a" and "k \<noteq> []"
  shows "watched k ch (committedTo nxt k' a)"
  using assms by (cases "k = k'") (auto simp: watched_def advances_def)

lemma cancel_fields [simp]:
  "fa_registry (cancelWatch k ch a) = fa_registry a" "fa_closed (cancelWatch k ch a) = fa_closed a"
  "fa_open (cancelWatch k ch a) = fa_open a"
  by (simp_all add: cancelWatch_def Let_def split: option.splits)

lemma cancel_chans: "chansOf (cancelWatch k' ch' a) k = (if k' = k then chansOf a k - {ch'} else chansOf a k)"
proof (cases "map_of (fa_watchers a) k'")
  case None
  then show ?thesis by (auto simp: cancelWatch_def mget0_def)
next
  case (Some ws)
  have "set ws - {ch'} = {}" if "removeAll ch' ws = []"
    using arg_cong [OF that, of set] by simp
  with Some show ?thesis
    by (cases "removeAll ch' ws = []") (auto simp: cancelWatch_def Let_def mget0_def)
qed

lemma watched_cancel:
  assumes "watched k ch a" and "(k', ch') \<noteq> (k, ch)"
  shows "watched k ch (cancelWatch k' ch' a)"
  using assms by (simp add: watched_def cancel_chans split: if_splits) blast

lemma watched_sameCore: "watched k ch a \<Longrightarrow> sameCore a b \<Longrightarrow> watched k ch b"
  by (simp add: watched_def sameCore_fields)

lemma watched_watch:
  assumes "watched k ch a" and "WatchInvalidation now a p = (b, res)"
  shows "watched k ch b"
  using assms by (auto simp: watched_def WatchInvalidation_def Let_def split: option.splits if_splits)

fun cancels :: "string \<Rightarrow> nat \<Rightarrow> auth_op \<Rightarrow> bool" where
  "cancels k ch (OpCancel k' ch') = (k' = k \<and> ch' = ch)"
| "cancels k ch _ = False"

lemma watched_apply:
  assumes "ready a" and "watched k ch a" and "k \<noteq> []" and "opFits W a oper" and "\<not> cancels k ch oper"
  shows "watched k ch (applyOp W a oper)"
proof (cases "\<exists>k' ch'. oper = OpCancel k' ch'")
  case True
  with assms(2,5) watched_cancel show ?thesis by auto
next
  case False
  with applyOp_step [OF assms(1,4)] have "auth_step a (applyOp W a oper)" by blast
  then show ?thesis
  proof cases
    case files
    then show ?thesis by (rule watched_sameCore [OF assms(2)])
  next
    case (commit nxt k')
    show ?thesis by (rule watched_sameCore [OF watched_commit [OF commit(2) assms(2,3)] commit(3)])
  next
    case (watch now p c)
    then show ?thesis by (rule watched_watch [OF assms(2)])
  next
    case close
    then show ?thesis using watched_close [OF assms(2)] by simp
  qed
qed

section \<open>What a successful issue leaves behind\<close>

text \<open>
  Documented behaviour of \<^verbatim>\<open>ed25519.NewKeyFromSeed\<close>: a private key is 64 bytes, the seed
  followed by the public key.
\<close>

definition keyLaws :: "world \<Rightarrow> bool" where
  "keyLaws W \<longleftrightarrow> (\<forall>seed. length seed = 32 \<longrightarrow>
     length (w_keyFromSeed W seed) = 64 \<and> take 32 (w_keyFromSeed W seed) = seed)"

lemma issued_validates:
  assumes "keyLaws W" and "length seed = 32" and "fa_issuer b = fa_issuer a"
  shows "validatePublishedCredential W b (issuedRecord W now kind sid g (pubOf W seed))
           (issuedCredential W a now kind sid g seed) = None"
  using assms
  by (simp add: validatePublishedCredential_def issuedCredential_def issuedRecord_def b64_decode_encode
      privateKeyMatchesPublic_def keyLaws_def pubOf_def privOf_def)

lemma staged_not_current [simp]: "stagedName k \<noteq> currentName" "currentName \<noteq> stagedName k"
  by (simp_all add: stagedName_def currentName_def)

text \<open>The issued credential is in one of the two files a reader looks at.\<close>

definition credAt :: "FileAuthority \<Rightarrow> string \<Rightarrow> string \<Rightarrow> Credential \<Rightarrow> bool" where
  "credAt a dir keyID cred \<longleftrightarrow>
     map_of (fa_files a) (dir, currentName) = Some (CredFile cred) \<or>
     map_of (fa_files a) (dir, stagedName keyID) = Some (CredFile cred)"

lemma issueCommit_files:
  assumes "issueCommit W io dir keyID old nxt a = (a', res)" and "fa_registry a' \<noteq> fa_registry a"
    and "map_of (fa_files a) (dir, stagedName keyID) = Some (CredFile cred)"
  shows "credAt a' dir keyID cred"
  using assms
  by (auto simp: issueCommit_def credAt_def renameFile_def Let_def publish_def swapRegistry_def
      invalidateLocked_def dropStaged_def removeFile_def split: option.splits prod.splits if_splits)

lemma issueCommit_Inr:
  assumes "issueCommit W io dir keyID old nxt a = (a', Inr d)"
    and "map_of (fa_files a) (dir, stagedName keyID) = Some (CredFile cred)"
  shows "d = dir" "map_of (fa_files a') (dir, currentName) = Some (CredFile cred)" "fa_registry a' = nxt"
  using assms not_committed_error [of "w_registryLen W nxt" "io_commit io"]
  by (auto simp: issueCommit_def renameFile_def Let_def publish_def swapRegistry_def
      invalidateLocked_def split: option.splits prod.splits if_splits)

lemma issueLocked_Inr:
  assumes "issueLocked W io a kind sid k = (a', Inr d)"
  obtains nxt g seed where "issuePrepare (io_now io) kind sid k (fa_registry a) = Inr (nxt, g)"
    "io_seed io = Inr seed" "d = CredentialDir W a kind sid"
    "fa_registry a' = addRecord (issuedRecord W (io_now io) kind sid g (pubOf W seed)) nxt"
    "map_of (fa_files a') (d, currentName) = Some (CredFile (issuedCredential W a (io_now io) kind sid g seed))"
proof -
  from assms obtain nxt g seed where p: "issuePrepare (io_now io) kind sid k (fa_registry a) = Inr (nxt, g)"
    and s: "io_seed io = Inr seed"
    by (auto simp: issueLocked_def split: sum.splits)
  let ?dir = "CredentialDir W a kind sid" and ?key = "keyIDOf W (pubOf W seed)"
  let ?cred = "issuedCredential W a (io_now io) kind sid g seed"
  have run: "issueCommit W io ?dir ?key k (addRecord (issuedRecord W (io_now io) kind sid g (pubOf W seed)) nxt)
      (putFile ?dir (stagedName ?key) (CredFile ?cred) a) = (a', Inr d)"
    using assms p s by (auto simp: issueLocked_def Let_def split: option.splits)
  have "map_of (fa_files (putFile ?dir (stagedName ?key) (CredFile ?cred) a)) (?dir, stagedName ?key) = Some (CredFile ?cred)"
    by (simp add: putFile_def)
  from issueCommit_Inr [OF run this] show ?thesis by (intro that [OF p s]) auto
qed

lemma issueLocked_committed:
  assumes "issueLocked W io a kind sid k = (a', res)" and "fa_registry a' \<noteq> fa_registry a"
  obtains nxt g seed where "issuePrepare (io_now io) kind sid k (fa_registry a) = Inr (nxt, g)"
    "io_seed io = Inr seed"
    "sameCore (committedTo (addRecord (issuedRecord W (io_now io) kind sid g (pubOf W seed)) nxt) k a) a'"
    "credAt a' (CredentialDir W a kind sid) (keyIDOf W (pubOf W seed))
       (issuedCredential W a (io_now io) kind sid g seed)"
proof -
  from assms obtain nxt g seed where p: "issuePrepare (io_now io) kind sid k (fa_registry a) = Inr (nxt, g)"
    and s: "io_seed io = Inr seed"
    by (auto simp: issueLocked_def split: sum.splits)
  let ?dir = "CredentialDir W a kind sid" and ?key = "keyIDOf W (pubOf W seed)"
  let ?cred = "issuedCredential W a (io_now io) kind sid g seed"
  let ?a1 = "putFile ?dir (stagedName ?key) (CredFile ?cred) a"
  have run: "issueCommit W io ?dir ?key k (addRecord (issuedRecord W (io_now io) kind sid g (pubOf W seed)) nxt)
      ?a1 = (a', res)"
    using assms p s
    by (auto simp: issueLocked_def Let_def putFile_def dropStaged_def removeFile_def split: option.splits if_splits)
  have "credAt a' ?dir ?key ?cred"
    by (rule issueCommit_files [OF run]) (use assms(2) in \<open>simp_all add: putFile_def\<close>)
  moreover from issueLocked_outcome [OF assms(1)] assms(2) p s
  have "sameCore (committedTo (addRecord (issuedRecord W (io_now io) kind sid g (pubOf W seed)) nxt) k a) a'"
    by (auto simp: sameCore_fields)
  ultimately show ?thesis by (rule that [OF p s, rotated])
qed

section \<open>Recovering a publication\<close>

definition noFaults :: "publish_io \<Rightarrow> bool" where
  "noFaults io \<longleftrightarrow> (\<forall>name. \<not> pi_readFault io name) \<and> pi_update io = None \<and> pi_rename io = None \<and> pi_sync io = None"

definition publishedFor :: "world \<Rightarrow> FileAuthority \<Rightarrow> CredentialRecord \<Rightarrow> bool" where
  "publishedFor W a rec \<longleftrightarrow>
     (\<exists>cred. map_of (fa_files a) (CredentialDir W a (cr_Kind rec) (cr_SubjectID rec), currentName) = Some (CredFile cred) \<and>
        validatePublishedCredential W a rec cred = None \<and> cd_DaemonCertificate cred = fa_tlsCert a)"

lemma validate_other_files [simp]:
  "validatePublishedCredential W (a\<lparr>fa_files := fs\<rparr>) rec cred = validatePublishedCredential W a rec cred"
  "validatePublishedCredential W a rec (cred\<lparr>cd_DaemonCertificate := c\<rparr>) = validatePublishedCredential W a rec cred"
  "CredentialDir W (a\<lparr>fa_files := fs\<rparr>) kind sid = CredentialDir W a kind sid"
  by (simp_all add: validatePublishedCredential_def CredentialDir_def split: option.split)

lemma ensure_recovers:
  assumes "noFaults io" and "validatePublishedCredential W a rec cred = None"
    and at: "credAt a (CredentialDir W a (cr_Kind rec) (cr_SubjectID rec)) (cr_KeyID rec) cred"
  shows "\<exists>b. ensureCredentialPublished W io a rec = (b, None) \<and> publishedFor W b rec"
proof -
  let ?dir = "CredentialDir W a (cr_Kind rec) (cr_SubjectID rec)"
  have staged: "\<exists>b. ensurePublished_loop W io rec ?dir [stagedName (cr_KeyID rec)] verr a = (b, None) \<and> publishedFor W b rec"
    if "map_of (fa_files a) (?dir, stagedName (cr_KeyID rec)) = Some (CredFile cred)" for verr
    using that assms(1,2) by (auto simp: noFaults_def Let_def putFile_def renameFile_def publishedFor_def)
  show ?thesis
  proof (cases "\<exists>c. map_of (fa_files a) (?dir, currentName) = Some (CredFile c) \<and> validatePublishedCredential W a rec c = None")
    case True
    with assms(1) show ?thesis
      by (auto simp: ensureCredentialPublished_def noFaults_def Let_def putFile_def publishedFor_def)
  next
    case False
    with at assms(2) have st: "map_of (fa_files a) (?dir, stagedName (cr_KeyID rec)) = Some (CredFile cred)"
      by (auto simp: credAt_def)
    from False assms(1) have "\<exists>verr. ensureCredentialPublished W io a rec =
        ensurePublished_loop W io rec ?dir [stagedName (cr_KeyID rec)] verr a"
      by (auto simp: ensureCredentialPublished_def noFaults_def simp del: ensurePublished_loop.simps(1)
          split: option.split cred_file.split)
    with staged [OF st] show ?thesis by metis
  qed
qed

section \<open>A concrete authority\<close>

text \<open>An instance of \<open>world\<close> and of the system call results, to run the operations on.\<close>

definition sampleWorld :: world where
  "sampleWorld = \<lparr>w_sha256 = (\<lambda>m. m), w_keyFromSeed = (\<lambda>s. s @ s), w_sign = (\<lambda>k m. drop 32 k @ m),
     w_verify = (\<lambda>pub m s. s = pub @ m), w_registryLen = (\<lambda>r. 100)\<rparr>"

definition okCommit :: commit_io where
  "okCommit = \<lparr>cm_mkdir = None, cm_create = None, cm_chmod = None, cm_encode = None, cm_sync = None,
     cm_close = None, cm_rename = None, cm_syncdir = None\<rparr>"

definition okIssue :: "char \<Rightarrow> issue_io" where
  "okIssue c = \<lparr>io_now = 5000000, io_seed = Inr (replicate 32 c), io_dir = None, io_stage = None,
     io_stageSync = None, io_commit = okCommit, io_removed = True, io_rename = None, io_syncDir = None\<rparr>"

definition okPublish :: publish_io where
  "okPublish = \<lparr>pi_readFault = (\<lambda>_. False), pi_update = None, pi_rename = None, pi_sync = None\<rparr>"

definition sampleStart :: FileAuthority where
  "sampleStart = \<lparr>fa_root = ''/r'', fa_bootID = ''b'', fa_issuer = \<lparr>is_KeyID = ''i'', is_PublicKey = ''p'', is_PrivateKey = ''k''\<rparr>,
     fa_signer = Some (''i'', ''k''), fa_tlsCert = ''c'', fa_open = True, fa_registry = emptyRegistry,
     fa_view = Some emptyRegistry, fa_watchers = [], fa_chans = 0, fa_closed = [],
     fa_diskRegistry = emptyRegistry, fa_files = []\<rparr>"

lemma sampleStart_ready: "ready sampleStart"
  by (simp add: sampleStart_def ready_def auth_inv_def channelsApart_def reg_inv_empty)

lemma sampleKey [simp]: "keyIDOf sampleWorld (pubOf sampleWorld (replicate 32 c)) = hex_encode (replicate 16 c)"
  by (simp add: keyIDOf_def pubOf_def sampleWorld_def)

lemma sampleKey_nonempty [simp]: "hex_encode (replicate 16 c) \<noteq> []"
  using length_hex_encode [of "replicate 16 c"] by (metis length_replicate list.size(3) mult_eq_0_iff zero_neq_numeral)

lemma sampleKey_inject [simp]: "replicate 16 c = replicate 16 d \<longleftrightarrow> c = d"
  by (simp add: replicate_eq_replicate)

lemma sampleTrim: "TrimSpace ''s'' = ''s''"
  by (simp add: TrimSpace_def space_seqs_def strip1_def Let_def)

lemma sampleSubject [simp]: "validateSubject SubjectSession ''s'' = None"
  by (simp add: validateSubject_def sampleTrim)

lemma sampleLen [simp]: "w_registryLen sampleWorld r = 100"
  by (simp add: sampleWorld_def)

lemma sampleFresh: "freshIssue sampleWorld a (okIssue c) \<longleftrightarrow>
    map_of (rf_Records (fa_registry a)) (hex_encode (replicate 16 c)) = None"
  by (auto simp: freshIssue_def okIssue_def UnixMilli_def)

lemmas sample_run = Ensure_def ensureLocked_def Rotate_def Regrant_def Revoke_def issueLocked_def
  issueCommit_def issuePrepare_def Let_def okIssue_def okCommit_def atomicJSONCommit_def stateFits_def
  maxStateBytes_def subjectWasIssued_def currentRecord_def revokeLocked_def revokeNext_def

definition sampleIssued :: FileAuthority where
  "sampleIssued = fst (Ensure sampleWorld 1 okPublish (okIssue CHR ''a'') sampleStart SubjectSession ''s'')"

definition sampleRecord :: CredentialRecord where
  "sampleRecord = issuedRecord sampleWorld 5000000 SubjectSession ''s'' 1 (pubOf sampleWorld (replicate 32 CHR ''a''))"

definition sampleRegistry :: registryFile where
  "sampleRegistry = addRecord sampleRecord emptyRegistry"

lemma sampleIssued_fields:
  "fa_registry sampleIssued = sampleRegistry" "fa_open sampleIssued"
  "snd (Ensure sampleWorld 1 okPublish (okIssue CHR ''a'') sampleStart SubjectSession ''s'') = Inr (CredentialDir sampleWorld sampleStart SubjectSession ''s'')"
  by (simp_all add: sampleIssued_def sample_run sampleStart_def emptyRegistry_def
     publish_def swapRegistry_def putFile_def renameFile_def sampleRegistry_def sampleRecord_def)

lemma sampleIssued_ready: "ready sampleIssued"
  unfolding sampleIssued_def
  by (rule Ensure_ready [OF sampleStart_ready]) (simp add: sampleFresh sampleStart_def emptyRegistry_def)

definition samplePrincipal :: Principal where
  "samplePrincipal = \<lparr>p_KeyID = hex_encode (replicate 16 CHR ''a''), p_SubjectID = ''s'', p_Kind = SubjectSession, p_Generation = 1\<rparr>"

lemma samplePrincipal_valid: "Valid 6000000 sampleIssued samplePrincipal = None"
  by (simp add: Valid_open [OF _ sampleIssued_fields(2)] sampleIssued_ready [unfolded ready_def]
      sampleIssued_fields validIn_def samplePrincipal_def sampleRegistry_def sampleRecord_def
      issuedRecord_def addRecord_def UnixMilli_def credentialLifetime_def)

text \<open>The same subject after a rotation.\<close>

definition sampleRotated :: FileAuthority where
  "sampleRotated = fst (Rotate sampleWorld 6000000 (okIssue CHR ''b'') sampleIssued SubjectSession ''s'')"

definition sampleNext :: registryFile where
  "sampleNext = addRecord (issuedRecord sampleWorld 5000000 SubjectSession ''s'' 2 (pubOf sampleWorld (replicate 32 CHR ''b'')))
     (sampleRegistry\<lparr>rf_Records := [(hex_encode (replicate 16 CHR ''a''), sampleRecord\<lparr>cr_RevokedAt := 5\<rparr>)]\<rparr>)"

lemma sampleRecord_fields [simp]:
  "cr_KeyID sampleRecord = hex_encode (replicate 16 CHR ''a'')" "cr_Kind sampleRecord = SubjectSession"
  "cr_SubjectID sampleRecord = ''s''" "cr_Generation sampleRecord = 1" "cr_RevokedAt sampleRecord = 0"
  "cr_NotAfter sampleRecord = 2592000005"
  by (simp_all add: sampleRecord_def UnixMilli_def credentialLifetime_def issuedRecord_def)

lemma sampleRegistry_fields [simp]:
  "rf_Records sampleRegistry = [(hex_encode (replicate 16 CHR ''a''), sampleRecord)]"
  "rf_Current sampleRegistry = [(currentKey SubjectSession ''s'', hex_encode (replicate 16 CHR ''a''))]"
  by (simp_all add: sampleRegistry_def addRecord_def emptyRegistry_def)

lemma sampleRotated_fields:
  "fa_registry sampleRotated = sampleNext" "fa_open sampleRotated"
  "snd (Rotate sampleWorld 6000000 (okIssue CHR ''b'') sampleIssued SubjectSession ''s'') =
     Inr (CredentialDir sampleWorld sampleIssued SubjectSession ''s'')"
  by (simp_all add: sampleRotated_def sample_run sampleIssued_fields UnixMilli_def sampleNext_def
     publish_def swapRegistry_def invalidateLocked_def putFile_def renameFile_def)

lemma sampleRotated_ready: "ready sampleRotated"
  unfolding sampleRotated_def
  by (rule Rotate_ready [OF sampleIssued_ready]) (simp add: sampleFresh sampleIssued_fields)

definition sampleSuccessor :: Principal where
  "sampleSuccessor = \<lparr>p_KeyID = hex_encode (replicate 16 CHR ''b''), p_SubjectID = ''s'', p_Kind = SubjectSession, p_Generation = 2\<rparr>"

lemma sampleSuccessor_valid: "Valid 7000000 sampleRotated sampleSuccessor = None"
  by (simp add: Valid_open [OF _ sampleRotated_fields(2)] sampleRotated_ready [unfolded ready_def]
      sampleRotated_fields validIn_def sampleSuccessor_def sampleNext_def issuedRecord_def
      addRecord_def UnixMilli_def credentialLifetime_def)

lemma sampleDead: "deadKey (fa_registry sampleRotated) (p_KeyID samplePrincipal)"
  by (simp add: deadKey_def sampleRotated_fields sampleNext_def samplePrincipal_def)

definition sampleOps :: "auth_op list" where
  "sampleOps = [OpEnsure 1 okPublish (okIssue CHR ''a'') SubjectSession ''s'',
     OpRotate 6000000 (okIssue CHR ''b'') SubjectSession ''s'']"

lemma sampleOps_run: "foldl (applyOp sampleWorld) sampleStart sampleOps = sampleRotated"
  by (simp add: sampleOps_def sampleRotated_def sampleIssued_def)

lemma sampleOps_guarded: "guarded (opFits sampleWorld) (applyOp sampleWorld) sampleStart sampleOps"
  by (simp add: sampleOps_def sampleFresh sampleIssued_fields flip: sampleIssued_def)
    (simp add: sampleStart_def emptyRegistry_def)

section \<open>One valid generation per subject\<close>



section \<open>Revocation is permanent\<close>

text \<open>
  C2. A key whose record is revoked never becomes valid again, whatever operations follow.
\<close>

theorem revoked_never_valid_again:
  assumes "ready a" and "deadKey (fa_registry a) (p_KeyID p)" and "guarded (opFits W) (applyOp W) a ops"
  shows "Valid t (foldl (applyOp W) a ops) p \<noteq> None"
  using dead.run_inv [of a "p_KeyID p" W ops] assms deadKey_not_live not_live_not_valid by blast

theorem revoked_never_valid_again_witness:
  "Valid 6000000 sampleIssued samplePrincipal = None \<and>
   Valid 8000000 (foldl (applyOp sampleWorld) sampleRotated
     [OpRevoke 7000000 okCommit SubjectSession ''s'', OpWatch 7000000 samplePrincipal]) samplePrincipal \<noteq> None"
  using revoked_never_valid_again [OF sampleRotated_ready sampleDead, of sampleWorld
      "[OpRevoke 7000000 okCommit SubjectSession ''s'', OpWatch 7000000 samplePrincipal]" 8000000]
    samplePrincipal_valid
  by (simp add: UnixMilli_def)

section \<open>Watchers\<close>

interpretation watch: kept_by_ops "\<lambda>a oper. opFits W a oper \<and> \<not> cancels k ch oper" "applyOp W"
  "\<lambda>a. ready a \<and> k \<noteq> [] \<and> watched k ch a" for W k ch
  by unfold_locales (blast intro: applyOp_ready watched_apply)

text \<open>
  C3. The channel \<^verbatim>\<open>WatchInvalidation\<close> returns is closed exactly when its principal's key
  has been invalidated or the authority closed, after any sequence of operations that does not
  cancel that watch: no invalidation is missed, and none is signalled early.
\<close>

theorem watch_closed_exactly:
  assumes "ready a" and "WatchInvalidation now a p = (a1, Inr ch)"
    and "guarded (\<lambda>a oper. opFits W a oper \<and> \<not> cancels (p_KeyID p) ch oper) (applyOp W) a1 ops"
  defines "b \<equiv> foldl (applyOp W) a1 ops"
  shows "ch \<in> set (fa_closed b) \<longleftrightarrow> \<not> fa_open b \<or> \<not> liveKey (fa_registry b) (p_KeyID p)"
proof -
  have inv: "auth_inv a" using assms(1) by (simp add: ready_def)
  have rd: "ready a1" using Watch_ready [OF assms(1), of now p] assms(2) by simp
  have "p_KeyID p \<noteq> []"
    using Watch_registers(2) [OF inv assms(2)] validIn_None_iff [OF ready_reg_inv [OF assms(1)]]
      reg_inv_key_nonempty [OF ready_reg_inv [OF assms(1)]] by blast
  moreover have "watched (p_KeyID p) ch a1"
    using Watch_registers(4) [OF inv assms(2)] by (simp add: watched_def)
  ultimately have "ready b \<and> p_KeyID p \<noteq> [] \<and> watched (p_KeyID p) ch b"
    unfolding b_def using rd assms(3) by (intro watch.run_inv) auto
  then show ?thesis using watched_iff by blast
qed

theorem watch_closed_exactly_witness:
  "\<exists>ch a1. WatchInvalidation 6000000 sampleIssued samplePrincipal = (a1, Inr ch) \<and> ch \<notin> set (fa_closed a1) \<and>
     ch \<in> set (fa_closed (foldl (applyOp sampleWorld) a1 [OpRevoke 7000000 okCommit SubjectSession ''s'']))"
proof -
  obtain a1 ch where w: "WatchInvalidation 6000000 sampleIssued samplePrincipal = (a1, Inr ch)"
    using samplePrincipal_valid by (auto simp: Valid_def WatchInvalidation_def Let_def split: option.splits)
  have reg: "fa_registry a1 = sampleRegistry" "fa_open a1"
    using Watch_registers(4) [OF _ w] sampleIssued_ready by (simp_all add: ready_def sampleIssued_fields)
  let ?ops = "[OpRevoke 7000000 okCommit SubjectSession ''s'']"
  have "\<not> liveKey (fa_registry (foldl (applyOp sampleWorld) a1 ?ops)) (p_KeyID samplePrincipal)"
    by (simp add: sample_run reg publish_def swapRegistry_def invalidateLocked_def liveKey_def samplePrincipal_def UnixMilli_def)
  moreover have "liveKey (fa_registry a1) (p_KeyID samplePrincipal)"
    by (simp add: reg liveKey_def samplePrincipal_def)
  ultimately show ?thesis
    using watch_closed_exactly [OF sampleIssued_ready w, of sampleWorld ?ops]
      watch_closed_exactly [OF sampleIssued_ready w, of sampleWorld "[]"] w reg
    by (auto simp: UnixMilli_def)
qed

end
