(* ===== verification/Access_Lifecycle.thy ===== *)
theory Access_Lifecycle
  imports Access_Authority_Props
begin

text \<open>
  The life of one subject's credential through \<^verbatim>\<open>internal/access/authority.go\<close>: what
  rotation, revocation, regranting and the recovery of an interrupted publication do, on their
  success and on their error paths.
\<close>

section \<open>Shared facts\<close>

text \<open>A committed issue retires the replaced key and files the new record as current.\<close>

lemma issued_successor:
  assumes inv: "reg_inv r" and prep: "issuePrepare now kind sid k r = Inr (nxt, g)" and "k \<noteq> []"
    and old: "map_of (rf_Records r) k = Some old" and fresh: "map_of (rf_Records r) (keyIDOf W pub) = None"
    and now: "UnixMilli now \<noteq> 0"
  defines "new \<equiv> issuedRecord W now kind sid g pub"
  shows "unat (cr_Generation new) = Suc (unat (cr_Generation old))"
    "map_of (rf_Records (addRecord new nxt)) (cr_KeyID new) = Some new"
    "currentOf (addRecord new nxt) kind sid = cr_KeyID new" "deadKey (addRecord new nxt) k"
proof -
  from issuePrepare_succ [OF prep \<open>k \<noteq> []\<close>] old
  have "cr_Generation old \<noteq> - 1" "g = cr_Generation old + 1" by (metis option.inject)+
  then show "unat (cr_Generation new) = Suc (unat (cr_Generation old))"
    by (simp add: new_def gen_succ_unat)
  show "map_of (rf_Records (addRecord new nxt)) (cr_KeyID new) = Some new"
    "currentOf (addRecord new nxt) kind sid = cr_KeyID new"
    by (simp_all add: new_def mget0_def)
  have "advances r (addRecord new nxt) k"
    by (rule issue_advances [OF inv prep now]) (simp add: new_def fresh)
  with \<open>k \<noteq> []\<close> show "deadKey (addRecord new nxt) k" by (simp add: advances_def)
qed

lemma issueLocked_constants:
  assumes "issueLocked W io a kind sid k = (b, res)"
  shows "fa_issuer b = fa_issuer a" "fa_root b = fa_root a" "fa_tlsCert b = fa_tlsCert a" "fa_open b = fa_open a"
  using issueLocked_outcome [OF assms] by (auto simp: sameCore_fields)

lemma valid_is_current:
  assumes "ready a" and "Valid t a p = None"
  shows "currentOf (fa_registry a) (p_Kind p) (p_SubjectID p) = p_KeyID p"
  using Valid_None(2) [OF assms] by (auto simp: validIn_def split: option.splits if_splits)

lemma Rotate_cases:
  assumes "Rotate W now io a kind sid = (a', res)"
  obtains "a' = a" "\<exists>e. res = Inl e"
  | old where "validateSubject kind sid = None" "fa_open a" "currentRecord (fa_registry a) now kind sid = Inr old"
      "issueLocked W io a kind sid (cr_KeyID old) = (a', res)"
  using assms by (auto simp: Rotate_def split: option.splits sum.splits if_splits)

section \<open>Rotation\<close>


lemma samplePrincipal_fields:
  "p_KeyID samplePrincipal = hex_encode (replicate 16 CHR ''a'')" "p_Kind samplePrincipal = SubjectSession"
  "p_SubjectID samplePrincipal = ''s''" "p_Generation samplePrincipal = 1"
  by (simp_all add: samplePrincipal_def)

lemma sampleKeyLaws: "keyLaws sampleWorld"
  by (simp add: keyLaws_def sampleWorld_def)

lemma sampleIssued_fresh: "freshIssue sampleWorld sampleIssued (okIssue CHR ''b'')"
  by (simp add: sampleFresh sampleIssued_fields)


text \<open>
  C5. A rotation that fails leaves no doubt about the old credential: either the registry is as it
  was, in memory and on disk, so that exactly the same principals are valid, or the old key is
  revoked for good. No failure of a later system call leaves two credentials usable.
\<close>

theorem rotate_fails_closed:
  assumes "ready a" and "freshIssue W a io" and "Rotate W now io a kind sid = (b, Inl e)"
  shows "(fa_registry b = fa_registry a \<and> fa_diskRegistry b = fa_diskRegistry a \<and> (\<forall>t p. Valid t b p = Valid t a p)) \<or>
     (\<forall>t p. p_Kind p = kind \<and> p_SubjectID p = sid \<and> Valid t a p = None \<longrightarrow>
        deadKey (fa_registry b) (p_KeyID p) \<and> deadKey (fa_diskRegistry b) (p_KeyID p))"
  using assms(3)
proof (cases rule: Rotate_cases)
  case 1
  then show ?thesis by simp
next
  case (2 old)
  have rdb: "ready b" using Rotate_ready [OF assms(1,2), of now kind sid] assms(3) by simp
  from issueLocked_outcome [OF 2(4)] show ?thesis
  proof (elim disjE exE conjE)
    assume "sameCore a b"
    then show ?thesis by (simp add: sameCore_fields Valid_def)
  next
    fix nxt g seed
    assume prep: "issuePrepare (io_now io) kind sid (cr_KeyID old) (fa_registry a) = Inr (nxt, g)" and seed: "io_seed io = Inr seed"
      and core: "sameCore (committedTo (addRecord (issuedRecord W (io_now io) kind sid g (pubOf W seed)) nxt) (cr_KeyID old) a) b"
    note cur = currentRecord_Inr [OF 2(3)]
    have "deadKey (fa_registry b) (cr_KeyID old)"
      using issued_successor(4) [OF ready_reg_inv [OF assms(1)] prep _ cur(3)] assms(2) seed cur(1,2) core
      by (auto simp: freshIssue_def sameCore_fields)
    moreover have "fa_diskRegistry b = fa_registry b" using rdb by (simp add: ready_def auth_inv_def)
    ultimately show ?thesis using valid_is_current [OF assms(1)] cur(1) by auto
  qed
qed

text \<open>The rename that publishes the new key fails after the registry was committed.\<close>

definition brokenRename :: issue_io where
  "brokenRename = (okIssue CHR ''b'')\<lparr>io_rename := Some (ErrIO ''rename'')\<rparr>"

definition sampleTorn :: FileAuthority where
  "sampleTorn = fst (Rotate sampleWorld 6000000 brokenRename sampleIssued SubjectSession ''s'')"

lemma sampleTorn_fields:
  "fa_registry sampleTorn = sampleNext"
  "snd (Rotate sampleWorld 6000000 brokenRename sampleIssued SubjectSession ''s'') = Inl (ErrIO ''rename'')"
  by (simp_all add: sampleTorn_def sample_run brokenRename_def sampleIssued_fields UnixMilli_def sampleNext_def
     publish_def swapRegistry_def invalidateLocked_def putFile_def)

lemma brokenRename_fresh: "freshIssue sampleWorld sampleIssued brokenRename"
  using sampleIssued_fresh by (simp add: freshIssue_def brokenRename_def)

lemma sampleTorn_run:
  "Rotate sampleWorld 6000000 brokenRename sampleIssued SubjectSession ''s'' = (sampleTorn, Inl (ErrIO ''rename''))"
  using sampleTorn_fields(2) by (metis prod.collapse sampleTorn_def)

lemma sampleTorn_changed: "fa_registry sampleTorn \<noteq> fa_registry sampleIssued"
proof
  assume "fa_registry sampleTorn = fa_registry sampleIssued"
  then have "currentOf sampleNext SubjectSession ''s'' = currentOf sampleRegistry SubjectSession ''s''"
    by (simp add: sampleTorn_fields sampleIssued_fields)
  then show False by (simp add: sampleNext_def addRecord_def mget0_def)
qed

theorem rotate_fails_closed_witness:
  "Valid 6000000 sampleIssued samplePrincipal = None \<and>
   deadKey (fa_diskRegistry (fst (Rotate sampleWorld 6000000 brokenRename sampleIssued SubjectSession ''s'')))
     (p_KeyID samplePrincipal)"
  using rotate_fails_closed [OF sampleIssued_ready brokenRename_fresh sampleTorn_run] sampleTorn_changed
    samplePrincipal_valid sampleTorn_run samplePrincipal_fields(2,3)
  by auto

section \<open>Recovery of an interrupted publication\<close>



section \<open>Revocation\<close>

lemma revoked_subject:
  assumes rd: "ready a" and sub: "validateSubject kind sid = None" and "currentOf (fa_registry a) kind sid = []"
    and "p_Kind p = kind" and "p_SubjectID p = sid"
  shows "Valid t a p \<noteq> None"
proof
  assume v: "Valid t a p = None"
  with valid_is_current [OF rd v] assms(3-5) have "p_KeyID p = []" by simp
  moreover obtain rec where "map_of (rf_Records (fa_registry a)) (p_KeyID p) = Some rec"
    using Valid_None(2) [OF rd v] validIn_None_iff [OF ready_reg_inv [OF rd]] by blast
  ultimately show False using reg_inv_key_nonempty [OF ready_reg_inv [OF rd]] by blast
qed

lemma dropped_issued:
  assumes drop: "dropped r r' ck k dead" and wf: "gwf (rf_Records r)" and "subjectWasIssued r kind sid"
  shows "subjectWasIssued r' kind sid"
proof -
  from assms(3) wf obtain k' rec where rec: "map_of (rf_Records r) k' = Some rec" "cr_Kind rec = kind" "cr_SubjectID rec = sid"
    by (auto simp: subjectWasIssued_iff)
  have "\<exists>rec'. map_of (rf_Records r') k' = Some rec' \<and> cr_Kind rec' = kind \<and> cr_SubjectID rec' = sid"
    using drop rec by (cases "k' = k") (auto simp: dropped_def sameSubject_def)
  moreover have "gwf (rf_Records r')" using drop by (simp add: dropped_def)
  ultimately show ?thesis by (auto simp: subjectWasIssued_iff)
qed

lemma Revoke_None:
  assumes "ready a" and "UnixMilli now \<noteq> 0" and "Revoke W now io a kind sid = (b, None)"
  shows "validateSubject kind sid = None" "fa_open b" "currentOf (fa_registry b) kind sid = []"
    "subjectWasIssued (fa_registry a) kind sid \<Longrightarrow> subjectWasIssued (fa_registry b) kind sid"
proof -
  note inv = ready_reg_inv [OF assms(1)]
  from assms(3) show sub: "validateSubject kind sid = None"
    by (auto simp: Revoke_def split: option.splits)
  from assms(3) have op: "fa_open a" and run: "revokeLocked W now io a kind sid [] = (b, None)"
    by (auto simp: Revoke_def split: option.splits if_splits)
  have wf: "gwf (rf_Records (fa_registry a))" using inv by (simp add: reg_inv_defs)
  from revokeLocked_outcome [OF run]
  have "fa_open b \<and> currentOf (fa_registry b) kind sid = [] \<and>
    (subjectWasIssued (fa_registry a) kind sid \<longrightarrow> subjectWasIssued (fa_registry b) kind sid)"
  proof (elim disjE exE conjE)
    fix nxt k
    assume nxt: "revokeNext now kind sid [] (fa_registry a) = Inr (Some (nxt, k))" and b: "b = committedTo nxt k a"
    obtain dead where drop: "dropped (fa_registry a) nxt (currentKey kind sid) k dead"
      by (rule revokeNext_dropped [OF inv sub assms(2) nxt])
    then have "currentOf nxt kind sid = []" by (simp add: dropped_def mget0_def)
    with b op dropped_issued [OF drop wf] show ?thesis by simp
  qed (use op in \<open>auto simp: revokeNext_def Let_def split: if_splits option.splits\<close>)
  then show "fa_open b" "currentOf (fa_registry b) kind sid = []"
    "subjectWasIssued (fa_registry a) kind sid \<Longrightarrow> subjectWasIssued (fa_registry b) kind sid"
    by blast+
qed

text \<open>
  C7. Once \<^verbatim>\<open>Revoke\<close> returns without error no principal of the subject is valid, at any
  clock reading, and a subject that had been issued a credential cannot get one back through
  \<^verbatim>\<open>Ensure\<close> or \<^verbatim>\<open>Rotate\<close>: both refuse with \<^verbatim>\<open>ErrRevoked\<close> and
  change nothing.
\<close>

theorem revoke_is_sticky:
  assumes "ready a" and "UnixMilli now \<noteq> 0" and "subjectWasIssued (fa_registry a) kind sid"
    and "Revoke W now io a kind sid = (b, None)"
  shows "(\<forall>t p. p_Kind p = kind \<and> p_SubjectID p = sid \<longrightarrow> Valid t b p \<noteq> None) \<and>
     Ensure W t pio iio b kind sid = (b, Inl ErrRevoked) \<and> Rotate W t iio b kind sid = (b, Inl ErrRevoked)"
proof -
  note r = Revoke_None [OF assms(1,2,4)]
  have "ready b" using Revoke_ready [OF assms(1,2), of W io kind sid] assms(4) by simp
  with revoked_subject [OF this r(1,3)] r(1-3) r(4) [OF assms(3)] show ?thesis
    by (simp add: Ensure_def ensureLocked_def Rotate_def currentRecord_def Let_def)
qed

theorem revoke_is_sticky_witness:
  "\<exists>b. Revoke sampleWorld 7000000 okCommit sampleIssued SubjectSession ''s'' = (b, None) \<and>
     Ensure sampleWorld 8000000 okPublish (okIssue CHR ''c'') b SubjectSession ''s'' = (b, Inl ErrRevoked)"
proof -
  have "snd (Revoke sampleWorld 7000000 okCommit sampleIssued SubjectSession ''s'') = None"
    by (simp add: sample_run sampleIssued_fields)
  then obtain b where run: "Revoke sampleWorld 7000000 okCommit sampleIssued SubjectSession ''s'' = (b, None)"
    by (metis prod.collapse)
  with revoke_is_sticky [OF sampleIssued_ready _ _ run] show ?thesis
    by (auto simp: UnixMilli_def subjectWasIssued_def sampleIssued_fields ofSubject_def)
qed

text \<open>
  C8. \<^verbatim>\<open>RevokeCurrent\<close> touches only the generation it was given: every other principal
  that was valid stays valid whatever happens, and when it reports success the named one is invalid.
\<close>

theorem revokeCurrent_exact:
  assumes rd: "ready a" and now: "UnixMilli now \<noteq> 0" and run: "RevokeCurrent W now io a p = (b, res)"
  shows "(\<forall>t q. Valid t a q = None \<and> q \<noteq> p \<longrightarrow> Valid t b q = None) \<and>
     (res = None \<longrightarrow> (\<forall>t. Valid t b p \<noteq> None))"
proof (cases "b = a \<and> res \<noteq> None")
  case False
  note inv = ready_reg_inv [OF rd]
  let ?kind = "p_Kind p" and ?sid = "p_SubjectID p" and ?k = "p_KeyID p"
  from run False obtain rec where sub: "validateSubject ?kind ?sid = None" and op: "fa_open a"
    and k: "currentOf (fa_registry a) ?kind ?sid = ?k" "?k \<noteq> []"
    and rec: "map_of (rf_Records (fa_registry a)) ?k = Some rec" "cr_Generation rec = p_Generation p"
      "cr_Kind rec = ?kind" "cr_SubjectID rec = ?sid"
    and inner: "revokeLocked W now io a ?kind ?sid ?k = (b, res)"
    by (auto simp: RevokeCurrent_def Let_def split: option.splits if_splits)
  from revokeLocked_outcome [OF inner] False k obtain nxt k'
    where nxt: "revokeNext now ?kind ?sid ?k (fa_registry a) = Inr (Some (nxt, k'))" and b: "b = committedTo nxt k' a"
    by (auto simp: revokeNext_def Let_def split: if_splits option.splits)
  from nxt k have "k' = ?k" by (auto simp: revokeNext_def Let_def split: if_splits option.splits)
  then obtain dead where drop: "dropped (fa_registry a) nxt (currentKey ?kind ?sid) ?k dead"
    using revokeNext_dropped [OF inv sub now nxt] by metis
  have rdb: "ready b" by (rule revokeLocked_ready [OF rd op sub now inner])
  have reg: "fa_registry b = nxt" "fa_open b" using b op by simp_all
  have "Valid t b q = None" if v: "Valid t a q = None" and "q \<noteq> p" for t q
  proof -
    from Valid_None(2) [OF rd v] validIn_None_iff [OF inv] obtain qr
      where qr: "map_of (rf_Records (fa_registry a)) (p_KeyID q) = Some qr" "cr_RevokedAt qr = 0" "UnixMilli t < cr_NotAfter qr"
        "cr_SubjectID qr = p_SubjectID q" "cr_Kind qr = p_Kind q" "cr_Generation qr = p_Generation q" by blast
    with rec \<open>q \<noteq> p\<close> have "p_KeyID q \<noteq> ?k" by auto
    with qr drop have "map_of (rf_Records nxt) (p_KeyID q) = Some qr" by (simp add: dropped_def)
    with qr validIn_None_iff [OF ready_reg_inv [OF rdb], of t q] reg rdb show ?thesis
      by (simp add: Valid_def ready_def auth_inv_def)
  qed
  moreover have "Valid t b p \<noteq> None" for t
    using drop reg by (intro not_live_not_valid [OF rdb]) (simp add: liveKey_def dropped_def)
  ultimately show ?thesis by blast
qed auto

theorem revokeCurrent_exact_witness:
  "\<exists>b. RevokeCurrent sampleWorld 7000000 okCommit sampleIssued samplePrincipal = (b, None) \<and>
     Valid 6000000 sampleIssued samplePrincipal = None \<and> Valid 6000000 b samplePrincipal \<noteq> None"
proof -
  have "snd (RevokeCurrent sampleWorld 7000000 okCommit sampleIssued samplePrincipal) = None"
    by (simp add: RevokeCurrent_def sample_run sampleIssued_fields samplePrincipal_fields)
  then obtain b where run: "RevokeCurrent sampleWorld 7000000 okCommit sampleIssued samplePrincipal = (b, None)"
    by (metis prod.collapse)
  with revokeCurrent_exact [OF sampleIssued_ready _ run] samplePrincipal_valid show ?thesis
    by (auto simp: UnixMilli_def)
qed

text \<open>
  C9. \<^verbatim>\<open>Regrant\<close> succeeds only for the exact generation the caller saw revoked: it was the
  subject's highest, nothing was current, and the regranted generation is its successor.
\<close>

theorem regrant_exact_generation:
  assumes "ready a" and "freshIssue W a io" and run: "Regrant W io a kind sid g = (b, Inr dir)"
  shows "\<exists>rec new. LastRevoked a kind sid = Inr rec \<and> cr_Generation rec = g \<and>
     (\<forall>k r. map_of (rf_Records (fa_registry a)) k = Some r \<and> cr_Kind r = kind \<and> cr_SubjectID r = sid \<longrightarrow> cr_Generation r \<le> g) \<and>
     currentRecord (fa_registry b) (io_now io) kind sid = Inr new \<and> unat (cr_Generation new) = Suc (unat g)"
proof -
  note inv = ready_reg_inv [OF assms(1)]
  from run obtain rec where sub: "validateSubject kind sid = None" and op: "fa_open a"
    and none: "currentOf (fa_registry a) kind sid = []" and lst: "lastRecord (fa_registry a) kind sid = Inr rec"
    and rec: "cr_RevokedAt rec \<noteq> 0" "cr_Generation rec = g"
    and inner: "issueLocked W io a kind sid (cr_KeyID rec) = (b, Inr dir)"
    by (auto simp: Regrant_def split: option.splits sum.splits if_splits)
  note last = lastRecord_Inr [OF inv lst]
  obtain nxt g' seed where prep: "issuePrepare (io_now io) kind sid (cr_KeyID rec) (fa_registry a) = Inr (nxt, g')"
    and seed: "io_seed io = Inr seed"
    and reg: "fa_registry b = addRecord (issuedRecord W (io_now io) kind sid g' (pubOf W seed)) nxt"
    by (rule issueLocked_Inr [OF inner])
  have fresh: "UnixMilli (io_now io) \<noteq> 0" "map_of (rf_Records (fa_registry a)) (keyIDOf W (pubOf W seed)) = None"
    "keyIDOf W (pubOf W seed) \<noteq> []"
    using assms(2) seed by (auto simp: freshIssue_def)
  note succ = issued_successor [OF inv prep reg_inv_key_nonempty [OF inv last(1)] last(1) fresh(2,1)]
  have "currentRecord (fa_registry b) (io_now io) kind sid = Inr (issuedRecord W (io_now io) kind sid g' (pubOf W seed))"
    using succ(2,3) fresh(3) by (simp add: currentRecord_def reg Let_def issuedRecord_def UnixMilli_def credentialLifetime_def)
  moreover have "LastRevoked a kind sid = Inr rec" using sub op none lst rec by (simp add: LastRevoked_def)
  ultimately show ?thesis using rec succ(1) last(4) by blast
qed

definition sampleRevoked :: FileAuthority where
  "sampleRevoked = fst (Revoke sampleWorld 7000000 okCommit sampleIssued SubjectSession ''s'')"

lemma sampleRevoked_fields:
  "fa_open sampleRevoked" "rf_Current (fa_registry sampleRevoked) = []"
  "rf_Records (fa_registry sampleRevoked) = [(hex_encode (replicate 16 CHR ''a''), sampleRecord\<lparr>cr_RevokedAt := 7\<rparr>)]"
  by (simp_all add: sampleRevoked_def sample_run sampleIssued_fields publish_def swapRegistry_def invalidateLocked_def UnixMilli_def)

theorem regrant_exact_generation_witness:
  "\<exists>b dir new. Regrant sampleWorld (okIssue CHR ''c'') sampleRevoked SubjectSession ''s'' 1 = (b, Inr dir) \<and>
     currentRecord (fa_registry b) 5000000 SubjectSession ''s'' = Inr new \<and> unat (cr_Generation new) = 2"
proof -
  have rd: "ready sampleRevoked"
    unfolding sampleRevoked_def by (rule Revoke_ready [OF sampleIssued_ready]) (simp add: UnixMilli_def)
  have fresh: "freshIssue sampleWorld sampleRevoked (okIssue CHR ''c'')"
    by (simp add: sampleFresh sampleRevoked_fields)
  have "\<exists>d. snd (Regrant sampleWorld (okIssue CHR ''c'') sampleRevoked SubjectSession ''s'' 1) = Inr d"
    by (simp add: sample_run sampleRevoked_fields lastRecord_def)
  then obtain b dir where run: "Regrant sampleWorld (okIssue CHR ''c'') sampleRevoked SubjectSession ''s'' 1 = (b, Inr dir)"
    by (metis prod.collapse)
  with regrant_exact_generation [OF rd fresh run] show ?thesis by (auto simp: okIssue_def)
qed

end
