(* ===== verification/Go_Json.thy ===== *)
theory Go_Json
  imports Go_Text
begin

text \<open>
  The part of Go's \<^verbatim>\<open>encoding/json\<close> the sources rely on: the text of strings, numbers and
  flat objects as \<^verbatim>\<open>json.Marshal\<close> writes them, and the grammar \<^verbatim>\<open>json.Unmarshal\<close>
  accepts, with the escapes, the surrogate pairs and the replacement of invalid UTF-8. The round
  trip is proved for objects whose keys and strings are ASCII, which is all the sources write
  through it. Recursion in the parser is bounded by fuel; twice the length of the text is enough
  (lemma \<open>json_parse_complete\<close>), since every nested value follows at least one consumed byte.
\<close>

datatype json = JNull | JBool bool | JNum string | JStr string | JArr "json list" | JObj "(string \<times> json) list"

section \<open>UTF-8\<close>

definition code :: "char \<Rightarrow> nat" where "code c = of_char c"

definition is_ascii :: "char \<Rightarrow> bool" where "is_ascii c \<longleftrightarrow> code c < 128"

definition is_cont :: "nat \<Rightarrow> nat \<Rightarrow> string \<Rightarrow> nat \<Rightarrow> bool" where
  "is_cont lo hi s i \<longleftrightarrow> i < length s \<and> lo \<le> code (s ! i) \<and> code (s ! i) \<le> hi"

text \<open>How many bytes follow the lead byte \<open>c\<close> of a well-formed sequence at the head of \<open>c # s\<close>.\<close>

definition utf8_tail :: "char \<Rightarrow> string \<Rightarrow> nat option" where
  "utf8_tail c s =
     (let n = code c; cont = is_cont 128 191 s
      in if n < 128 then Some 0
         else if 194 \<le> n \<and> n \<le> 223 \<and> cont 0 then Some 1
         else if 224 \<le> n \<and> n \<le> 239 \<and>
           is_cont (if n = 224 then 160 else 128) (if n = 237 then 159 else 191) s 0 \<and> cont 1 then Some 2
         else if 240 \<le> n \<and> n \<le> 244 \<and>
           is_cont (if n = 240 then 144 else 128) (if n = 244 then 143 else 191) s 0 \<and> cont 1 \<and> cont 2 then Some 3
         else None)"

definition utf8_encode :: "nat \<Rightarrow> string" where
  "utf8_encode r =
     (if r < 128 then [char_of r]
      else if r < 2048 then [char_of (192 + r div 64), char_of (128 + r mod 64)]
      else if r < 65536 then [char_of (224 + r div 4096), char_of (128 + r div 64 mod 64), char_of (128 + r mod 64)]
      else [char_of (240 + r div 262144), char_of (128 + r div 4096 mod 64),
            char_of (128 + r div 64 mod 64), char_of (128 + r mod 64)])"

definition replacement :: nat where "replacement = 65533"

section \<open>Printing\<close>

definition hex4 :: "nat \<Rightarrow> string" where
  "hex4 n = [hex_digit (n div 4096 mod 16), hex_digit (n div 256 mod 16), hex_digit (n div 16 mod 16), hex_digit (n mod 16)]"

definition u_escape :: "nat \<Rightarrow> string" where "u_escape n = CHR 0x5C # CHR ''u'' # hex4 n"

definition esc_ascii :: "char \<Rightarrow> string" where
  "esc_ascii c =
     (let n = code c
      in if n = 34 \<or> n = 92 then [CHR 0x5C, c]
         else if n = 8 then [CHR 0x5C, CHR ''b''] else if n = 12 then [CHR 0x5C, CHR ''f'']
         else if n = 10 then [CHR 0x5C, CHR ''n''] else if n = 13 then [CHR 0x5C, CHR ''r'']
         else if n = 9 then [CHR 0x5C, CHR ''t'']
         else if n < 32 \<or> n = 60 \<or> n = 62 \<or> n = 38 then u_escape n else [c])"

fun esc :: "string \<Rightarrow> string" where
  "esc [] = []"
| "esc (c # s) =
     (if is_ascii c then esc_ascii c @ esc s
      else (case utf8_tail c s of
          None \<Rightarrow> u_escape replacement @ esc s
        | Some n \<Rightarrow>
            (let q = c # take n s
             in (if q = utf8_encode 8232 then u_escape 8232 else if q = utf8_encode 8233 then u_escape 8233 else q)
                @ esc (drop n s))))"

definition json_string :: "string \<Rightarrow> string" where
  "json_string s = CHR 0x22 # esc s @ [CHR 0x22]"

text \<open>A flat object: every value is printed by the caller.\<close>

fun json_members :: "(string \<times> string) list \<Rightarrow> string" where
  "json_members [] = []"
| "json_members [(k, v)] = json_string k @ CHR '':'' # v"
| "json_members ((k, v) # kv # kvs) = json_string k @ CHR '':'' # v @ CHR '','' # json_members (kv # kvs)"

definition json_object :: "(string \<times> string) list \<Rightarrow> string" where
  "json_object kvs = CHR 0x7B # json_members kvs @ [CHR 0x7D]"

text \<open>The elements of an array, each printed by the caller.\<close>

fun json_elements :: "string list \<Rightarrow> string" where
  "json_elements [] = []"
| "json_elements [v] = v"
| "json_elements (v # w # vs) = v @ CHR '','' # json_elements (w # vs)"

definition json_array :: "string list \<Rightarrow> string" where
  "json_array vs = CHR ''['' # json_elements vs @ '']''"

lemma length_elements: "vs \<noteq> [] \<Longrightarrow> Suc (length (json_elements vs)) = sum_list (map (\<lambda>v. Suc (length v)) vs)"
  by (induction vs rule: json_elements.induct) auto

section \<open>Parsing\<close>

definition is_ws :: "char \<Rightarrow> bool" where
  "is_ws c \<longleftrightarrow> code c = 32 \<or> code c = 9 \<or> code c = 10 \<or> code c = 13"

definition skip_ws :: "string \<Rightarrow> string" where "skip_ws = dropWhile is_ws"

fun p_hex4 :: "string \<Rightarrow> (nat \<times> string) option" where
  "p_hex4 (a # b # c # d # s) =
     (case (hex_val a, hex_val b, hex_val c, hex_val d) of
        (Some w, Some x, Some y, Some z) \<Rightarrow> Some (((w * 16 + x) * 16 + y) * 16 + z, s)
      | _ \<Rightarrow> None)"
| "p_hex4 s = None"

text \<open>The second half of a surrogate pair: \<open>None\<close> when what follows is not one.\<close>

definition low_surrogate :: "nat \<Rightarrow> string \<Rightarrow> (nat \<times> string) option" where
  "low_surrogate hi s =
     (case s of
        a # b # t \<Rightarrow>
          if code a = 92 \<and> b = CHR ''u'' \<and> 55296 \<le> hi \<and> hi < 56320 then
            (case p_hex4 t of
               Some (lo, r) \<Rightarrow>
                 if 56320 \<le> lo \<and> lo < 57344 then Some ((hi - 55296) * 1024 + (lo - 56320) + 65536, r) else None
             | None \<Rightarrow> None)
          else None
      | _ \<Rightarrow> None)"

definition simple_escape :: "char \<Rightarrow> string option" where
  "simple_escape e =
     (if code e = 34 \<or> code e = 92 \<or> code e = 47 then Some [e]
      else if e = CHR ''b'' then Some [CHR 0x08] else if e = CHR ''f'' then Some [CHR 0x0C]
      else if e = CHR ''n'' then Some [CHR 0x0A] else if e = CHR ''r'' then Some [CHR 0x0D]
      else if e = CHR ''t'' then Some [CHR 0x09] else None)"

text \<open>One element of a string after the opening quote, with what is left.\<close>

definition p_elem :: "char \<Rightarrow> string \<Rightarrow> (string \<times> string) option" where
  "p_elem c s =
     (if code c < 32 then None
      else if code c = 92 then
        (case s of
           [] \<Rightarrow> None
         | e # t \<Rightarrow>
             if e = CHR ''u'' then
               (case p_hex4 t of
                  None \<Rightarrow> None
                | Some (r, t') \<Rightarrow>
                    if 55296 \<le> r \<and> r < 57344 then
                      (case low_surrogate r t' of
                         Some (r', t'') \<Rightarrow> Some (utf8_encode r', t'')
                       | None \<Rightarrow> Some (utf8_encode replacement, t'))
                    else Some (utf8_encode r, t'))
             else map_option (\<lambda>q. (q, t)) (simple_escape e))
      else (case utf8_tail c s of
          None \<Rightarrow> Some (utf8_encode replacement, s)
        | Some n \<Rightarrow> Some (c # take n s, drop n s)))"

lemma p_hex4_length: "p_hex4 s = Some (n, t) \<Longrightarrow> length t < length s"
  by (induction s rule: p_hex4.induct) (auto split: option.splits)

lemma low_surrogate_length: "low_surrogate hi s = Some (n, t) \<Longrightarrow> length t < length s"
  by (auto simp: low_surrogate_def split: list.splits if_splits option.splits dest!: p_hex4_length)

lemma p_elem_length: "p_elem c s = Some (q, t) \<Longrightarrow> length t \<le> length s"
  by (auto simp: p_elem_def split: if_splits list.splits option.splits dest!: p_hex4_length low_surrogate_length)

function p_string :: "string \<Rightarrow> (string \<times> string) option" where
  "p_string [] = None"
| "p_string (c # s) =
     (if code c = 34 then Some ([], s)
      else (case p_elem c s of
          None \<Rightarrow> None
        | Some (q, t) \<Rightarrow> map_option (\<lambda>(r, u). (q @ r, u)) (p_string t)))"
  by pat_completeness auto
termination
  by (relation "measure length") (auto dest: p_elem_length)

definition digits :: "string \<Rightarrow> string \<times> string" where
  "digits s = (takeWhile is_digit s, dropWhile is_digit s)"

definition p_sign :: "string \<Rightarrow> string \<times> string" where
  "p_sign s = (case s of c # t \<Rightarrow> if c = CHR ''-'' then ([c], t) else ([], s) | [] \<Rightarrow> ([], []))"

definition p_int :: "string \<Rightarrow> (string \<times> string) option" where
  "p_int s = (case s of
     [] \<Rightarrow> None
   | c # t \<Rightarrow> if c = CHR ''0'' then Some ([c], t) else if is_digit c then Some (digits s) else None)"

definition p_frac :: "string \<Rightarrow> (string \<times> string) option" where
  "p_frac s = (case s of
     [] \<Rightarrow> Some ([], [])
   | c # t \<Rightarrow> if c = CHR ''.'' then (let (d, r) = digits t in if d = [] then None else Some (c # d, r)) else Some ([], s))"

definition p_exp :: "string \<Rightarrow> (string \<times> string) option" where
  "p_exp s = (case s of
     [] \<Rightarrow> Some ([], [])
   | c # t \<Rightarrow>
       if c = CHR ''e'' \<or> c = CHR ''E'' then
         (let (sg, u) = (case t of x # v \<Rightarrow> if x = CHR ''+'' \<or> x = CHR ''-'' then ([x], v) else ([], t) | [] \<Rightarrow> ([], []));
              (d, r) = digits u
          in if d = [] then None else Some (c # sg @ d, r))
       else Some ([], s))"

definition p_number :: "string \<Rightarrow> (string \<times> string) option" where
  "p_number s =
     (let (sg, s1) = p_sign s
      in case p_int s1 of None \<Rightarrow> None
         | Some (i, s2) \<Rightarrow> (case p_frac s2 of None \<Rightarrow> None
           | Some (f, s3) \<Rightarrow> map_option (\<lambda>(e, s4). (sg @ i @ f @ e, s4)) (p_exp s3)))"

definition p_literal :: "string \<Rightarrow> json \<Rightarrow> string \<Rightarrow> (json \<times> string) option" where
  "p_literal w v s = (if take (length w) s = w then Some (v, drop (length w) s) else None)"

fun p_value :: "nat \<Rightarrow> string \<Rightarrow> (json \<times> string) option"
  and p_members :: "nat \<Rightarrow> string \<Rightarrow> ((string \<times> json) list \<times> string) option"
  and p_elements :: "nat \<Rightarrow> string \<Rightarrow> (json list \<times> string) option" where
  "p_value 0 s = None"
| "p_value (Suc n) s =
     (case skip_ws s of
        [] \<Rightarrow> None
      | c # t \<Rightarrow>
          if code c = 34 then map_option (\<lambda>(q, r). (JStr q, r)) (p_string t)
          else if code c = 123 then
            (case skip_ws t of
               [] \<Rightarrow> None
             | d # u \<Rightarrow> if code d = 125 then Some (JObj [], u) else map_option (\<lambda>(kvs, r). (JObj kvs, r)) (p_members n t))
          else if code c = 91 then
            (case skip_ws t of
               [] \<Rightarrow> None
             | d # u \<Rightarrow> if code d = 93 then Some (JArr [], u) else map_option (\<lambda>(vs, r). (JArr vs, r)) (p_elements n t))
          else if c = CHR ''t'' then p_literal ''true'' (JBool True) (c # t)
          else if c = CHR ''f'' then p_literal ''false'' (JBool False) (c # t)
          else if c = CHR ''n'' then p_literal ''null'' JNull (c # t)
          else map_option (\<lambda>(q, r). (JNum q, r)) (p_number (c # t)))"
| "p_members 0 s = None"
| "p_members (Suc n) s =
     (case skip_ws s of
        c # t \<Rightarrow>
          if code c \<noteq> 34 then None
          else (case p_string t of
              None \<Rightarrow> None
            | Some (k, u) \<Rightarrow>
                (case skip_ws u of
                   d # v \<Rightarrow>
                     if code d \<noteq> 58 then None
                     else (case p_value n v of
                         None \<Rightarrow> None
                       | Some (x, r) \<Rightarrow>
                           (case skip_ws r of
                              e # r' \<Rightarrow>
                                if code e = 125 then Some ([(k, x)], r')
                                else if code e = 44 then map_option (\<lambda>(kvs, r''). ((k, x) # kvs, r'')) (p_members n r')
                                else None
                            | [] \<Rightarrow> None))
                 | [] \<Rightarrow> None))
      | [] \<Rightarrow> None)"
| "p_elements 0 s = None"
| "p_elements (Suc n) s =
     (case p_value n s of
        None \<Rightarrow> None
      | Some (x, r) \<Rightarrow>
          (case skip_ws r of
             e # r' \<Rightarrow>
               if code e = 93 then Some ([x], r')
               else if code e = 44 then map_option (\<lambda>(vs, r''). (x # vs, r'')) (p_elements n r')
               else None
           | [] \<Rightarrow> None))"

text \<open>The whole text: one value and white space.\<close>

definition json_parse :: "string \<Rightarrow> json option" where
  "json_parse s =
     (case p_value (Suc (2 * length s)) s of Some (v, r) \<Rightarrow> if skip_ws r = [] then Some v else None | None \<Rightarrow> None)"

section \<open>Round trip\<close>

lemma code_char_of [simp]: "n < 256 \<Longrightarrow> code (char_of n) = n"
  by (simp add: code_def of_char_of)

lemma char_of_code [simp]: "char_of (code c) = c"
  by (simp add: code_def)

lemma p_hex4_hex4 [simp]: "n < 65536 \<Longrightarrow> p_hex4 (hex4 n @ s) = Some (n, s)"
proof -
  assume n: "n < 65536"
  have step: "m div 16 * 16 + m mod 16 = m" for m :: nat by simp
  have "n div 256 = n div 16 div 16" "n div 4096 = n div 256 div 16"
    by (simp_all flip: div_mult2_eq)
  moreover have top: "n div 4096 mod 16 = n div 4096" using n by (simp add: less_mult_imp_div_less)
  ultimately have "((n div 4096 mod 16 * 16 + n div 256 mod 16) * 16 + n div 16 mod 16) * 16 + n mod 16 = n"
    using step [of n] step [of "n div 16"] step [of "n div 256"] by metis
  moreover have "n div 4096 < 16" using n by (simp add: less_mult_imp_div_less)
  ultimately show ?thesis using top by (simp add: hex4_def)
qed

lemma p_string_elem:
  assumes "code c \<noteq> 34" and "p_elem c s = Some (q, t)"
  shows "p_string (c # s) = map_option (\<lambda>(r, u). (q @ r, u)) (p_string t)"
  using assms by simp

lemma code_backslash [simp]: "code CHR 0x5C = 92" and code_quote [simp]: "code CHR 0x22 = 34"
  by (simp_all add: code_def)

lemma p_elem_u: "n < 128 \<Longrightarrow> p_elem CHR 0x5C (CHR ''u'' # hex4 n @ s) = Some ([char_of n], s)"
  by (simp add: p_elem_def utf8_encode_def)

lemma code_inject: "code c = code d \<longleftrightarrow> c = d"
  by (simp add: code_def)

lemma short_escapes:
  "code c = 8 \<Longrightarrow> simple_escape CHR ''b'' = Some [c]" "code c = 12 \<Longrightarrow> simple_escape CHR ''f'' = Some [c]"
  "code c = 10 \<Longrightarrow> simple_escape CHR ''n'' = Some [c]" "code c = 13 \<Longrightarrow> simple_escape CHR ''r'' = Some [c]"
  "code c = 9 \<Longrightarrow> simple_escape CHR ''t'' = Some [c]"
  using code_inject [of c "CHR 0x08"] code_inject [of c "CHR 0x0C"] code_inject [of c "CHR 0x0A"]
    code_inject [of c "CHR 0x0D"] code_inject [of c "CHR 0x09"]
  by (simp_all add: simple_escape_def code_def)

lemma self_escape: "code c = 34 \<or> code c = 92 \<Longrightarrow> simple_escape c = Some [c]"
  by (auto simp: simple_escape_def)

lemma p_string_short:
  assumes "simple_escape e = Some [c]"
  shows "p_string (CHR 0x5C # e # s) = map_option (\<lambda>(r, u). (c # r, u)) (p_string s)"
proof -
  have "e \<noteq> CHR ''u''" using assms by (auto simp: simple_escape_def code_def split: if_splits)
  with assms show ?thesis by (simp add: p_elem_def)
qed

lemma p_string_u:
  assumes "is_ascii c"
  shows "p_string (u_escape (code c) @ s) = map_option (\<lambda>(r, u). (c # r, u)) (p_string s)"
proof -
  have "p_elem CHR 0x5C (CHR ''u'' # hex4 (code c) @ s) = Some ([c], s)"
    using assms p_elem_u [of "code c"] by (simp add: is_ascii_def)
  from p_string_elem [OF _ this] show ?thesis by (simp add: u_escape_def del: p_string.simps)
qed

lemma p_string_plain:
  assumes "is_ascii c" and "\<not> code c < 32" "code c \<noteq> 34" "code c \<noteq> 92"
  shows "p_string (c # s) = map_option (\<lambda>(r, u). (c # r, u)) (p_string s)"
  using assms by (simp add: p_elem_def is_ascii_def utf8_tail_def)

lemma p_string_esc_ascii:
  assumes "is_ascii c"
  shows "p_string (esc_ascii c @ s) = map_option (\<lambda>(r, u). (c # r, u)) (p_string s)"
  unfolding esc_ascii_def Let_def
  by (simp add: p_string_short short_escapes self_escape p_string_u p_string_plain assms del: p_string.simps)

lemma p_string_json_string:
  assumes "list_all is_ascii s"
  shows "p_string (esc s @ CHR 0x22 # r) = Some (s, r)"
  using assms by (induction s) (simp_all add: p_string_esc_ascii del: p_string.simps(2), simp)

text \<open>\<open>reads v j\<close>: the text \<open>v\<close> of a member's value parses as \<open>j\<close>, up to the comma or brace after it.\<close>

definition ends_value :: "string \<Rightarrow> bool" where
  "ends_value r \<longleftrightarrow> (\<exists>c t. r = c # t \<and> (code c = 44 \<or> code c = 125))"

definition reads :: "string \<Rightarrow> json \<Rightarrow> bool" where
  "reads v j \<longleftrightarrow> (\<forall>n r. ends_value r \<longrightarrow> p_value (Suc n) (v @ r) = Some (j, r))"

lemma skip_ws_Cons [simp]: "\<not> is_ws c \<Longrightarrow> skip_ws (c # s) = c # s" and skip_ws_Nil [simp]: "skip_ws [] = []"
  by (simp_all add: skip_ws_def)

lemma not_ws [simp]: "code c \<noteq> 32 \<Longrightarrow> code c \<noteq> 9 \<Longrightarrow> code c \<noteq> 10 \<Longrightarrow> code c \<noteq> 13 \<Longrightarrow> \<not> is_ws c"
  by (simp add: is_ws_def)

lemma reads_string: "list_all is_ascii s \<Longrightarrow> reads (json_string s) (JStr s)"
  by (simp add: reads_def json_string_def p_string_json_string)

lemma is_digit_code: "is_digit c \<longleftrightarrow> 48 \<le> code c \<and> code c \<le> 57"
  by (simp add: is_digit_def code_def)

lemma digits_append:
  assumes "list_all is_digit d" and "ends_value r"
  shows "digits (d @ r) = (d, r)"
  using assms by (auto simp: digits_def ends_value_def is_digit_code list_all_iff takeWhile_append dropWhile_append)

lemma no_frac_exp:
  assumes "ends_value r"
  shows "p_frac r = Some ([], r)" "p_exp r = Some ([], r)"
proof -
  from assms obtain c t where r: "r = c # t" "code c = 44 \<or> code c = 125" by (auto simp: ends_value_def)
  then have "c \<noteq> CHR ''.''" "c \<noteq> CHR ''e''" "c \<noteq> CHR ''E''" by (auto simp: code_def)
  with r show "p_frac r = Some ([], r)" "p_exp r = Some ([], r)" by (simp_all add: p_frac_def p_exp_def)
qed

text \<open>Printed numbers have no leading zero.\<close>

lemma dec_nat_head: "\<exists>c t. dec_nat n = c # t \<and> is_digit c \<and> (c = CHR ''0'' \<longrightarrow> t = [])"
proof (induction n rule: dec_nat.induct)
  case (1 n)
  show ?case
  proof (cases "n < 10")
    case True
    then show ?thesis by (subst dec_nat.simps) simp
  next
    case False
    from "1.IH" [OF False] obtain c t where h: "dec_nat (n div 10) = c # t" "is_digit c" "c = CHR ''0'' \<longrightarrow> t = []"
      by blast
    have "c \<noteq> CHR ''0''"
    proof
      assume "c = CHR ''0''"
      with h have "dec_nat (n div 10) = [CHR ''0'']" by simp
      then have "n div 10 = dec_val [CHR ''0'']" by (metis dec_val_dec_nat)
      then show False using False by (simp add: dec_val_def)
    qed
    with h show ?thesis using False by (subst (1) dec_nat.simps) simp
  qed
qed

lemma p_number_dec_nat:
  assumes "ends_value r"
  shows "p_int (dec_nat n @ r) = Some (dec_nat n, r)"
proof -
  obtain c t where d: "dec_nat n = c # t" "is_digit c" "c = CHR ''0'' \<longrightarrow> t = []"
    using dec_nat_head by blast
  have "digits ((c # t) @ r) = (c # t, r)"
    using digits_append [OF dec_nat_digits [of n] assms] d(1) by simp
  with d show ?thesis by (auto simp: p_int_def)
qed

lemma p_value_number:
  assumes "p_number (c # s) = Some (q, r)" and "is_digit c \<or> c = CHR ''-''"
  shows "p_value (Suc n) (c # s) = Some (JNum q, r)"
proof -
  have "code c = 45 \<or> 48 \<le> code c \<and> code c \<le> 57" using assms(2) by (auto simp: is_digit_code code_def)
  then have "code c \<noteq> 34" "code c \<noteq> 123" "code c \<noteq> 91" "\<not> is_ws c"
    "c \<noteq> CHR ''t''" "c \<noteq> CHR ''f''" "c \<noteq> CHR ''n''"
    by (auto simp: is_ws_def) (simp_all add: code_def)
  with assms(1) show ?thesis by simp
qed

lemma reads_dec_nat: "reads (dec_nat n) (JNum (dec_nat n))"
  unfolding reads_def
proof (intro allI impI)
  fix m r
  assume r: "ends_value r"
  obtain c t where d: "dec_nat n = c # t" "is_digit c" using dec_nat_head by blast
  have "c \<noteq> CHR ''-''" using d(2) by (auto simp: is_digit_def)
  then have "p_number (dec_nat n @ r) = Some (dec_nat n, r)"
    using p_number_dec_nat [OF r, of n] no_frac_exp [OF r] d(1) by (simp add: p_number_def p_sign_def)
  with p_value_number [of c "t @ r"] d show "p_value (Suc m) (dec_nat n @ r) = Some (JNum (dec_nat n), r)"
    by simp
qed

lemma reads_dec_int: "reads (dec_int i) (JNum (dec_int i))"
proof (cases "i < 0")
  case True
  let ?d = "dec_nat (nat (- i))"
  have "p_value (Suc m) (CHR ''-'' # ?d @ r) = Some (JNum (CHR ''-'' # ?d), r)" if r: "ends_value r" for m r
    by (rule p_value_number) (use p_number_dec_nat [OF r] no_frac_exp [OF r] in \<open>simp_all add: p_number_def p_sign_def\<close>)
  with True show ?thesis by (simp add: reads_def dec_int_def del: p_value.simps)
qed (simp add: dec_int_def reads_dec_nat)

lemma p_members_last:
  assumes "list_all is_ascii k" and "reads v j" and "n > 0"
  shows "p_members (Suc n) (json_string k @ CHR '':'' # v @ CHR 0x7D # r) = Some ([(k, j)], r)"
proof -
  obtain m where "n = Suc m" using assms(3) gr0_conv_Suc by blast
  moreover have "ends_value (CHR 0x7D # r)" by (simp add: ends_value_def code_def)
  ultimately have "p_value n (v @ CHR 0x7D # r) = Some (j, CHR 0x7D # r)"
    using assms(2) by (simp add: reads_def del: p_value.simps)
  moreover have "code CHR '':'' = 58" "code CHR 0x7D = 125" by (simp_all add: code_def)
  ultimately show ?thesis
    using p_string_json_string [OF assms(1)] by (simp add: json_string_def del: p_value.simps)
qed

lemma p_members_more:
  assumes "list_all is_ascii k" and "reads v j" and "n > 0"
  shows "p_members (Suc n) (json_string k @ CHR '':'' # v @ CHR '','' # r) =
    map_option (\<lambda>(kvs, r'). ((k, j) # kvs, r')) (p_members n r)"
proof -
  obtain m where "n = Suc m" using assms(3) gr0_conv_Suc by blast
  moreover have "ends_value (CHR '','' # r)" by (simp add: ends_value_def code_def)
  ultimately have "p_value n (v @ CHR '','' # r) = Some (j, CHR '','' # r)"
    using assms(2) by (simp add: reads_def del: p_value.simps)
  moreover have "code CHR '':'' = 58" "code CHR '','' = 44" by (simp_all add: code_def)
  ultimately show ?thesis
    using p_string_json_string [OF assms(1)] by (simp add: json_string_def del: p_value.simps)
qed

lemma p_members_json_members:
  assumes "list_all2 (\<lambda>(k, v) (k', j). k' = k \<and> list_all is_ascii k \<and> reads v j) kvs js"
    and "kvs \<noteq> []" and "length kvs < n"
  shows "p_members n (json_members kvs @ CHR 0x7D # r) = Some (js, r)"
  using assms
proof (induction kvs arbitrary: js n rule: json_members.induct)
  case (2 k v)
  then obtain j m where "js = [(k, j)]" "list_all is_ascii k" "reads v j" "n = Suc m" "m > 0"
    by (auto simp: list_all2_Cons1 gr0_conv_Suc dest!: less_imp_Suc_add)
  then show ?case using p_members_last by (simp del: p_members.simps)
next
  case (3 k v kv kvs)
  then obtain j js' m where js: "js = (k, j) # js'" "list_all is_ascii k" "reads v j" "n = Suc m"
    and rest: "list_all2 (\<lambda>(k, v) (k', j). k' = k \<and> list_all is_ascii k \<and> reads v j) (kv # kvs) js'"
      "length (kv # kvs) < m"
    by (cases n) (auto simp: list_all2_Cons1)
  from "3.IH" [OF rest(1) _ rest(2)] js rest(2) p_members_more show ?case
    by (simp del: p_members.simps p_value.simps)
qed simp

lemma length_json_members: "length kvs \<le> length (json_members kvs)"
  by (induction kvs rule: json_members.induct) (auto simp: json_string_def)

lemma json_members_head: "kvs \<noteq> [] \<Longrightarrow> \<exists>t. json_members kvs = CHR 0x22 # t"
  by (cases kvs rule: json_members.cases) (auto simp: json_string_def)

lemma json_parse_object:
  assumes "list_all2 (\<lambda>(k, v) (k', j). k' = k \<and> list_all is_ascii k \<and> reads v j) kvs js" and "kvs \<noteq> []"
  shows "json_parse (json_object kvs) = Some (JObj js)"
proof -
  let ?m = "json_members kvs @ [CHR 0x7D]"
  obtain t where t: "json_members kvs = CHR 0x22 # t" using json_members_head [OF assms(2)] by blast
  have brace: "code CHR 0x7B = 123" by (simp add: code_def)
  have "length kvs < 2 * length (json_object kvs)"
    using length_json_members [of kvs] by (simp add: json_object_def)
  then have "p_members (2 * length (json_object kvs)) ?m = Some (js, [])"
    using p_members_json_members [OF assms, of _ "[]"] by blast
  then have "p_value (Suc (2 * length (json_object kvs))) (json_object kvs) = Some (JObj js, [])"
    unfolding json_object_def by (simp add: brace t del: p_members.simps)
  then show ?thesis by (simp add: json_parse_def del: p_value.simps)
qed

section \<open>The fuel is enough\<close>

lemma skip_ws_length: "length (skip_ws s) \<le> length s"
  by (simp add: skip_ws_def length_dropWhile_le)

lemma skip_ws_shorter: "skip_ws s = c # t \<Longrightarrow> length t < length s"
  using skip_ws_length [of s] by simp

lemma p_string_length: "p_string s = Some (q, t) \<Longrightarrow> length t < length s"
proof (induction s arbitrary: q t rule: p_string.induct)
  case (2 c s)
  show ?case
  proof (cases "code c = 34")
    case False
    with 2(2) obtain a b q' where e: "p_elem c s = Some (a, b)" and r: "p_string b = Some (q', t)"
      by (auto split: option.splits)
    from 2(1) [OF False e refl r] p_elem_length [OF e] show ?thesis by simp
  qed (use 2(2) in simp)
qed simp

lemma p_int_length: "p_int s = Some (q, r) \<Longrightarrow> length r < length s"
  by (auto simp: p_int_def digits_def less_Suc_eq_le length_dropWhile_le split: list.splits if_splits)

lemma p_frac_length: "p_frac s = Some (q, r) \<Longrightarrow> length r \<le> length s"
  by (auto simp: p_frac_def digits_def le_SucI length_dropWhile_le split: list.splits if_splits)

lemma p_exp_length: "p_exp s = Some (q, r) \<Longrightarrow> length r \<le> length s"
  by (auto simp: p_exp_def digits_def le_SucI length_dropWhile_le split: list.splits if_splits prod.splits)

lemma p_number_length: "p_number s = Some (q, r) \<Longrightarrow> length r < length s"
  by (auto simp: p_number_def p_sign_def split: prod.splits option.splits list.splits if_splits
      dest!: p_int_length p_frac_length p_exp_length)

lemma p_literal_length: "p_literal (c # w) v s = Some (j, r) \<Longrightarrow> length r < length s"
  by (cases s) (auto simp: p_literal_def split: if_splits)

lemma p_lengths:
  "(\<forall>s v r. p_value n s = Some (v, r) \<longrightarrow> length r < length s) \<and>
   (\<forall>s kvs r. p_members n s = Some (kvs, r) \<longrightarrow> length r < length s) \<and>
   (\<forall>s vs r. p_elements n s = Some (vs, r) \<longrightarrow> length r < length s)"
proof (induction n)
  case (Suc n)
  then have v: "length r < length s" if "p_value n s = Some (v, r)" for s v r using that by blast
  from Suc have m: "length r < length s" if "p_members n s = Some (kvs, r)" for s kvs r using that by blast
  from Suc have e: "length r < length s" if "p_elements n s = Some (vs, r)" for s vs r using that by blast
  note lens = skip_ws_shorter p_string_length p_number_length p_literal_length v m e
  have "length r < length s" if "p_value (Suc n) s = Some (v, r)" for s v r
    using that by (auto split: list.splits if_splits option.splits dest!: lens)
  moreover have "length r < length s" if "p_members (Suc n) s = Some (kvs, r)" for s kvs r
    using that by (auto split: list.splits if_splits option.splits dest!: lens)
  moreover have "length r < length s" if "p_elements (Suc n) s = Some (vs, r)" for s vs r
    using that by (auto split: list.splits if_splits option.splits dest!: lens)
  ultimately show ?case by blast
qed simp

lemma p_value_length: "p_value n s = Some (v, r) \<Longrightarrow> length r < length s"
  using p_lengths by blast

text \<open>A text any amount of fuel parses is parsed alike by every amount above twice its length.\<close>

lemma p_fuel:
  "(\<forall>s x m. p_value n s = Some x \<longrightarrow> 2 * length s < m \<longrightarrow> p_value m s = Some x) \<and>
   (\<forall>s x m. p_members n s = Some x \<longrightarrow> 2 * length s < m \<longrightarrow> p_members m s = Some x) \<and>
   (\<forall>s x m. p_elements n s = Some x \<longrightarrow> Suc (2 * length s) < m \<longrightarrow> p_elements m s = Some x)"
proof (induction n)
  case (Suc n)
  then have v: "p_value m s = Some x" if "p_value n s = Some x" "2 * length s < m" for s x m using that by blast
  from Suc have mb: "p_members m s = Some x" if "p_members n s = Some x" "2 * length s < m" for s x m using that by blast
  from Suc have el: "p_elements m s = Some x" if "p_elements n s = Some x" "Suc (2 * length s) < m" for s x m using that by blast
  have "p_value m s = Some x" if p: "p_value (Suc n) s = Some x" and len: "2 * length s < m" for s x m
  proof (cases "skip_ws s")
    case (Cons c t)
    then obtain m' where m: "m = Suc m'" "Suc (2 * length t) < m'"
      using len skip_ws_shorter [of s c t] by (cases m) auto
    then have inner: "p_members n t = Some y \<Longrightarrow> p_members m' t = Some y"
      "p_elements n t = Some z \<Longrightarrow> p_elements m' t = Some z" for y z
      using mb [of t y m'] el [of t z m'] by auto
    have "p_members n t = None \<or> p_members m' t = p_members n t" "p_elements n t = None \<or> p_elements m' t = p_elements n t"
      using inner(1) inner(2) by (metis option.exhaust)+
    note same = this
    show ?thesis
    proof (cases "code c = 123 \<or> code c = 91")
      case True
      with p Cons m(1) same show ?thesis by (cases "skip_ws t") (auto split: if_splits)
    next
      case False
      with Cons have "p_value (Suc m') s = p_value (Suc n) s" by simp
      with p m(1) show ?thesis by metis
    qed
  qed (use p in simp)
  moreover have "p_members m s = Some x" if p: "p_members (Suc n) s = Some x" and len: "2 * length s < m" for s x m
  proof -
    from p obtain c t k u d w y r e r' where st: "skip_ws s = c # t" "code c = 34" "p_string t = Some (k, u)"
      "skip_ws u = d # w" "code d = 58" "p_value n w = Some (y, r)" "skip_ws r = e # r'"
      and fin: "code e = 125 \<and> x = ([(k, y)], r') \<or> code e \<noteq> 125 \<and> code e = 44 \<and>
        map_option (\<lambda>(kvs, r''). ((k, y) # kvs, r'')) (p_members n r') = Some x"
      by (auto split: list.splits option.splits if_splits)
    note lens = skip_ws_shorter [OF st(1)] p_string_length [OF st(3)] skip_ws_shorter [OF st(4)]
      p_value_length [OF st(6)] skip_ws_shorter [OF st(7)]
    then obtain m' where m: "m = Suc m'" "2 * length w < m'" "2 * length r' < m'"
      using len by (cases m) auto
    with st fin v [OF st(6) m(2)] mb [of r' _ m'] show ?thesis by auto
  qed
  moreover have "p_elements m s = Some x" if p: "p_elements (Suc n) s = Some x" and len: "Suc (2 * length s) < m" for s x m
  proof -
    from p obtain y r e r' where st: "p_value n s = Some (y, r)" "skip_ws r = e # r'"
      and fin: "code e = 93 \<and> x = ([y], r') \<or> code e \<noteq> 93 \<and> code e = 44 \<and>
        map_option (\<lambda>(vs, r''). (y # vs, r'')) (p_elements n r') = Some x"
      by (auto split: list.splits option.splits if_splits)
    note lens = p_value_length [OF st(1)] skip_ws_shorter [OF st(2)]
    then obtain m' where m: "m = Suc m'" "2 * length s < m'" "Suc (2 * length r') < m'"
      using len by (cases m) auto
    with st fin v [OF st(1) m(2)] el [of r' _ m'] show ?thesis by auto
  qed
  ultimately show ?case by blast
qed simp

lemma json_parse_complete:
  assumes "p_value n s = Some (v, r)" and "skip_ws r = []"
  shows "json_parse s = Some v"
proof -
  from assms(1) p_fuel have "p_value (Suc (2 * length s)) s = Some (v, r)" by blast
  with assms(2) show ?thesis by (simp add: json_parse_def del: p_value.simps)
qed

end
