(* ===== verification/Replay_Codec.thy ===== *)
theory Replay_Codec
  imports Go_Json Access_Registry
begin

text \<open>
  The on-disk format of the replay ledger (\<^verbatim>\<open>internal/access/replay_journal.go\<close>): the JSON
  payload of a record, its length and CRC-32C header, the scan of a journal file with its treatment
  of a torn final record, and the choice of the shard. The main lemma is that a journal of whole
  records, followed by any proper prefix of another record or by zero bytes, reads back exactly
  those records without an error.
\<close>

unbundle bit_operations_syntax

section \<open>Checksums\<close>

definition crc_bit :: "32 word \<Rightarrow> 32 word" where
  "crc_bit c = (if bit c 0 then drop_bit 1 c XOR 0x82F63B78 else drop_bit 1 c)"

definition crc_byte :: "32 word \<Rightarrow> char \<Rightarrow> 32 word" where
  "crc_byte c b = (crc_bit ^^ 8) (c XOR of_nat (of_char b))"

text \<open>\<^verbatim>\<open>crc32.Checksum\<close> with the Castagnoli table.\<close>

definition crc32c :: "string \<Rightarrow> 32 word" where
  "crc32c s = NOT (foldl crc_byte (- 1) s)"

text \<open>\<^verbatim>\<open>fnv.New32a\<close>.\<close>

definition fnv32a :: "string \<Rightarrow> 32 word" where
  "fnv32a s = foldl (\<lambda>h b. (h XOR of_nat (of_char b)) * 16777619) 2166136261 s"

definition replayShards :: nat where "replayShards = 8"

definition shardFor :: "string \<Rightarrow> nat" where
  "shardFor keyID = unat (fnv32a keyID mod of_nat replayShards)"

lemma shardFor_bound: "shardFor k < replayShards"
proof -
  have "(of_nat replayShards :: 32 word) \<noteq> 0" by (simp add: replayShards_def)
  then have "fnv32a k mod of_nat replayShards < of_nat replayShards"
    by (rule word_mod_less_divisor [OF word_neq_0_conv [THEN iffD1]])
  then show ?thesis by (simp add: shardFor_def word_less_nat_alt replayShards_def)
qed

section \<open>Records\<close>

record replayRecord =
  rp_KeyID :: string
  rp_Generation :: "64 word"
  rp_RequestID :: string
  rp_BodyDigest :: string
  rp_ExpiresAt :: int

definition maxReplayEntries :: nat where "maxReplayEntries = 4096"
definition replayJournalLimit :: nat where "replayJournalLimit = 8 * maxReplayEntries"
definition replayCompactAfter :: nat where "replayCompactAfter = maxReplayEntries"
definition maxReplayRecord :: nat where "maxReplayRecord = 2 ^ 10"
definition replayHeader :: nat where "replayHeader = 8"

definition replayKey :: "replayRecord \<Rightarrow> string" where
  "replayKey rec = rp_KeyID rec @ '':'' @ dec_nat (unat (rp_Generation rec)) @ '':'' @ rp_RequestID rec"

text \<open>\<^verbatim>\<open>json.Marshal\<close> of the struct: its fields in order under their tags.\<close>

definition marshalReplay :: "replayRecord \<Rightarrow> string" where
  "marshalReplay rec = json_object
     [(''keyId'', json_string (rp_KeyID rec)), (''generation'', dec_nat (unat (rp_Generation rec))),
      (''requestId'', json_string (rp_RequestID rec)), (''bodyDigest'', json_string (rp_BodyDigest rec)),
      (''expiresAt'', dec_int (rp_ExpiresAt rec))]"

text \<open>
  Field names match without regard to case; the long s and the Kelvin sign fold to the ASCII
  letters they fold to in Unicode.
\<close>

fun foldName :: "string \<Rightarrow> string" where
  "foldName [] = []"
| "foldName (c # s) =
     (if 65 \<le> code c \<and> code c \<le> 90 then char_of (code c + 32) # foldName s
      else if c = CHR 0xC5 \<and> take 1 s = [CHR 0xBF] then CHR ''s'' # foldName (drop 1 s)
      else if c = CHR 0xE2 \<and> take 2 s = [CHR 0x84, CHR 0xAA] then CHR ''k'' # foldName (drop 2 s)
      else c # foldName s)"

definition parse_int64 :: "string \<Rightarrow> int option" where
  "parse_int64 s =
     (case s of
        c # t \<Rightarrow>
          if c = CHR ''-'' then (case parse_uint 64 t of Some n \<Rightarrow> if n \<le> 2 ^ 63 then Some (- int n) else None | None \<Rightarrow> None)
          else (case parse_uint 64 s of Some n \<Rightarrow> if n < 2 ^ 63 then Some (int n) else None | None \<Rightarrow> None)
      | [] \<Rightarrow> None)"

text \<open>One member of the object: \<open>None\<close> is a type error, which \<^verbatim>\<open>json.Unmarshal\<close> reports.\<close>

definition setString :: "(string \<Rightarrow> replayRecord) \<Rightarrow> replayRecord \<Rightarrow> json \<Rightarrow> replayRecord option" where
  "setString upd rec v = (case v of JStr s \<Rightarrow> Some (upd s) | JNull \<Rightarrow> Some rec | _ \<Rightarrow> None)"

definition setMember :: "replayRecord \<Rightarrow> string \<times> json \<Rightarrow> replayRecord option" where
  "setMember rec kv =
     (let k = foldName (fst kv); v = snd kv
      in if k = ''keyid'' then setString (\<lambda>s. rec\<lparr>rp_KeyID := s\<rparr>) rec v
         else if k = ''generation'' then
           (case v of JNum l \<Rightarrow> map_option (\<lambda>n. rec\<lparr>rp_Generation := of_nat n\<rparr>) (parse_uint 64 l)
            | JNull \<Rightarrow> Some rec | _ \<Rightarrow> None)
         else if k = ''requestid'' then setString (\<lambda>s. rec\<lparr>rp_RequestID := s\<rparr>) rec v
         else if k = ''bodydigest'' then setString (\<lambda>s. rec\<lparr>rp_BodyDigest := s\<rparr>) rec v
         else if k = ''expiresat'' then
           (case v of JNum l \<Rightarrow> map_option (\<lambda>n. rec\<lparr>rp_ExpiresAt := n\<rparr>) (parse_int64 l)
            | JNull \<Rightarrow> Some rec | _ \<Rightarrow> None)
         else Some rec)"

fun setMembers :: "replayRecord \<Rightarrow> (string \<times> json) list \<Rightarrow> replayRecord option" where
  "setMembers rec [] = Some rec"
| "setMembers rec (kv # kvs) = (case setMember rec kv of None \<Rightarrow> None | Some rec' \<Rightarrow> setMembers rec' kvs)"

definition zeroReplay :: replayRecord where
  "zeroReplay = \<lparr>rp_KeyID = [], rp_Generation = 0, rp_RequestID = [], rp_BodyDigest = [], rp_ExpiresAt = 0\<rparr>"

definition unmarshalReplay :: "string \<Rightarrow> replayRecord option" where
  "unmarshalReplay s =
     (case json_parse s of
        Some (JObj kvs) \<Rightarrow> setMembers zeroReplay kvs | Some JNull \<Rightarrow> Some zeroReplay | _ \<Rightarrow> None)"

section \<open>Journal files\<close>

definition encodeReplayRecord :: "replayRecord \<Rightarrow> access_error + string" where
  "encodeReplayRecord rec =
     (let payload = marshalReplay rec
      in if length payload > maxReplayRecord then Inl ErrCapacity
         else Inr (be_bytes 4 (length payload) @ be_bytes 4 (unat (crc32c payload)) @ payload))"

definition allZero :: "string \<Rightarrow> bool" where
  "allZero b = list_all (\<lambda>c. c = CHR 0x00) b"

definition corrupt :: access_error where "corrupt = ErrIO ''corrupt replay journal''"

definition torn :: "string \<Rightarrow> access_error option" where
  "torn d = (if length d > replayHeader + maxReplayRecord then Some corrupt else None)"

text \<open>
  The loop of \<^verbatim>\<open>readJournal\<close>; \<open>d\<close> is \<^verbatim>\<open>data[off:]\<close>. It returns the entries, the
  number of records read and the error.
\<close>

function readJournal_loop ::
  "string \<Rightarrow> (string, replayRecord) gomap \<Rightarrow> nat \<Rightarrow> (string, replayRecord) gomap \<times> nat \<times> access_error option" where
  "readJournal_loop d entries n =
     (if d = [] then (entries, n, None)
      else if length d < replayHeader then (entries, n, torn d)
      else (let len = be_val (take 4 d); sum = be_val (take 4 (drop 4 d))
        in if len = 0 \<and> allZero d then (entries, n, torn d)
           else if len = 0 \<or> len > maxReplayRecord then (entries, n, Some corrupt)
           else if length d < replayHeader + len then (entries, n, torn d)
           else (let payload = take len (drop replayHeader d);
                     bad = (entries, n, if length d = replayHeader + len then None else Some corrupt)
             in if unat (crc32c payload) \<noteq> sum then bad
                else (case unmarshalReplay payload of
                    None \<Rightarrow> bad
                  | Some rec \<Rightarrow>
                      if rp_KeyID rec = [] \<or> rp_RequestID rec = [] then bad
                      else readJournal_loop (drop (replayHeader + len) d) (mput (replayKey rec) rec entries) (Suc n)))))"
  by pat_completeness auto
termination
  by (relation "measure (\<lambda>(d, _, _). length d)") (auto simp: replayHeader_def)

declare readJournal_loop.simps [simp del]

definition readJournal ::
  "string \<Rightarrow> (string, replayRecord) gomap \<Rightarrow> (string, replayRecord) gomap \<times> nat \<times> access_error option" where
  "readJournal data entries =
     (if length data > replayJournalLimit * (replayHeader + maxReplayRecord) then (entries, 0, Some ErrCapacity)
      else readJournal_loop data entries 0)"

section \<open>Round trip\<close>

definition recordOk :: "replayRecord \<Rightarrow> bool" where
  "recordOk rec \<longleftrightarrow> rp_KeyID rec \<noteq> [] \<and> rp_RequestID rec \<noteq> [] \<and> list_all is_ascii (rp_KeyID rec) \<and>
     list_all is_ascii (rp_RequestID rec) \<and> list_all is_ascii (rp_BodyDigest rec) \<and>
     - (2 ^ 63) \<le> rp_ExpiresAt rec \<and> rp_ExpiresAt rec < 2 ^ 63"

lemma parse_int64_dec: "- (2 ^ 63) \<le> i \<Longrightarrow> i < 2 ^ 63 \<Longrightarrow> parse_int64 (dec_int i) = Some i"
proof (cases "i < 0")
  case True
  assume "- (2 ^ 63) \<le> i"
  with True show ?thesis by (simp add: parse_int64_def dec_int_def)
next
  case False
  assume "i < 2 ^ 63"
  obtain c t where "dec_nat (nat i) = c # t" "is_digit c" using dec_nat_head by blast
  moreover from this(2) have "c \<noteq> CHR ''-''" by (auto simp: is_digit_def)
  moreover have "parse_uint 64 (dec_nat (nat i)) = Some (nat i)" using False \<open>i < 2 ^ 63\<close> by simp
  ultimately show ?thesis using False \<open>i < 2 ^ 63\<close> by (simp add: parse_int64_def dec_int_def)
qed

lemma ascii_keys [simp]:
  "list_all is_ascii ''keyId''" "list_all is_ascii ''generation''" "list_all is_ascii ''requestId''"
  "list_all is_ascii ''bodyDigest''" "list_all is_ascii ''expiresAt''"
  by (simp_all add: is_ascii_def code_def)

lemma fold_keys [simp]:
  "foldName ''keyId'' = ''keyid''" "foldName ''generation'' = ''generation''" "foldName ''requestId'' = ''requestid''"
  "foldName ''bodyDigest'' = ''bodydigest''" "foldName ''expiresAt'' = ''expiresat''"
  by (simp_all add: code_def char_of_def bit_Suc_0_iff)

lemma json_parse_marshal:
  assumes "recordOk rec"
  shows "json_parse (marshalReplay rec) = Some (JObj
    [(''keyId'', JStr (rp_KeyID rec)), (''generation'', JNum (dec_nat (unat (rp_Generation rec)))),
     (''requestId'', JStr (rp_RequestID rec)), (''bodyDigest'', JStr (rp_BodyDigest rec)),
     (''expiresAt'', JNum (dec_int (rp_ExpiresAt rec)))])"
  unfolding marshalReplay_def using assms
  by (intro json_parse_object) (simp_all add: recordOk_def reads_string reads_dec_nat reads_dec_int,
      simp add: is_ascii_def code_def)

lemma unmarshal_marshal:
  assumes "recordOk rec"
  shows "unmarshalReplay (marshalReplay rec) = Some rec"
proof -
  have "unat (rp_Generation rec) < 2 ^ 64" using unsigned_less [of "rp_Generation rec"] by simp
  moreover have "parse_int64 (dec_int (rp_ExpiresAt rec)) = Some (rp_ExpiresAt rec)"
    using assms by (simp add: parse_int64_dec recordOk_def)
  ultimately show ?thesis
    by (simp add: unmarshalReplay_def json_parse_marshal [OF assms] setMember_def setString_def zeroReplay_def Let_def
        del: foldName.simps)
qed

lemma marshal_nonempty: "marshalReplay rec \<noteq> []"
  by (simp add: marshalReplay_def json_object_def)

lemma encode_Inr:
  assumes "encodeReplayRecord rec = Inr buf"
  obtains payload where "payload = marshalReplay rec" "length payload \<le> maxReplayRecord" "0 < length payload"
    "buf = be_bytes 4 (length payload) @ be_bytes 4 (unat (crc32c payload)) @ payload"
    "length buf = replayHeader + length payload"
  using assms marshal_nonempty [of rec]
  by (auto simp: encodeReplayRecord_def Let_def replayHeader_def split: if_splits)

lemma header_read:
  assumes "length p \<le> maxReplayRecord"
  shows "be_val (take 4 (be_bytes 4 (length p) @ x)) = length p"
    "be_val (take 4 (drop 4 (be_bytes 4 (length p) @ be_bytes 4 (unat (crc32c p)) @ x))) = unat (crc32c p)"
proof -
  have "length p < 256 ^ 4" using assms by (simp add: maxReplayRecord_def)
  then show "be_val (take 4 (be_bytes 4 (length p) @ x)) = length p" by simp
  have "unat (crc32c p) < 256 ^ 4" using unsigned_less [of "crc32c p"] by simp
  then show "be_val (take 4 (drop 4 (be_bytes 4 (length p) @ be_bytes 4 (unat (crc32c p)) @ x))) = unat (crc32c p)"
    by simp
qed

lemma read_whole:
  assumes "recordOk rec" and "encodeReplayRecord rec = Inr buf"
  shows "readJournal_loop (buf @ d) es n = readJournal_loop d (mput (replayKey rec) rec es) (Suc n)"
proof -
  from assms(2) obtain p where p: "p = marshalReplay rec" "length p \<le> maxReplayRecord" "0 < length p"
    "buf = be_bytes 4 (length p) @ be_bytes 4 (unat (crc32c p)) @ p" "length buf = replayHeader + length p"
    by (rule encode_Inr)
  define D where "D = buf @ d"
  have "be_val (take 4 D) = length p" "be_val (take 4 (drop 4 D)) = unat (crc32c p)"
    using header_read [OF p(2)] by (simp_all only: D_def p(4) append.assoc)
  moreover have "take (length p) (drop replayHeader D) = p" by (simp add: D_def p(4) replayHeader_def)
  moreover have "drop (replayHeader + length p) D = d" using p(5) by (simp add: D_def)
  moreover have "\<not> length D < replayHeader + length p" "\<not> length D < replayHeader" "D \<noteq> []"
    using p(3,5) by (auto simp: D_def)
  ultimately have "readJournal_loop D es n = readJournal_loop d (mput (replayKey rec) rec es) (Suc n)"
    using p(1-3) assms(1) unmarshal_marshal [OF assms(1)]
    by (subst readJournal_loop.simps) (simp add: Let_def recordOk_def)
  then show ?thesis by (simp add: D_def)
qed

text \<open>A record cut short at the end of the file is not an error and adds nothing.\<close>

lemma read_torn:
  assumes "encodeReplayRecord rec = Inr buf" and "k < length buf"
  shows "readJournal_loop (take k buf) es n = (es, n, None)"
proof -
  from assms(1) obtain p where p: "length p \<le> maxReplayRecord" "0 < length p"
    "buf = be_bytes 4 (length p) @ be_bytes 4 (unat (crc32c p)) @ p" "length buf = replayHeader + length p"
    by (rule encode_Inr)
  have short: "length (take k buf) = k" "torn (take k buf) = None"
    using assms(2) p(1,4) by (simp_all add: torn_def)
  show ?thesis
  proof (cases "k < replayHeader")
    case True
    with short show ?thesis by (subst readJournal_loop.simps) simp
  next
    case False
    then have "take 4 (take k buf) = take 4 buf" by (simp add: replayHeader_def)
    then have "be_val (take 4 (take k buf)) = length p" using header_read(1) [OF p(1)] p(3) by simp
    with False p(1,2,4) short assms(2) show ?thesis by (subst readJournal_loop.simps) (simp add: Let_def)
  qed
qed

lemma read_zeros:
  assumes "z \<le> replayHeader + maxReplayRecord"
  shows "readJournal_loop (replicate z CHR 0x00) es n = (es, n, None)"
proof -
  have "be_val (replicate k CHR 0x00) = 0" for k by (induction k) simp_all
  with assms show ?thesis
    by (subst readJournal_loop.simps) (simp add: Let_def torn_def allZero_def take_replicate list_all_iff)
qed

definition writable :: "replayRecord \<Rightarrow> bool" where
  "writable rec \<longleftrightarrow> recordOk rec \<and> length (marshalReplay rec) \<le> maxReplayRecord"

definition recordBytes :: "replayRecord \<Rightarrow> string" where
  "recordBytes rec = (case encodeReplayRecord rec of Inr buf \<Rightarrow> buf | Inl _ \<Rightarrow> [])"

definition journalBytes :: "replayRecord list \<Rightarrow> string" where
  "journalBytes recs = concat (map recordBytes recs)"

definition putAll :: "replayRecord list \<Rightarrow> (string, replayRecord) gomap \<Rightarrow> (string, replayRecord) gomap" where
  "putAll recs es = foldl (\<lambda>es rec. mput (replayKey rec) rec es) es recs"

definition tornTail :: "string \<Rightarrow> bool" where
  "tornTail d \<longleftrightarrow> (\<exists>rec k. writable rec \<and> k < length (recordBytes rec) \<and> d = take k (recordBytes rec)) \<or>
     (\<exists>z \<le> replayHeader + maxReplayRecord. d = replicate z CHR 0x00)"

lemma writable_encode: "writable rec \<Longrightarrow> encodeReplayRecord rec = Inr (recordBytes rec)"
  by (simp add: writable_def recordBytes_def encodeReplayRecord_def Let_def)

lemma journalBytes_Nil [simp]: "journalBytes [] = []"
  and journalBytes_append [simp]: "journalBytes (rs @ ts) = journalBytes rs @ journalBytes ts"
  and journalBytes_Cons: "journalBytes (r # rs) = recordBytes r @ journalBytes rs"
  by (simp_all add: journalBytes_def)

lemma putAll_Nil [simp]: "putAll [] es = es"
  and putAll_Cons [simp]: "putAll (r # rs) es = putAll rs (mput (replayKey r) r es)"
  and putAll_append: "putAll (rs @ ts) es = putAll ts (putAll rs es)"
  by (simp_all add: putAll_def)

lemma read_journalBytes:
  "list_all writable recs \<Longrightarrow>
   readJournal_loop (journalBytes recs @ d) es n = readJournal_loop d (putAll recs es) (n + length recs)"
proof (induction recs arbitrary: es n)
  case (Cons rec recs)
  then have "recordOk rec" "encodeReplayRecord rec = Inr (recordBytes rec)"
    by (simp_all add: writable_encode) (simp add: writable_def)
  with Cons read_whole show ?case by (simp add: journalBytes_Cons)
qed simp

lemma read_tornTail: "tornTail d \<Longrightarrow> readJournal_loop d es n = (es, n, None)"
  using read_torn read_zeros writable_encode unfolding tornTail_def by blast

text \<open>
  C10. A journal of whole records, followed by a record cut short at any byte or by a zero-filled
  end of at most one record, reads back exactly the whole records in order, with no error: a crash
  during an append loses no earlier acceptance and does not stop the next start.
\<close>

theorem journal_roundtrip:
  assumes "list_all writable recs" and "tornTail d"
    and "length (journalBytes recs @ d) \<le> replayJournalLimit * (replayHeader + maxReplayRecord)"
  shows "readJournal (journalBytes recs @ d) es = (putAll recs es, length recs, None)"
  using assms(3) read_journalBytes [OF assms(1), of d es 0] read_tornTail [OF assms(2)]
  by (simp add: readJournal_def)

definition sampleReplay :: replayRecord where
  "sampleReplay = \<lparr>rp_KeyID = ''a'', rp_Generation = 1, rp_RequestID = ''b'', rp_BodyDigest = ''c'', rp_ExpiresAt = 9\<rparr>"

lemma sampleMarshal: "length (marshalReplay sampleReplay) = 75"
  by (simp add: marshalReplay_def sampleReplay_def json_object_def json_string_def esc_ascii_def is_ascii_def code_def
     dec_int_def dec_nat.simps Let_def)

lemma sampleReplay_writable: "writable sampleReplay"
  using sampleMarshal by (simp add: writable_def recordOk_def maxReplayRecord_def)
    (simp add: sampleReplay_def is_ascii_def code_def)

lemma length_recordBytes: "writable rec \<Longrightarrow> length (recordBytes rec) = replayHeader + length (marshalReplay rec)"
  using encode_Inr writable_encode by metis

theorem journal_roundtrip_witness:
  "readJournal (journalBytes [sampleReplay] @ take 9 (recordBytes sampleReplay)) [] =
     ([(replayKey sampleReplay, sampleReplay)], 1, None)"
proof -
  have len: "length (recordBytes sampleReplay) = 83"
    using length_recordBytes [OF sampleReplay_writable] by (simp add: sampleMarshal replayHeader_def)
  then have "tornTail (take 9 (recordBytes sampleReplay))"
    unfolding tornTail_def using sampleReplay_writable by (intro disjI1 exI [of _ sampleReplay] exI [of _ 9]) simp
  then show ?thesis
    using journal_roundtrip [of "[sampleReplay]" "take 9 (recordBytes sampleReplay)" "[]"] sampleReplay_writable len
    by (simp add: journalBytes_Cons replayJournalLimit_def maxReplayEntries_def replayHeader_def)
qed

section \<open>Keys\<close>

lemma cut_at_sep:
  assumes "d \<notin> set a" and "d \<notin> set b" and "a @ d # x = b @ d # y"
  shows "a = b \<and> x = y"
  using assms by (induction a arbitrary: b) (auto simp: Cons_eq_append_conv append_eq_Cons_conv)

text \<open>
  C11. Replay keys are unambiguous: for key ids without a colon (they are hexadecimal), two records
  have the same ledger key only if they agree on key id, generation and request id.
\<close>

theorem replayKey_inject:
  assumes "CHR '':'' \<notin> set (rp_KeyID a)" and "CHR '':'' \<notin> set (rp_KeyID b)"
  shows "replayKey a = replayKey b \<longleftrightarrow>
    rp_KeyID a = rp_KeyID b \<and> rp_Generation a = rp_Generation b \<and> rp_RequestID a = rp_RequestID b"
proof
  assume "replayKey a = replayKey b"
  then have "rp_KeyID a = rp_KeyID b"
    and rest: "dec_nat (unat (rp_Generation a)) @ '':'' @ rp_RequestID a = dec_nat (unat (rp_Generation b)) @ '':'' @ rp_RequestID b"
    using cut_at_sep [OF assms] by (simp_all add: replayKey_def)
  moreover have "CHR '':'' \<notin> set (dec_nat n)" for n by (rule dec_nat_not_digit) (simp add: is_digit_def)
  ultimately have "rp_KeyID a = rp_KeyID b" "unat (rp_Generation a) = unat (rp_Generation b)" "rp_RequestID a = rp_RequestID b"
    using cut_at_sep [of "CHR '':''" "dec_nat (unat (rp_Generation a))" "dec_nat (unat (rp_Generation b))"] by simp_all
  then show "rp_KeyID a = rp_KeyID b \<and> rp_Generation a = rp_Generation b \<and> rp_RequestID a = rp_RequestID b"
    using unsigned_word_eqI by blast
qed (simp add: replayKey_def)

theorem replayKey_inject_witness:
  "replayKey sampleReplay \<noteq> replayKey (sampleReplay\<lparr>rp_RequestID := ''d''\<rparr>)"
  using replayKey_inject [of sampleReplay "sampleReplay\<lparr>rp_RequestID := ''d''\<rparr>"] by (simp add: sampleReplay_def)

end
