(* ===== verification/Replay_Ledger.thy ===== *)
theory Replay_Ledger
  imports Replay_Codec Access_Authority "HOL-Library.Product_Lexorder"
begin

text \<open>
  The replay ledger of \<^verbatim>\<open>internal/access/replay_journal.go\<close>: the in-memory entries every
  decision is taken on, the snapshot and the journal files on disk, and the operations over them.
  Each operation is cut where the source releases its locks (\<^verbatim>\<open>acceptReplay\<close> decides under
  \<^verbatim>\<open>replayMu\<close> and appends under a shard lock; \<^verbatim>\<open>compactReplay\<close> rotates with every
  lock held and commits, deletes and accounts without), so that \<^verbatim>\<open>Replay_Machine\<close> can
  interleave the pieces; the whole operations are their sequential compositions.
\<close>

section \<open>Journal names\<close>

definition replayJournalName :: string where "replayJournalName = ''replay.journal''"

definition journalName :: "nat \<Rightarrow> nat \<Rightarrow> string" where
  "journalName gen shard = replayJournalName @ ''.'' @ dec_nat gen @ ''.'' @ dec_nat shard"

definition cutPrefix :: "string \<Rightarrow> string \<Rightarrow> string option" where
  "cutPrefix p s = (if take (length p) s = p then Some (drop (length p) s) else None)"

text \<open>\<^verbatim>\<open>strings.Cut\<close> at the first dot: the parts and whether it was found.\<close>

definition cutDot :: "string \<Rightarrow> string \<times> string \<times> bool" where
  "cutDot s = (takeWhile (\<lambda>c. c \<noteq> CHR ''.'') s, drop 1 (dropWhile (\<lambda>c. c \<noteq> CHR ''.'') s), CHR ''.'' \<in> set s)"

text \<open>\<^verbatim>\<open>strconv.Atoi\<close>.\<close>

definition atoi :: "string \<Rightarrow> int option" where
  "atoi s = (case s of
     c # t \<Rightarrow> if c = CHR ''+'' then (case t of d # _ \<Rightarrow> if is_digit d then parse_int64 t else None | [] \<Rightarrow> None)
             else parse_int64 s
   | [] \<Rightarrow> None)"

definition journalGeneration :: "string \<Rightarrow> nat option" where
  "journalGeneration name =
     (case cutPrefix (replayJournalName @ ''.'') name of
        None \<Rightarrow> None
      | Some rest \<Rightarrow>
          (case cutDot rest of (genText, _, ok) \<Rightarrow>
             (case parse_uint 64 genText of Some gen \<Rightarrow> if ok then Some gen else None | None \<Rightarrow> None)))"

text \<open>One directory entry of \<^verbatim>\<open>journalFiles\<close>: skipped, refused, or a journal.\<close>

definition journalEntry :: "string \<Rightarrow> access_error + (nat \<times> nat) option" where
  "journalEntry name =
     (case cutPrefix (replayJournalName @ ''.'') name of
        None \<Rightarrow> Inr None
      | Some rest \<Rightarrow>
          (case cutDot rest of (genText, shardText, ok) \<Rightarrow>
             (case (parse_uint 64 genText, atoi shardText) of
                (Some gen, Some shard) \<Rightarrow>
                  if \<not> ok \<or> shard < 0 \<or> shard \<ge> int replayShards then Inl (ErrIO ''unexpected replay journal'')
                  else Inr (Some (gen, nat shard))
              | _ \<Rightarrow> Inl (ErrIO ''unexpected replay journal''))))"

fun journalEntries :: "string list \<Rightarrow> access_error + ((nat \<times> nat) \<times> string) list" where
  "journalEntries [] = Inr []"
| "journalEntries (name # names) =
     (case journalEntry name of
        Inl e \<Rightarrow> Inl e
      | Inr f \<Rightarrow>
          (case journalEntries names of
             Inl e \<Rightarrow> Inl e
           | Inr fs \<Rightarrow> Inr (case f of None \<Rightarrow> fs | Some gs \<Rightarrow> (gs, name) # fs)))"

definition journalFiles :: "string list \<Rightarrow> access_error + string list" where
  "journalFiles names =
     (case journalEntries names of Inl e \<Rightarrow> Inl e | Inr fs \<Rightarrow> Inr (map snd (sort_key fst fs)))"

section \<open>State\<close>

definition clockSkew :: int where "clockSkew = 5 * 1000000000"

type_synonym entries = "(string, replayRecord) gomap"

record replayLedger =
  lg_entries :: entries
  lg_snapshot :: entries
  lg_files :: "(string, string) gomap"
  lg_gen :: nat
  lg_installed :: bool
  lg_closed :: bool
  lg_records :: int
  lg_wake :: bool

definition cutoff :: "int \<Rightarrow> int" where "cutoff now = UnixMilli (now - clockSkew)"

definition unexpiredReplay :: "int \<Rightarrow> entries \<Rightarrow> entries" where
  "unexpiredReplay now es = mkeep (\<lambda>k rec. cutoff now \<le> rp_ExpiresAt rec) es"

section \<open>Accepting a request\<close>

text \<open>The part of \<^verbatim>\<open>acceptReplay\<close> under \<^verbatim>\<open>replayMu\<close>.\<close>

definition acceptDecide :: "int \<Rightarrow> replayRecord \<Rightarrow> replayLedger \<Rightarrow> replayLedger \<times> access_error option" where
  "acceptDecide now rec L =
     (let key = replayKey rec
      in if map_of (lg_entries L) key \<noteq> None then (L, Some ErrReplay)
         else (let es = (if length (lg_entries L) \<ge> maxReplayEntries
                         then mkeep (\<lambda>k r. \<not> rp_ExpiresAt r < cutoff now) (lg_entries L)
                         else lg_entries L);
                   L1 = L\<lparr>lg_entries := es\<rparr>
               in if length es \<ge> maxReplayEntries \<or> lg_records L \<ge> int replayJournalLimit
                  then (L1, Some ErrCapacity)
                  else (L1\<lparr>lg_entries := mput key rec es\<rparr>, None)))"

text \<open>
  The results of a write and a sync: a failed write has put the given number of bytes into the file.
\<close>

record append_io =
  ai_write :: "(nat \<times> access_error) option"
  ai_sync :: "access_error option"

definition shardFile :: "replayRecord \<Rightarrow> replayLedger \<Rightarrow> string" where
  "shardFile rec L = journalName (lg_gen L) (shardFor (rp_KeyID rec))"

definition appendBytes :: "string \<Rightarrow> string \<Rightarrow> replayLedger \<Rightarrow> replayLedger" where
  "appendBytes name buf L = L\<lparr>lg_files := mput name (mget0 [] (lg_files L) name @ buf) (lg_files L)\<rparr>"

definition journalAppend :: "append_io \<Rightarrow> replayRecord \<Rightarrow> replayLedger \<Rightarrow> replayLedger \<times> access_error option" where
  "journalAppend io rec L =
     (case encodeReplayRecord rec of
        Inl e \<Rightarrow> (L, Some e)
      | Inr buf \<Rightarrow>
          if \<not> lg_installed L then
            (if lg_closed L then (L, Some ErrAuthorityClosed) else (L\<lparr>lg_wake := True\<rparr>, Some ErrJournal))
          else (case ai_write io of
              Some (k, e) \<Rightarrow> (appendBytes (shardFile rec L) (take k buf) L, Some e)
            | None \<Rightarrow>
                (let L1 = appendBytes (shardFile rec L) buf L
                 in case ai_sync io of
                      Some e \<Rightarrow> (L1, Some e)
                    | None \<Rightarrow>
                        (let n = lg_records L + 1
                         in (L1\<lparr>lg_records := n, lg_wake := (lg_wake L \<or> n \<ge> int replayCompactAfter)\<rparr>, None)))))"

definition acceptReplay ::
  "append_io \<Rightarrow> int \<Rightarrow> replayRecord \<Rightarrow> replayLedger \<Rightarrow> replayLedger \<times> access_error option" where
  "acceptReplay io now rec L =
     (case acceptDecide now rec L of
        (L1, Some e) \<Rightarrow> (L1, Some e)
      | (L1, None) \<Rightarrow> journalAppend io rec L1)"

section \<open>Starting journals\<close>

text \<open>
  \<open>cs_fail\<close> is the number of shards created before an open fails, if one does. A file that exists
  already fails the exclusive create.
\<close>

record shards_io =
  cs_fail :: "(nat \<times> access_error) option"
  cs_sync :: "access_error option"

fun createFiles :: "nat \<Rightarrow> nat list \<Rightarrow> (nat \<times> access_error) option \<Rightarrow> (string, string) gomap \<Rightarrow>
    (string, string) gomap \<times> access_error option" where
  "createFiles gen [] failing fs = (fs, None)"
| "createFiles gen (i # is) failing fs =
     (case failing of
        Some (0, e) \<Rightarrow> (fs, Some e)
      | _ \<Rightarrow>
          if map_of fs (journalName gen i) \<noteq> None then (fs, Some (ErrIO ''file exists''))
          else createFiles gen is (map_option (\<lambda>(n, e). (n - 1, e)) failing) (mput (journalName gen i) [] fs))"

definition createShards :: "shards_io \<Rightarrow> replayLedger \<Rightarrow> replayLedger \<times> access_error option" where
  "createShards io L =
     (case createFiles (lg_gen L) [0..<replayShards] (cs_fail io) (lg_files L) of
        (fs, Some e) \<Rightarrow> (L\<lparr>lg_files := fs\<rparr>, Some e)
      | (fs, None) \<Rightarrow>
          (case cs_sync io of
             Some e \<Rightarrow> (L\<lparr>lg_files := fs\<rparr>, Some e)
           | None \<Rightarrow> (L\<lparr>lg_files := fs, lg_installed := True\<rparr>, None)))"

definition closeShards :: "replayLedger \<Rightarrow> replayLedger" where
  "closeShards L = L\<lparr>lg_installed := False\<rparr>"

section \<open>Compaction\<close>

text \<open>
  The rotation, with the ledger and every shard locked: the snapshot to write, the number of
  journaled records it covers and the last generation it covers.
\<close>

definition compactRotate ::
  "int \<Rightarrow> shards_io \<Rightarrow> replayLedger \<Rightarrow> replayLedger \<times> (access_error + entries \<times> int \<times> nat)" where
  "compactRotate now io L =
     (let snapshot = unexpiredReplay now (lg_entries L); rotated = lg_records L; old = lg_gen L
      in if lg_closed L then (L, Inl ErrAuthorityClosed)
         else (case createShards io ((closeShards L)\<lparr>lg_gen := Suc (lg_gen L)\<rparr>) of
             (L1, Some e) \<Rightarrow> (L1, Inl e)
           | (L1, None) \<Rightarrow> (L1, Inr (snapshot, rotated, old))))"

text \<open>The snapshot is on disk as soon as its rename has happened, even when a later step fails.\<close>

definition commitSnapshot ::
  "bool \<times> access_error option \<Rightarrow> entries \<Rightarrow> replayLedger \<Rightarrow> replayLedger \<times> access_error option" where
  "commitSnapshot out snapshot L =
     (case out of (committed, err) \<Rightarrow> (if committed then L\<lparr>lg_snapshot := snapshot\<rparr> else L, err))"

lemma commitSnapshot_None:
  assumes "commitSnapshot (atomicJSONCommit n io) snapshot L = (L', None)"
  shows "L' = L\<lparr>lg_snapshot := snapshot\<rparr>"
  using assms not_committed_error [of n io]
  by (cases "atomicJSONCommit n io") (auto simp: commitSnapshot_def split: if_splits)

lemma commitSnapshot_cases:
  assumes "commitSnapshot out snapshot L = (L', e)"
  shows "L' = L \<or> L' = L\<lparr>lg_snapshot := snapshot\<rparr>"
  using assms by (auto simp: commitSnapshot_def split: prod.splits if_splits)

text \<open>The removal loop: \<open>failing\<close> counts the removals that succeed before one does not.\<close>

fun removeOld :: "nat \<Rightarrow> string list \<Rightarrow> (nat \<times> access_error) option \<Rightarrow> replayLedger \<Rightarrow> replayLedger \<times> access_error option" where
  "removeOld old [] failing L = (L, None)"
| "removeOld old (name # names) failing L =
     (case journalGeneration name of
        Some gen \<Rightarrow>
          if gen \<le> old then
            (case failing of
               Some (0, e) \<Rightarrow> (L, Some e)
             | _ \<Rightarrow> removeOld old names (map_option (\<lambda>(n, e). (n - 1, e)) failing) (L\<lparr>lg_files := mdel name (lg_files L)\<rparr>))
          else removeOld old names failing L
      | None \<Rightarrow> removeOld old names failing L)"

record compact_io =
  cp_shards :: shards_io
  cp_len :: nat
  cp_commit :: commit_io
  cp_list :: "access_error option"
  cp_remove :: "(nat \<times> access_error) option"
  cp_sync :: "access_error option"

definition compactDelete :: "compact_io \<Rightarrow> nat \<Rightarrow> replayLedger \<Rightarrow> replayLedger \<times> access_error option" where
  "compactDelete io old L =
     (case cp_list io of
        Some e \<Rightarrow> (L, Some e)
      | None \<Rightarrow>
          (case journalFiles (map fst (lg_files L)) of
             Inl e \<Rightarrow> (L, Some e)
           | Inr names \<Rightarrow> removeOld old names (cp_remove io) L))"

definition compactReplay :: "int \<Rightarrow> compact_io \<Rightarrow> replayLedger \<Rightarrow> replayLedger \<times> access_error option" where
  "compactReplay now io L =
     (case compactRotate now (cp_shards io) L of
        (L1, Inl e) \<Rightarrow> (L1, Some e)
      | (L1, Inr (snapshot, rotated, old)) \<Rightarrow>
          (case commitSnapshot (atomicJSONCommit (cp_len io) (cp_commit io)) snapshot L1 of
             (L2, Some e) \<Rightarrow> (L2, Some e)
           | (L2, None) \<Rightarrow>
               (case compactDelete io old L2 of
                  (L3, Some e) \<Rightarrow> (L3, Some e)
                | (L3, None) \<Rightarrow> (L3\<lparr>lg_records := lg_records L3 - rotated\<rparr>, cp_sync io))))"

section \<open>Recovery and closing\<close>

text \<open>The loop of \<^verbatim>\<open>recoverReplay\<close> over the journals, oldest first.\<close>

fun readJournals :: "(string, string) gomap \<Rightarrow> string list \<Rightarrow> entries \<Rightarrow> access_error + entries" where
  "readJournals fs [] es = Inr es"
| "readJournals fs (name # names) es =
     (case readJournal (mget0 [] fs name) es of
        (es', n, Some e) \<Rightarrow> Inl e
      | (es', n, None) \<Rightarrow> readJournals fs names es')"

fun removeAllFiles :: "string list \<Rightarrow> (nat \<times> access_error) option \<Rightarrow> replayLedger \<Rightarrow> replayLedger \<times> access_error option" where
  "removeAllFiles [] failing L = (L, None)"
| "removeAllFiles (name # names) failing L =
     (case failing of
        Some (0, e) \<Rightarrow> (L, Some e)
      | _ \<Rightarrow> removeAllFiles names (map_option (\<lambda>(n, e). (n - 1, e)) failing) (L\<lparr>lg_files := mdel name (lg_files L)\<rparr>))"

text \<open>What \<^verbatim>\<open>open\<close> starts from: the snapshot it read, and the files it finds.\<close>

definition openedLedger :: "replayLedger \<Rightarrow> replayLedger" where
  "openedLedger disk = disk\<lparr>lg_entries := lg_snapshot disk, lg_gen := 1, lg_installed := False,
     lg_closed := False, lg_records := 0, lg_wake := False\<rparr>"

definition recoverReplay :: "int \<Rightarrow> compact_io \<Rightarrow> replayLedger \<Rightarrow> replayLedger \<times> access_error option" where
  "recoverReplay now io disk =
     (let L = openedLedger disk
      in case cp_list io of
           Some e \<Rightarrow> (L, Some e)
         | None \<Rightarrow>
             (case journalFiles (map fst (lg_files L)) of
                Inl e \<Rightarrow> (L, Some e)
              | Inr names \<Rightarrow>
                  (case readJournals (lg_files L) names (lg_entries L) of
                     Inl e \<Rightarrow> (L, Some e)
                   | Inr es \<Rightarrow>
                       (let L1 = L\<lparr>lg_entries := unexpiredReplay now es\<rparr>
                        in if names = [] then createShards (cp_shards io) L1
                           else (case commitSnapshot (atomicJSONCommit (cp_len io) (cp_commit io)) (lg_entries L1) L1 of
                               (L2, Some e) \<Rightarrow> (L2, Some e)
                             | (L2, None) \<Rightarrow>
                                 (case removeAllFiles names (cp_remove io) L2 of
                                    (L3, Some e) \<Rightarrow> (L3, Some e)
                                  | (L3, None) \<Rightarrow> createShards (cp_shards io) L3))))))"

definition closeReplay :: "replayLedger \<Rightarrow> replayLedger" where
  "closeReplay L = closeShards (L\<lparr>lg_closed := True\<rparr>)"

end
