(* ===== verification/Access_Request.thy ===== *)
theory Access_Request
  imports Access_Lifecycle Replay_Ledger
begin

text \<open>
  Signed requests (\<^verbatim>\<open>SignRequest\<close>, \<^verbatim>\<open>signingBytes\<close> and \<^verbatim>\<open>Verify\<close> of
  \<^verbatim>\<open>internal/access/authority.go\<close>): what is signed, how a request id is made, and the checks
  a request passes before its ledger entry is consumed. This is where the credential registry and
  the replay ledger meet.
\<close>

section \<open>Definitions\<close>

definition MaxBodyBytes :: nat where "MaxBodyBytes = 64 * 2 ^ 10"
definition MaxRequestAge :: int where "MaxRequestAge = 30 * 1000000000"

record SignedRequest =
  sr_Protocol :: int
  sr_BootID :: string
  sr_KeyID :: string
  sr_Generation :: "64 word"
  sr_RequestID :: string
  sr_IssuedAt :: int
  sr_ExpiresAt :: int
  sr_Body :: string
  sr_Signature :: string

definition validHexID :: "string \<Rightarrow> nat \<Rightarrow> bool" where
  "validHexID s bytes = (if length s \<noteq> bytes * 2 then False else hex_decode s \<noteq> None)"

definition signedParts :: "world \<Rightarrow> SignedRequest \<Rightarrow> string list" where
  "signedParts W req =
     [''amux-access-request-v1'', sr_BootID req, sr_KeyID req, dec_nat (unat (sr_Generation req)), sr_RequestID req,
      dec_int (sr_IssuedAt req), dec_int (sr_ExpiresAt req), w_sha256 W (sr_Body req)]"

definition framed :: "string list \<Rightarrow> string" where
  "framed parts = concat (map (\<lambda>part. be_bytes 8 (length part) @ part) parts)"

definition signingBytes :: "world \<Rightarrow> SignedRequest \<Rightarrow> string" where
  "signingBytes W req = framed (signedParts W req)"

text \<open>The low 48 bits of the milliseconds, big endian, then ten random bytes.\<close>

definition requestNonce :: "int \<Rightarrow> string \<Rightarrow> string" where
  "requestNonce now random = be_bytes 6 (nat (UnixMilli now mod 2 ^ 64)) @ random"

definition SignRequest ::
  "world \<Rightarrow> Credential \<Rightarrow> string \<Rightarrow> string \<Rightarrow> int \<Rightarrow> access_error + string \<Rightarrow> access_error + SignedRequest" where
  "SignRequest W cred bootID body now random =
     (if body = [] \<or> length body > MaxBodyBytes \<or> \<not> validHexID bootID 32 then Inl ErrInvalidCredential
      else (case b64_decode (cd_PrivateKey cred) of
          None \<Rightarrow> Inl ErrInvalidCredential
        | Some priv \<Rightarrow>
            if length priv \<noteq> 64 then Inl ErrInvalidCredential
            else (case random of
                Inl e \<Rightarrow> Inl e
              | Inr rnd \<Rightarrow>
                  (let req = \<lparr>sr_Protocol = ProtocolVersion, sr_BootID = bootID, sr_KeyID = cd_KeyID cred,
                         sr_Generation = cd_Generation cred, sr_RequestID = hex_encode (requestNonce now rnd),
                         sr_IssuedAt = UnixMilli now, sr_ExpiresAt = UnixMilli (now + MaxRequestAge),
                         sr_Body = body, sr_Signature = []\<rparr>
                   in Inr (req\<lparr>sr_Signature := b64_encode (w_sign W priv (signingBytes W req))\<rparr>)))))"

text \<open>\<^verbatim>\<open>time.UnixMilli\<close>.\<close>

definition atMilli :: "int \<Rightarrow> int" where "atMilli ms = ms * 1000000"

definition LoadCredential :: "access_error + Credential \<Rightarrow> access_error + Credential" where
  "LoadCredential rd =
     (case rd of Inl e \<Rightarrow> Inl e | Inr cred \<Rightarrow> if cd_Protocol cred \<noteq> ProtocolVersion then Inl ErrInvalidCredential else Inr cred)"

definition badShape :: "FileAuthority \<Rightarrow> SignedRequest \<Rightarrow> bool" where
  "badShape a req \<longleftrightarrow> sr_Protocol req \<noteq> ProtocolVersion \<or> sr_BootID req \<noteq> fa_bootID a \<or>
     \<not> validHexID (sr_RequestID req) 16 \<or> sr_Body req = [] \<or> length (sr_Body req) > MaxBodyBytes"

definition badTimes :: "int \<Rightarrow> SignedRequest \<Rightarrow> bool" where
  "badTimes now req \<longleftrightarrow>
     (let issued = atMilli (sr_IssuedAt req); expires = atMilli (sr_ExpiresAt req)
      in expires < now - clockSkew \<or> issued > now + clockSkew \<or> expires < issued \<or> expires - issued > MaxRequestAge)"

definition replayOf :: "world \<Rightarrow> SignedRequest \<Rightarrow> replayRecord" where
  "replayOf W req = \<lparr>rp_KeyID = sr_KeyID req, rp_Generation = sr_Generation req, rp_RequestID = sr_RequestID req,
     rp_BodyDigest = hex_encode (w_sha256 W (sr_Body req)), rp_ExpiresAt = sr_ExpiresAt req\<rparr>"

definition Verify ::
  "world \<Rightarrow> int \<Rightarrow> append_io \<Rightarrow> FileAuthority \<Rightarrow> replayLedger \<Rightarrow> SignedRequest \<Rightarrow>
   replayLedger \<times> (access_error + Principal)" where
  "Verify W now io a L req =
     (if badShape a req then (L, Inl ErrInvalidCredential)
      else if badTimes now req then (L, Inl ErrExpired)
      else if \<not> fa_open a then (L, Inl ErrAuthorityClosed)
      else (case map_of (rf_Records (fa_registry a)) (sr_KeyID req) of
          None \<Rightarrow> (L, Inl ErrInvalidCredential)
        | Some rec \<Rightarrow>
            if cr_Generation rec \<noteq> sr_Generation req \<or>
               currentOf (fa_registry a) (cr_Kind rec) (cr_SubjectID rec) \<noteq> sr_KeyID req
            then (L, Inl ErrInvalidCredential)
            else if cr_RevokedAt rec \<noteq> 0 then (L, Inl ErrRevoked)
            else if cr_NotAfter rec \<le> UnixMilli now then (L, Inl ErrInvalidCredential)
            else (case b64_decode (cr_PublicKey rec) of
                None \<Rightarrow> (L, Inl ErrInvalidCredential)
              | Some pub \<Rightarrow>
                  if length pub \<noteq> 32 then (L, Inl ErrInvalidCredential)
                  else (case b64_decode (sr_Signature req) of
                      None \<Rightarrow> (L, Inl ErrInvalidCredential)
                    | Some sig \<Rightarrow>
                        if \<not> w_verify W pub (signingBytes W req) sig then (L, Inl ErrInvalidCredential)
                        else (case acceptReplay io now (replayOf W req) L of
                            (L1, Some e) \<Rightarrow> (L1, Inl e)
                          | (L1, None) \<Rightarrow>
                              (L1, Inr \<lparr>p_KeyID = cr_KeyID rec, p_SubjectID = cr_SubjectID rec,
                                        p_Kind = cr_Kind rec, p_Generation = cr_Generation rec\<rparr>))))))"

section \<open>The signed bytes are unambiguous\<close>

lemma framed_Cons: "framed (p # ps) = be_bytes 8 (length p) @ p @ framed ps"
  by (simp add: framed_def)

lemma framed_inject:
  "length ps = length qs \<Longrightarrow> list_all (\<lambda>p. length p < 256 ^ 8) ps \<Longrightarrow> list_all (\<lambda>p. length p < 256 ^ 8) qs \<Longrightarrow>
   framed ps = framed qs \<longleftrightarrow> ps = qs"
proof (induction ps qs rule: list_induct2)
  case (Cons p ps q qs)
  have "p = q \<and> framed ps = framed qs" if "framed (p # ps) = framed (q # qs)"
  proof -
    from that have "be_bytes 8 (length p) = be_bytes 8 (length q)" and rest: "p @ framed ps = q @ framed qs"
      by (simp_all add: framed_Cons)
    moreover have "length p < 256 ^ 8" "length q < 256 ^ 8" using Cons.prems by simp_all
    ultimately have "length p = length q" using be_bytes_inject by blast
    with rest show ?thesis by simp
  qed
  with Cons show ?case by auto
qed simp

text \<open>
  C15. The signed bytes determine what was signed: two requests with the same signing bytes agree on
  boot id, key id, generation, request id, both times and the digest of the body. No field can be
  shifted into its neighbour.
\<close>

theorem signingBytes_inject:
  assumes "list_all (\<lambda>p. length p < 256 ^ 8) (signedParts W r1)" and "list_all (\<lambda>p. length p < 256 ^ 8) (signedParts W r2)"
    and "signingBytes W r1 = signingBytes W r2"
  shows "sr_BootID r1 = sr_BootID r2 \<and> sr_KeyID r1 = sr_KeyID r2 \<and> sr_Generation r1 = sr_Generation r2 \<and>
    sr_RequestID r1 = sr_RequestID r2 \<and> sr_IssuedAt r1 = sr_IssuedAt r2 \<and> sr_ExpiresAt r1 = sr_ExpiresAt r2 \<and>
    w_sha256 W (sr_Body r1) = w_sha256 W (sr_Body r2)"
proof -
  have "signedParts W r1 = signedParts W r2"
    using assms framed_inject [of "signedParts W r1" "signedParts W r2"] by (simp add: signingBytes_def signedParts_def)
  then have rest: "sr_BootID r1 = sr_BootID r2 \<and> sr_KeyID r1 = sr_KeyID r2 \<and> unat (sr_Generation r1) = unat (sr_Generation r2) \<and>
    sr_RequestID r1 = sr_RequestID r2 \<and> sr_IssuedAt r1 = sr_IssuedAt r2 \<and> sr_ExpiresAt r1 = sr_ExpiresAt r2 \<and>
    w_sha256 W (sr_Body r1) = w_sha256 W (sr_Body r2)"
    by (simp add: signedParts_def)
  then have "sr_Generation r1 = sr_Generation r2" using unsigned_word_eqI by blast
  with rest show ?thesis by simp
qed

definition sampleRequest :: SignedRequest where
  "sampleRequest = \<lparr>sr_Protocol = 1, sr_BootID = ''b'', sr_KeyID = ''k'', sr_Generation = 1, sr_RequestID = ''r'',
     sr_IssuedAt = 1, sr_ExpiresAt = 2, sr_Body = ''x'', sr_Signature = []\<rparr>"

theorem signingBytes_inject_witness:
  "signingBytes sampleWorld sampleRequest \<noteq> signingBytes sampleWorld (sampleRequest\<lparr>sr_BootID := ''bk'', sr_KeyID := []\<rparr>)"
proof
  assume same: "signingBytes sampleWorld sampleRequest = signingBytes sampleWorld (sampleRequest\<lparr>sr_BootID := ''bk'', sr_KeyID := []\<rparr>)"
  have small: "list_all (\<lambda>p. length p < 256 ^ 8) (signedParts sampleWorld r)"
    if "length (sr_BootID r) < 9" "length (sr_KeyID r) < 9" "sr_RequestID r = ''r''" "sr_IssuedAt r = 1" "sr_ExpiresAt r = 2"
      "sr_Generation r = 1" "sr_Body r = ''x''" for r
    using that by (simp add: signedParts_def sampleWorld_def dec_nat.simps dec_int_def)
  have "sr_BootID sampleRequest = sr_BootID (sampleRequest\<lparr>sr_BootID := ''bk'', sr_KeyID := []\<rparr>)"
    using signingBytes_inject [OF small small same] by (simp add: sampleRequest_def)
  then show False by (simp add: sampleRequest_def)
qed

section \<open>Request ids keep their order\<close>

text \<open>
  C16. A mailbox serves request files in name order, and ids are made so that this is the order of
  issue: of two requests signed in different milliseconds (before the year 10889), the earlier one
  has the smaller id, whatever their random parts.
\<close>

theorem request_ids_in_issue_order:
  assumes "SignRequest W c1 b1 body1 t1 (Inr rnd1) = Inr r1" and "SignRequest W c2 b2 body2 t2 (Inr rnd2) = Inr r2"
    and "length rnd1 = 10" and "length rnd2 = 10"
    and "0 \<le> UnixMilli t1" and "UnixMilli t1 < UnixMilli t2" and "UnixMilli t2 < 2 ^ 48"
  shows "sr_RequestID r1 < sr_RequestID r2"
proof -
  let ?m1 = "nat (UnixMilli t1 mod 2 ^ 64)" and ?m2 = "nat (UnixMilli t2 mod 2 ^ 64)"
  have "UnixMilli t1 mod 2 ^ 64 = UnixMilli t1" "UnixMilli t2 mod 2 ^ 64 = UnixMilli t2"
    using assms(5-7) by (auto intro!: mod_pos_pos_trivial)
  then have "?m1 < ?m2" "?m1 < 256 ^ 6" "?m2 < 256 ^ 6" using assms(5-7) by auto
  then have "be_bytes 6 ?m1 < be_bytes 6 ?m2" using be_bytes_less by blast
  then have "requestNonce t1 rnd1 < requestNonce t2 rnd2"
    by (auto simp: requestNonce_def list_less_def lexord_append_leftI intro: lexord_sufI)
  moreover have "length (requestNonce t1 rnd1) = length (requestNonce t2 rnd2)" using assms(3,4) by (simp add: requestNonce_def)
  moreover have "sr_RequestID r1 = hex_encode (requestNonce t1 rnd1)" "sr_RequestID r2 = hex_encode (requestNonce t2 rnd2)"
    using assms(1,2) by (auto simp: SignRequest_def Let_def split: if_splits option.splits)
  ultimately show ?thesis using hex_encode_less by simp
qed

definition sampleCredential :: Credential where
  "sampleCredential = issuedCredential sampleWorld sampleStart 5000000 SubjectSession ''s'' 1 (replicate 32 CHR ''a'')"

definition sampleBoot :: string where "sampleBoot = hex_encode (replicate 32 CHR ''b'')"

lemma sampleCredential_key:
  obtains priv where "b64_decode (cd_PrivateKey sampleCredential) = Some priv" "length priv = 64"
  by (rule that [of "privOf sampleWorld (replicate 32 CHR ''a'')"])
    (simp_all add: sampleCredential_def issuedCredential_def b64_decode_encode privOf_def sampleWorld_def)

lemma sampleBoot_valid: "validHexID sampleBoot 32"
  by (simp add: validHexID_def sampleBoot_def)

lemma sampleSigned:
  obtains r where "SignRequest sampleWorld sampleCredential sampleBoot ''x'' t (Inr rnd) = Inr r"
proof -
  obtain priv where "b64_decode (cd_PrivateKey sampleCredential) = Some priv" "length priv = 64"
    by (rule sampleCredential_key)
  then show ?thesis using that sampleBoot_valid by (simp add: SignRequest_def MaxBodyBytes_def Let_def)
qed

theorem request_ids_in_issue_order_witness:
  "\<exists>r1 r2. SignRequest sampleWorld sampleCredential sampleBoot ''x'' 6000000 (Inr (replicate 10 CHR ''z'')) = Inr r1 \<and>
     SignRequest sampleWorld sampleCredential sampleBoot ''x'' 7000000 (Inr (replicate 10 CHR ''a'')) = Inr r2 \<and>
     sr_RequestID r1 < sr_RequestID r2"
proof -
  obtain r1 where 1: "SignRequest sampleWorld sampleCredential sampleBoot ''x'' 6000000 (Inr (replicate 10 CHR ''z'')) = Inr r1"
    by (rule sampleSigned)
  obtain r2 where 2: "SignRequest sampleWorld sampleCredential sampleBoot ''x'' 7000000 (Inr (replicate 10 CHR ''a'')) = Inr r2"
    by (rule sampleSigned)
  have "sr_RequestID r1 < sr_RequestID r2"
    by (rule request_ids_in_issue_order [OF 1 2]) (simp_all add: UnixMilli_def)
  with 1 2 show ?thesis by blast
qed

section \<open>What a verified request has passed\<close>

lemma accepted_entry:
  assumes "acceptReplay io now rec L = (L', None)"
  shows "map_of (lg_entries L) (replayKey rec) = None" and "map_of (lg_entries L') (replayKey rec) = Some rec"
  using assms by (auto simp: acceptReplay_def acceptDecide_def journalAppend_def appendBytes_def Let_def
      split: prod.splits option.splits sum.splits if_splits)

lemma Verify_Inr:
  assumes "Verify W now io a L req = (L', Inr p)"
  obtains rec pub sig where "\<not> badShape a req" "\<not> badTimes now req" "fa_open a"
    "map_of (rf_Records (fa_registry a)) (sr_KeyID req) = Some rec" "cr_Generation rec = sr_Generation req"
    "currentOf (fa_registry a) (cr_Kind rec) (cr_SubjectID rec) = sr_KeyID req" "cr_RevokedAt rec = 0"
    "UnixMilli now < cr_NotAfter rec" "b64_decode (cr_PublicKey rec) = Some pub" "length pub = 32"
    "b64_decode (sr_Signature req) = Some sig" "w_verify W pub (signingBytes W req) sig"
    "acceptReplay io now (replayOf W req) L = (L', None)"
    "p = \<lparr>p_KeyID = cr_KeyID rec, p_SubjectID = cr_SubjectID rec, p_Kind = cr_Kind rec, p_Generation = cr_Generation rec\<rparr>"
  using assms by (auto simp: Verify_def split: if_splits option.splits prod.splits)

text \<open>
  C17. A request that \<^verbatim>\<open>Verify\<close> accepts names a principal that is valid at that moment, carries
  a signature of exactly its own bytes under that principal's registered key, was made for this
  boot of the daemon, is inside the time window, and has just consumed a ledger entry that did not
  exist before.
\<close>

theorem Verify_sound:
  assumes "ready a" and "Verify W now io a L req = (L', Inr p)"
  shows "Valid now a p = None \<and> p_KeyID p = sr_KeyID req \<and> p_Generation p = sr_Generation req \<and>
    (\<exists>rec pub sig. map_of (rf_Records (fa_registry a)) (p_KeyID p) = Some rec \<and> b64_decode (cr_PublicKey rec) = Some pub \<and>
       b64_decode (sr_Signature req) = Some sig \<and> w_verify W pub (signingBytes W req) sig) \<and>
    sr_BootID req = fa_bootID a \<and> 0 < length (sr_Body req) \<and> length (sr_Body req) \<le> MaxBodyBytes \<and>
    atMilli (sr_IssuedAt req) \<le> now + clockSkew \<and> now - clockSkew \<le> atMilli (sr_ExpiresAt req) \<and>
    atMilli (sr_ExpiresAt req) - atMilli (sr_IssuedAt req) \<le> MaxRequestAge \<and>
    map_of (lg_entries L) (replayKey (replayOf W req)) = None \<and>
    map_of (lg_entries L') (replayKey (replayOf W req)) = Some (replayOf W req)"
  using assms(2)
proof (cases rule: Verify_Inr)
  case (1 rec pub sig)
  have inv: "reg_inv (fa_registry a)" "auth_inv a" using assms(1) ready_reg_inv by (auto simp: ready_def)
  have key: "cr_KeyID rec = sr_KeyID req" using reg_inv_keyID [OF inv(1) 1(4)] .
  have "validIn (fa_registry a) now p = None"
    unfolding validIn_None_iff [OF inv(1)] using 1 key by auto
  then have "Valid now a p = None" using Valid_open [OF inv(2) 1(3)] by simp
  with 1 key accepted_entry [OF 1(13)] show ?thesis by (auto simp: badShape_def badTimes_def Let_def)
qed

definition sampleSystem :: FileAuthority where
  "sampleSystem = sampleIssued\<lparr>fa_bootID := sampleBoot\<rparr>"

definition sampleLedger :: replayLedger where
  "sampleLedger = \<lparr>lg_entries = [], lg_snapshot = [], lg_files = [], lg_gen = 0, lg_installed = True, lg_closed = False,
     lg_records = 0, lg_wake = False\<rparr>"

definition okAppend :: append_io where "okAppend = \<lparr>ai_write = None, ai_sync = None\<rparr>"

definition sampleSent :: SignedRequest where
  "sampleSent = (case SignRequest sampleWorld sampleCredential sampleBoot ''x'' 6000000 (Inr (replicate 10 CHR ''z'')) of
     Inr r \<Rightarrow> r | Inl _ \<Rightarrow> sampleRequest)"

lemma sampleSent_signed:
  "SignRequest sampleWorld sampleCredential sampleBoot ''x'' 6000000 (Inr (replicate 10 CHR ''z'')) = Inr sampleSent"
  by (rule sampleSigned [of 6000000 "replicate 10 CHR ''z''"]) (simp add: sampleSent_def)

lemma sampleSystem_facts:
  "ready sampleSystem" "fa_open sampleSystem" "fa_registry sampleSystem = sampleRegistry" "fa_bootID sampleSystem = sampleBoot"
proof -
  show "ready sampleSystem"
    using sampleIssued_ready by (simp add: sampleSystem_def ready_def auth_inv_def channelsApart_def)
qed (simp_all add: sampleSystem_def sampleIssued_fields)

section \<open>A signed request is accepted once\<close>

text \<open>Documented behaviour of Ed25519: a signature made with a private key verifies under the public half of it.\<close>

definition signLaw :: "world \<Rightarrow> bool" where
  "signLaw W \<longleftrightarrow> (\<forall>priv m. length priv = 64 \<longrightarrow> w_verify W (drop 32 priv) m (w_sign W priv m))"

lemma SignRequest_Inr:
  assumes "SignRequest W cred boot body t (Inr rnd) = Inr req"
  obtains priv where "b64_decode (cd_PrivateKey cred) = Some priv" "length priv = 64" "body \<noteq> []" "length body \<le> MaxBodyBytes"
    "sr_Protocol req = ProtocolVersion" "sr_BootID req = boot" "sr_KeyID req = cd_KeyID cred" "sr_Generation req = cd_Generation cred"
    "sr_RequestID req = hex_encode (requestNonce t rnd)" "sr_IssuedAt req = UnixMilli t"
    "sr_ExpiresAt req = UnixMilli (t + MaxRequestAge)" "sr_Body req = body"
    "sr_Signature req = b64_encode (w_sign W priv (signingBytes W req))"
proof -
  show ?thesis using assms that
    by (auto simp: SignRequest_def Let_def signingBytes_def signedParts_def not_less split: if_splits option.splits)
qed

lemma signed_passes_checks:
  assumes "SignRequest W cred (fa_bootID a) body t (Inr rnd) = Inr req" and "length rnd = 10" and "\<bar>now - t\<bar> \<le> clockSkew"
  shows "\<not> badShape a req" and "\<not> badTimes now req"
proof -
  obtain priv where f: "body \<noteq> []" "length body \<le> MaxBodyBytes" "sr_Protocol req = ProtocolVersion" "sr_BootID req = fa_bootID a"
    "sr_RequestID req = hex_encode (requestNonce t rnd)" "sr_IssuedAt req = UnixMilli t"
    "sr_ExpiresAt req = UnixMilli (t + MaxRequestAge)" "sr_Body req = body"
    using assms(1) by (rule SignRequest_Inr)
  have "validHexID (sr_RequestID req) 16" using f(5) assms(2) by (simp add: validHexID_def requestNonce_def)
  with f show "\<not> badShape a req" by (simp add: badShape_def)
  have "UnixMilli (t + MaxRequestAge) = UnixMilli t + 30000"
    by (simp add: UnixMilli_def MaxRequestAge_def)
  moreover have "UnixMilli t * 1000000 \<le> t" "t < UnixMilli t * 1000000 + 1000000" by (simp_all add: UnixMilli_def)
  ultimately show "\<not> badTimes now req"
    using f(6,7) assms(3) by (auto simp: badTimes_def atMilli_def Let_def clockSkew_def MaxRequestAge_def)
qed

text \<open>A request signed with a live credential, in time, is decided by the ledger alone.\<close>

lemma signed_verifies:
  assumes "signLaw W" and "ready a" and "fa_open a"
    and "map_of (rf_Records (fa_registry a)) (cd_KeyID cred) = Some rec" and "cr_Generation rec = cd_Generation cred"
    and "cr_RevokedAt rec = 0" and "b64_decode (cd_PrivateKey cred) = Some priv"
    and "b64_decode (cr_PublicKey rec) = Some (drop 32 priv)"
    and "SignRequest W cred (fa_bootID a) body t (Inr rnd) = Inr req" and "length rnd = 10"
    and "UnixMilli now < cr_NotAfter rec" and "\<bar>now - t\<bar> \<le> clockSkew"
  shows "Verify W now io a L req =
    (case acceptReplay io now (replayOf W req) L of
       (L1, Some e) \<Rightarrow> (L1, Inl e)
     | (L1, None) \<Rightarrow> (L1, Inr \<lparr>p_KeyID = cd_KeyID cred, p_SubjectID = cr_SubjectID rec, p_Kind = cr_Kind rec,
                              p_Generation = cd_Generation cred\<rparr>))"
proof -
  obtain priv' where f: "length priv' = 64" "b64_decode (cd_PrivateKey cred) = Some priv'" "sr_KeyID req = cd_KeyID cred"
    "sr_Generation req = cd_Generation cred" "sr_Signature req = b64_encode (w_sign W priv' (signingBytes W req))"
    using assms(9) by (rule SignRequest_Inr)
  then have sig: "w_verify W (drop 32 priv) (signingBytes W req) (w_sign W priv (signingBytes W req))" "length priv = 64" "priv' = priv"
    using assms(1,7) by (auto simp: signLaw_def)
  have key: "cr_KeyID rec = cd_KeyID cred" using reg_inv_keyID [OF ready_reg_inv [OF assms(2)] assms(4)] .
  have cur: "currentOf (fa_registry a) (cr_Kind rec) (cr_SubjectID rec) = cd_KeyID cred"
    using reg_inv_live_current [OF ready_reg_inv [OF assms(2)] assms(4,6)] by (simp add: mget0_def)
  show ?thesis
    using signed_passes_checks [OF assms(9,10,12)] assms(3-8,11) f sig key cur by (simp add: Verify_def b64_decode_encode)
qed


section \<open>A request's ledger record always fits\<close>

lemma length_u_escape: "length (u_escape n) = 6"
  by (simp add: u_escape_def hex4_def)

lemma length_esc_ascii: "length (esc_ascii c) \<le> 6"
  by (simp add: esc_ascii_def Let_def length_u_escape)

lemma length_esc: "length (esc s) \<le> 6 * length s"
proof (induction s rule: esc.induct)
  case (2 c s)
  show ?case
  proof (cases "is_ascii c")
    case True
    then show ?thesis using 2(1) length_esc_ascii [of c] by simp
  next
    case False
    show ?thesis
    proof (cases "utf8_tail c s")
      case None
      then show ?thesis using False 2(2) by (simp add: length_u_escape)
    next
      case (Some n)
      then have "length (esc (drop n s)) \<le> 6 * (length s - n)" using False 2(3) by fastforce
      then show ?thesis using False Some by (auto simp: Let_def length_u_escape)
    qed
  qed
qed simp

lemma length_json_string: "length (json_string s) \<le> 6 * length s + 2"
  using length_esc [of s] by (simp add: json_string_def)

lemma length_dec_nat: "n < 10 ^ k \<Longrightarrow> 0 < k \<Longrightarrow> length (dec_nat n) \<le> k"
proof (induction k arbitrary: n)
  case (Suc k)
  show ?case
  proof (cases "n < 10")
    case False
    then have "n div 10 < 10 ^ k" "0 < k" using Suc.prems by (auto intro: less_mult_imp_div_less gr0I)
    then show ?thesis using Suc.IH [of "n div 10"] False by (subst dec_nat.simps) simp
  qed (subst dec_nat.simps, simp)
qed simp

lemma length_dec_int: "\<bar>i\<bar> < 10 ^ k \<Longrightarrow> 0 < k \<Longrightarrow> length (dec_int i) \<le> k + 1"
  using length_dec_nat [of "nat \<bar>i\<bar>" k] by (auto simp: dec_int_def nat_less_iff)

lemma marshalReplay_bound:
  assumes "length (rp_KeyID rec) \<le> 32" and "length (rp_RequestID rec) \<le> 32" and "length (rp_BodyDigest rec) \<le> 64"
    and "\<bar>rp_ExpiresAt rec\<bar> \<le> 2 ^ 63"
  shows "length (marshalReplay rec) \<le> maxReplayRecord"
proof -
  have names: "length (json_string ''keyId'') = 7" "length (json_string ''generation'') = 12" "length (json_string ''requestId'') = 11"
    "length (json_string ''bodyDigest'') = 12" "length (json_string ''expiresAt'') = 11"
    by (simp_all add: json_string_def esc_ascii_def is_ascii_def code_def Let_def)
  have "unat (rp_Generation rec) < 2 ^ 64" using unsigned_less [of "rp_Generation rec"] by simp
  then have g: "length (dec_nat (unat (rp_Generation rec))) \<le> 20" by (intro length_dec_nat) simp_all
  have e: "length (dec_int (rp_ExpiresAt rec)) \<le> 20" using length_dec_int [of "rp_ExpiresAt rec" 19] assms(4) by simp
  have "length (marshalReplay rec) = 53 + 11 + length (json_string (rp_KeyID rec)) + length (dec_nat (unat (rp_Generation rec))) +
      length (json_string (rp_RequestID rec)) + length (json_string (rp_BodyDigest rec)) + length (dec_int (rp_ExpiresAt rec))"
    by (simp add: marshalReplay_def json_object_def names)
  also have "\<dots> \<le> 1024"
    using g e assms(1-3) length_json_string [of "rp_KeyID rec"] length_json_string [of "rp_RequestID rec"]
      length_json_string [of "rp_BodyDigest rec"] by linarith
  finally show ?thesis by (simp add: maxReplayRecord_def)
qed

text \<open>
  C19. The journal's record limit is never what refuses a request: for every request whose key id and
  request id have the length of an id, whatever their bytes, with any 64-bit generation and expiry and
  a 32-byte digest, the ledger record encodes.
\<close>

theorem request_record_fits:
  assumes "length (sr_KeyID req) = 32" and "validHexID (sr_RequestID req) 16" and "length (w_sha256 W (sr_Body req)) = 32"
    and "- (2 ^ 63) \<le> sr_ExpiresAt req" and "sr_ExpiresAt req < 2 ^ 63"
  shows "\<exists>buf. encodeReplayRecord (replayOf W req) = Inr buf \<and> length buf \<le> replayHeader + maxReplayRecord"
proof -
  have "length (marshalReplay (replayOf W req)) \<le> maxReplayRecord"
    using assms by (intro marshalReplay_bound) (auto simp: replayOf_def validHexID_def split: if_splits)
  then show ?thesis by (simp add: encodeReplayRecord_def Let_def replayHeader_def)
qed

lemma sampleSent_fields:
  "sr_KeyID sampleSent = hex_encode (replicate 16 CHR ''a'')" "sr_Body sampleSent = ''x''"
  "sr_RequestID sampleSent = hex_encode (requestNonce 6000000 (replicate 10 CHR ''z''))"
  "sr_ExpiresAt sampleSent = UnixMilli (6000000 + MaxRequestAge)"
  using sampleSent_signed
  by (auto elim!: SignRequest_Inr simp: sampleCredential_def issuedCredential_def)

definition wideWorld :: world where
  "wideWorld = sampleWorld\<lparr>w_sha256 := (\<lambda>m. replicate 32 CHR ''d'')\<rparr>"

theorem request_record_fits_witness:
  "\<exists>buf. encodeReplayRecord (replayOf wideWorld sampleSent) = Inr buf \<and> length buf \<le> replayHeader + maxReplayRecord"
  by (rule request_record_fits)
    (simp_all add: sampleSent_fields validHexID_def requestNonce_def wideWorld_def UnixMilli_def MaxRequestAge_def)

lemma sampleSent_encodes:
  obtains buf where "encodeReplayRecord (replayOf sampleWorld sampleSent) = Inr buf"
proof -
  have "length (marshalReplay (replayOf sampleWorld sampleSent)) \<le> maxReplayRecord"
    by (rule marshalReplay_bound)
      (simp_all add: replayOf_def sampleSent_fields requestNonce_def UnixMilli_def MaxRequestAge_def, simp add: sampleWorld_def)
  then show ?thesis using that by (simp add: encodeReplayRecord_def Let_def)
qed

lemma samplePrivate: "privOf sampleWorld (replicate 32 CHR ''a'') = replicate 64 CHR ''a''"
  "pubOf sampleWorld (replicate 32 CHR ''a'') = replicate 32 CHR ''a''"
  by (simp_all add: privOf_def pubOf_def sampleWorld_def replicate_add [symmetric])

lemma sampleSystem_record:
  "map_of (rf_Records (fa_registry sampleSystem)) (cd_KeyID sampleCredential) = Some sampleRecord"
  by (simp add: sampleSystem_facts sampleRegistry_def sampleRecord_def addRecord_def issuedRecord_def
      sampleCredential_def issuedCredential_def)

lemma sampleCredential_decodes:
  "b64_decode (cd_PrivateKey sampleCredential) = Some (replicate 64 CHR ''a'')"
  "b64_decode (cr_PublicKey sampleRecord) = Some (drop 32 (replicate 64 CHR ''a''))"
  by (simp_all add: sampleCredential_def issuedCredential_def sampleRecord_def issuedRecord_def b64_decode_encode samplePrivate)

lemma sampleSign_law: "signLaw sampleWorld"
  by (simp add: signLaw_def sampleWorld_def)

lemma sampleSent_accepted:
  obtains L' p where "Verify sampleWorld 6000000 okAppend sampleSystem sampleLedger sampleSent = (L', Inr p)"
proof -
  obtain buf where "encodeReplayRecord (replayOf sampleWorld sampleSent) = Inr buf" by (rule sampleSent_encodes)
  then obtain L' where "acceptReplay okAppend 6000000 (replayOf sampleWorld sampleSent) sampleLedger = (L', None)"
    by (simp add: acceptReplay_def acceptDecide_def journalAppend_def Let_def sampleLedger_def okAppend_def
        maxReplayEntries_def replayJournalLimit_def)
  moreover have "cr_Generation sampleRecord = cd_Generation sampleCredential" "cr_RevokedAt sampleRecord = 0"
    "UnixMilli 6000000 < cr_NotAfter sampleRecord" "\<bar>6000000 - 6000000 :: int\<bar> \<le> clockSkew"
    by (simp_all add: sampleRecord_def issuedRecord_def sampleCredential_def issuedCredential_def UnixMilli_def
        credentialLifetime_def clockSkew_def)
  note signed_verifies [OF sampleSign_law sampleSystem_facts(1,2) sampleSystem_record this(1,2) sampleCredential_decodes
      sampleSent_signed [folded sampleSystem_facts(4)] _ this(3,4), of okAppend sampleLedger]
  ultimately show ?thesis using that by simp
qed


theorem Verify_sound_witness:
  "\<exists>L' p. Verify sampleWorld 6000000 okAppend sampleSystem sampleLedger sampleSent = (L', Inr p) \<and> Valid 6000000 sampleSystem p = None"
proof -
  obtain L' p where run: "Verify sampleWorld 6000000 okAppend sampleSystem sampleLedger sampleSent = (L', Inr p)"
    by (rule sampleSent_accepted)
  with Verify_sound [OF sampleSystem_facts(1) run] show ?thesis by blast
qed

end
