(* ===== verification/Replay_Machine.thy ===== *)
theory Replay_Machine
  imports Replay_Ledger
begin

text \<open>
  The replay ledger as a transition system: requests decide and append in separate critical
  sections, compaction rotates, commits, deletes and accounts between them, the process crashes at
  any point with a torn end on any journal, and restarts. Over every interleaving, no request is
  acknowledged twice.
\<close>

section \<open>The system\<close>

datatype job = Idle | Rotated entries int nat | Committed int nat

record replaySystem =
  sy_led :: replayLedger
  sy_up :: bool
  sy_pending :: "replayRecord list"
  sy_acked :: "replayRecord list"
  sy_job :: job
  sy_now :: int

text \<open>
  \<open>orig\<close> gives the one request signed under a ledger key: a holder draws a new request id for
  each request, so a second presentation of a key is the same request.
\<close>

definition genuine :: "(string \<Rightarrow> replayRecord) \<Rightarrow> replayRecord \<Rightarrow> bool" where
  "genuine orig rec \<longleftrightarrow> orig (replayKey rec) = rec \<and> recordOk rec"

definition expired :: "int \<Rightarrow> replayRecord \<Rightarrow> bool" where
  "expired now rec \<longleftrightarrow> rp_ExpiresAt rec < cutoff now"

text \<open>A failed write that left the file as it was or put the whole record into it.\<close>

definition wholeWrite :: "append_io \<Rightarrow> replayRecord \<Rightarrow> bool" where
  "wholeWrite io rec \<longleftrightarrow> (\<forall>k e. ai_write io = Some (k, e) \<longrightarrow> k = 0 \<or> length (recordBytes rec) \<le> k)"

text \<open>A crash leaves every journal as it is, except for the record being appended to it.\<close>

definition tornFiles :: "(string, string) gomap \<Rightarrow> (string, string) gomap \<Rightarrow> bool" where
  "tornFiles fs fs' \<longleftrightarrow> map fst fs' = map fst fs \<and>
     (\<forall>name bytes. map_of fs name = Some bytes \<longrightarrow> (\<exists>d. tornTail d \<and> map_of fs' name = Some (bytes @ d)))"

inductive replay_step :: "(string \<Rightarrow> replayRecord) \<Rightarrow> replaySystem \<Rightarrow> replaySystem \<Rightarrow> bool" for orig where
  tick: "sy_now s \<le> t \<Longrightarrow> replay_step orig s (s\<lparr>sy_now := t\<rparr>)"
| decide: "sy_up s \<Longrightarrow> genuine orig rec \<Longrightarrow> \<not> expired (sy_now s) rec \<Longrightarrow>
    acceptDecide (sy_now s) rec (sy_led s) = (L, None) \<Longrightarrow>
    replay_step orig s (s\<lparr>sy_led := L, sy_pending := rec # sy_pending s\<rparr>)"
| refuse: "sy_up s \<Longrightarrow> acceptDecide (sy_now s) rec (sy_led s) = (L, Some e) \<Longrightarrow>
    replay_step orig s (s\<lparr>sy_led := L\<rparr>)"
| acknowledge: "sy_up s \<Longrightarrow> rec \<in> set (sy_pending s) \<Longrightarrow> journalAppend io rec (sy_led s) = (L, None) \<Longrightarrow>
    replay_step orig s (s\<lparr>sy_led := L, sy_pending := remove1 rec (sy_pending s), sy_acked := rec # sy_acked s\<rparr>)"
| append_fails: "sy_up s \<Longrightarrow> rec \<in> set (sy_pending s) \<Longrightarrow> wholeWrite io rec \<Longrightarrow>
    journalAppend io rec (sy_led s) = (L, Some e) \<Longrightarrow>
    replay_step orig s (s\<lparr>sy_led := L, sy_pending := remove1 rec (sy_pending s)\<rparr>)"
| rotate: "sy_up s \<Longrightarrow> sy_job s = Idle \<Longrightarrow> compactRotate (sy_now s) io (sy_led s) = (L, Inr (snap, rot, old)) \<Longrightarrow>
    replay_step orig s (s\<lparr>sy_led := L, sy_job := Rotated snap rot old\<rparr>)"
| rotate_fails: "sy_up s \<Longrightarrow> sy_job s = Idle \<Longrightarrow> compactRotate (sy_now s) io (sy_led s) = (L, Inl e) \<Longrightarrow>
    replay_step orig s (s\<lparr>sy_led := L\<rparr>)"
| commit: "sy_up s \<Longrightarrow> sy_job s = Rotated snap rot old \<Longrightarrow> commitSnapshot (atomicJSONCommit n io) snap (sy_led s) = (L, None) \<Longrightarrow>
    replay_step orig s (s\<lparr>sy_led := L, sy_job := Committed rot old\<rparr>)"
| commit_fails: "sy_up s \<Longrightarrow> sy_job s = Rotated snap rot old \<Longrightarrow>
    commitSnapshot (atomicJSONCommit n io) snap (sy_led s) = (L, Some e) \<Longrightarrow>
    replay_step orig s (s\<lparr>sy_led := L, sy_job := Idle\<rparr>)"
| delete: "sy_up s \<Longrightarrow> sy_job s = Committed rot old \<Longrightarrow> removeOld old [name] None (sy_led s) = (L, None) \<Longrightarrow>
    replay_step orig s (s\<lparr>sy_led := L\<rparr>)"
| finish: "sy_up s \<Longrightarrow> sy_job s = Committed rot old \<Longrightarrow>
    replay_step orig s (s\<lparr>sy_led := (sy_led s)\<lparr>lg_records := lg_records (sy_led s) - rot\<rparr>, sy_job := Idle\<rparr>)"
| delete_fails: "sy_up s \<Longrightarrow> sy_job s = Committed rot old \<Longrightarrow> replay_step orig s (s\<lparr>sy_job := Idle\<rparr>)"
| close: "sy_up s \<Longrightarrow> sy_pending s = [] \<Longrightarrow>
    replay_step orig s (s\<lparr>sy_led := closeReplay (sy_led s), sy_up := False, sy_job := Idle\<rparr>)"
| crash: "sy_up s \<Longrightarrow> tornFiles (lg_files (sy_led s)) fs \<Longrightarrow>
    replay_step orig s (s\<lparr>sy_led := (sy_led s)\<lparr>lg_files := fs\<rparr>, sy_up := False, sy_pending := [], sy_job := Idle\<rparr>)"
| restart: "\<not> sy_up s \<Longrightarrow> recoverReplay (sy_now s) io (sy_led s) = (L, None) \<Longrightarrow>
    replay_step orig s (s\<lparr>sy_led := L, sy_up := True\<rparr>)"
| restart_fails: "\<not> sy_up s \<Longrightarrow> recoverReplay (sy_now s) io (sy_led s) = (L, Some e) \<Longrightarrow>
    replay_step orig s (s\<lparr>sy_led := L\<rparr>)"

section \<open>The invariant\<close>

definition faithful :: "(string \<Rightarrow> replayRecord) \<Rightarrow> entries \<Rightarrow> bool" where
  "faithful orig es \<longleftrightarrow> gwf es \<and> (\<forall>k rec. map_of es k = Some rec \<longrightarrow> rec = orig k \<and> replayKey rec = k)"

definition goodRecord :: "(string \<Rightarrow> replayRecord) \<Rightarrow> replayRecord \<Rightarrow> bool" where
  "goodRecord orig rec \<longleftrightarrow> genuine orig rec \<and> writable rec"

definition goodFile :: "(string \<Rightarrow> replayRecord) \<Rightarrow> bool \<Rightarrow> string \<Rightarrow> bool" where
  "goodFile orig whole bytes \<longleftrightarrow>
     (\<exists>recs d. bytes = journalBytes recs @ d \<and> list_all (goodRecord orig) recs \<and> tornTail d \<and> (whole \<longrightarrow> d = []))"

definition goodFiles :: "(string \<Rightarrow> replayRecord) \<Rightarrow> bool \<Rightarrow> (string, string) gomap \<Rightarrow> bool" where
  "goodFiles orig whole fs \<longleftrightarrow> gwf fs \<and>
     (\<forall>name bytes. map_of fs name = Some bytes \<longrightarrow> goodFile orig whole bytes \<and> (\<exists>g i. name = journalName g i))"

text \<open>The record is read back from the file, by the scan recovery uses.\<close>

definition inFile :: "(string, string) gomap \<Rightarrow> string \<Rightarrow> replayRecord \<Rightarrow> bool" where
  "inFile fs name rec \<longleftrightarrow> map_of (fst (readJournal_loop (mget0 [] fs name) [] 0)) (replayKey rec) = Some rec"

definition stored :: "(nat \<Rightarrow> bool) \<Rightarrow> entries \<Rightarrow> (string, string) gomap \<Rightarrow> replayRecord \<Rightarrow> bool" where
  "stored P snap fs rec \<longleftrightarrow> map_of snap (replayKey rec) = Some rec \<or> (\<exists>g i. P g \<and> inFile fs (journalName g i) rec)"

subsection \<open>Faithful entries\<close>

lemma faithful_put:
  assumes "faithful orig es" and "orig (replayKey rec) = rec"
  shows "faithful orig (mput (replayKey rec) rec es)"
  using assms by (auto simp: faithful_def)

lemma faithful_keep: "faithful orig es \<Longrightarrow> faithful orig (mkeep P es)"
  by (auto simp: faithful_def map_of_mkeep split: option.splits if_splits)

lemma faithful_Nil [simp]: "faithful orig []"
  by (simp add: faithful_def)

lemma faithful_unexpired: "faithful orig es \<Longrightarrow> faithful orig (unexpiredReplay now es)"
  by (simp add: unexpiredReplay_def faithful_keep)

lemma unexpired_keeps:
  assumes "faithful orig es" and "map_of es k = Some rec" and "\<not> expired now rec"
  shows "map_of (unexpiredReplay now es) k = Some rec"
  using assms by (simp add: unexpiredReplay_def map_of_mkeep faithful_def expired_def)

lemma putAll_faithful:
  "faithful orig es \<Longrightarrow> list_all (goodRecord orig) recs \<Longrightarrow> faithful orig (putAll recs es)"
  by (induction recs arbitrary: es) (auto simp: goodRecord_def genuine_def intro: faithful_put)

lemma map_of_putAll:
  assumes "list_all (goodRecord orig) recs"
  shows "map_of (putAll recs es) k = (if k \<in> replayKey ` set recs then Some (orig k) else map_of es k)"
  using assms
proof (induction recs arbitrary: es)
  case (Cons r recs)
  then have "orig (replayKey r) = r" by (simp add: goodRecord_def genuine_def)
  with Cons show ?case by auto
qed simp

subsection \<open>Files\<close>

lemma tornTail_Nil [simp]: "tornTail []"
  unfolding tornTail_def by (rule disjI2) (rule exI [of _ 0], simp)

lemma goodFile_Nil [simp]: "goodFile orig whole []"
  unfolding goodFile_def by (rule exI [of _ "[]"], rule exI [of _ "[]"]) simp

lemma goodFile_whole: "goodFile orig True bytes \<longleftrightarrow> (\<exists>recs. bytes = journalBytes recs \<and> list_all (goodRecord orig) recs)"
  by (auto simp: goodFile_def)

lemma goodFile_weaken: "goodFile orig True bytes \<Longrightarrow> goodFile orig whole bytes"
  unfolding goodFile_def by blast

lemma goodRecords_writable: "list_all (goodRecord orig) recs \<Longrightarrow> list_all writable recs"
  by (auto simp: list_all_iff goodRecord_def)

lemma read_good:
  assumes "list_all (goodRecord orig) recs" and "tornTail d"
  shows "readJournal_loop (journalBytes recs @ d) es n = (putAll recs es, n + length recs, None)"
  using read_journalBytes [OF goodRecords_writable [OF assms(1)]] read_tornTail [OF assms(2)] by simp

lemma goodFiles_get: "goodFiles orig whole fs \<Longrightarrow> goodFile orig whole (mget0 [] fs name)"
  by (cases "map_of fs name") (auto simp: goodFiles_def mget0_def)

lemma inFile_iff:
  assumes "mget0 [] fs name = journalBytes recs @ d" and "list_all (goodRecord orig) recs" and "tornTail d"
    and "orig (replayKey rec) = rec"
  shows "inFile fs name rec \<longleftrightarrow> rec \<in> set recs"
proof -
  have "rec \<in> set recs" if "replayKey rec \<in> replayKey ` set recs"
  proof -
    from that obtain r where r: "r \<in> set recs" "replayKey r = replayKey rec" by auto
    with assms(2) have "orig (replayKey r) = r" by (auto simp: list_all_iff goodRecord_def genuine_def)
    with r assms(4) show ?thesis by metis
  qed
  with assms show ?thesis
    by (auto simp: inFile_def read_good map_of_putAll)
qed

lemma inFile_same: "mget0 [] fs' name = mget0 [] fs name \<Longrightarrow> inFile fs' name rec \<longleftrightarrow> inFile fs name rec"
  by (simp add: inFile_def)

text \<open>Appending a whole record keeps the files good, adds the record and loses none.\<close>

lemma append_file:
  fixes g i :: nat
  assumes good: "goodFiles orig True fs" and rec: "goodRecord orig rec"
  defines "name \<equiv> journalName g i"
  defines "fs' \<equiv> mput name (mget0 [] fs name @ recordBytes rec) fs"
  shows "goodFiles orig True fs'" "inFile fs' name rec"
    "\<And>n r. orig (replayKey r) = r \<Longrightarrow> inFile fs n r \<Longrightarrow> inFile fs' n r"
proof -
  obtain recs where recs: "mget0 [] fs name = journalBytes recs" "list_all (goodRecord orig) recs"
    using goodFiles_get [OF good, of name] goodFile_whole by blast
  have new: "mget0 [] fs' name = journalBytes (recs @ [rec]) @ []" "list_all (goodRecord orig) (recs @ [rec])"
    using recs rec by (simp_all add: fs'_def journalBytes_Cons)
  have "goodFile orig True (mget0 [] fs name @ recordBytes rec)"
    using new unfolding goodFile_whole by (intro exI [of _ "recs @ [rec]"]) (simp add: fs'_def)
  with good show "goodFiles orig True fs'"
    by (auto simp: goodFiles_def fs'_def name_def)
  have "orig (replayKey rec) = rec" using rec by (simp add: goodRecord_def genuine_def)
  from inFile_iff [OF new(1,2) tornTail_Nil this] show "inFile fs' name rec" by simp
  show "inFile fs' n r" if "orig (replayKey r) = r" "inFile fs n r" for n r
  proof (cases "n = name")
    case True
    from that recs True inFile_iff [of fs name recs "[]" orig r] have "r \<in> set recs" by simp
    with inFile_iff [OF new(1,2) tornTail_Nil that(1)] True show ?thesis by simp
  next
    case False
    then have "mget0 [] fs' n = mget0 [] fs n" by (simp add: fs'_def)
    with that(2) inFile_same show ?thesis by metis
  qed
qed

lemma stored_mono:
  assumes "\<And>n. inFile fs n rec \<Longrightarrow> inFile fs' n rec" and "stored P snap fs rec"
  shows "stored P snap fs' rec"
  using assms unfolding stored_def by blast

subsection \<open>Names\<close>

lemma dot_not_in_dec [simp]: "CHR ''.'' \<notin> set (dec_nat n)"
  by (rule dec_nat_not_digit) (simp add: is_digit_def)

lemma journalName_inject: "journalName g i = journalName g' i' \<longleftrightarrow> g = g' \<and> i = i'"
proof
  assume "journalName g i = journalName g' i'"
  then have "dec_nat g @ CHR ''.'' # dec_nat i = dec_nat g' @ CHR ''.'' # dec_nat i'" by (simp add: journalName_def)
  from cut_at_sep [OF _ _ this] show "g = g' \<and> i = i'" by simp
qed simp

lemma cutPrefix_name: "cutPrefix (replayJournalName @ ''.'') (journalName g i) = Some (dec_nat g @ ''.'' @ dec_nat i)"
  by (simp add: cutPrefix_def journalName_def)

lemma cutDot_name: "cutDot (dec_nat g @ CHR ''.'' # x) = (dec_nat g, x, True)"
proof -
  have nodot: "c \<noteq> CHR ''.''" if "c \<in> set (dec_nat g)" for c using that dot_not_in_dec by metis
  then show ?thesis by (simp add: cutDot_def takeWhile_append2 dropWhile_append2)
qed

lemma journalGeneration_name: "journalGeneration (journalName g i) = (if g < 2 ^ 64 then Some g else None)"
  by (simp add: journalGeneration_def cutPrefix_name cutDot_name)

lemma journalEntry_name: "journalEntry (journalName g i) \<noteq> Inr None"
  by (simp add: journalEntry_def cutPrefix_name cutDot_name split: option.split)

text \<open>Names round-trip through the directory: the generation and shard the name was made from.\<close>

lemma atoi_dec: "n < 2 ^ 63 \<Longrightarrow> atoi (dec_nat n) = Some (int n)"
proof -
  assume n: "n < 2 ^ 63"
  obtain c t where "dec_nat n = c # t" "is_digit c" using dec_nat_head by blast
  moreover from this(2) have "c \<noteq> CHR ''+''" by (auto simp: is_digit_def)
  moreover have "parse_int64 (dec_nat n) = Some (int n)"
    using parse_int64_dec [of "int n"] n by (simp add: dec_int_def)
  ultimately show ?thesis by (simp add: atoi_def)
qed

lemma journalEntry_roundtrip: "g < 2 ^ 64 \<Longrightarrow> i < replayShards \<Longrightarrow> journalEntry (journalName g i) = Inr (Some (g, i))"
  by (simp add: journalEntry_def cutPrefix_name cutDot_name atoi_dec replayShards_def)

lemma journalEntries_covers:
  assumes "journalEntries names = Inr fs" and "journalName g i \<in> set names"
  shows "journalName g i \<in> snd ` set fs"
  using assms
proof (induction names arbitrary: fs)
  case (Cons n ns)
  then obtain f fs' where f: "journalEntry n = Inr f" "journalEntries ns = Inr fs'"
    and fs: "fs = (case f of None \<Rightarrow> fs' | Some gs \<Rightarrow> (gs, n) # fs')"
    by (auto split: sum.splits)
  show ?case
  proof (cases "n = journalName g i")
    case True
    with f(1) journalEntry_name [of g i] obtain gs where "f = Some gs" by (cases f) auto
    with fs True show ?thesis by simp
  next
    case False
    with Cons f(2) have "journalName g i \<in> snd ` set fs'" by auto
    with fs show ?thesis by (auto split: option.splits)
  qed
qed simp

lemma journalFiles_covers:
  assumes "journalFiles names = Inr fs" and "journalName g i \<in> set names"
  shows "journalName g i \<in> set fs"
  using assms journalEntries_covers by (auto simp: journalFiles_def split: sum.splits)

end
