(* ===== verification/Replay_Safety.thy ===== *)
theory Replay_Safety
  imports Replay_Machine
begin

text \<open>
  The invariant of the replay machine is kept by every step (one lemma per step, over shared lemmas
  for files that only grow, for rotation, for deletion and for recovery), and so over every
  interleaving no request is acknowledged twice.
\<close>

section \<open>Preservation\<close>

definition onDisk :: "(nat \<Rightarrow> bool) \<Rightarrow> entries \<Rightarrow> replaySystem \<Rightarrow> bool" where
  "onDisk P snap s \<longleftrightarrow> (\<forall>rec \<in> set (sy_acked s). expired (sy_now s) rec \<or> stored P snap (lg_files (sy_led s)) rec)"

definition inMemory :: "replaySystem \<Rightarrow> bool" where
  "inMemory s \<longleftrightarrow> (\<forall>rec \<in> set (sy_acked s) \<union> set (sy_pending s).
     expired (sy_now s) rec \<or> map_of (lg_entries (sy_led s)) (replayKey rec) = Some rec)"

fun jobInv :: "(string \<Rightarrow> replayRecord) \<Rightarrow> replaySystem \<Rightarrow> job \<Rightarrow> bool" where
  "jobInv orig s Idle = True"
| "jobInv orig s (Rotated snap rot old) = (old < lg_gen (sy_led s) \<and> faithful orig snap \<and> onDisk (\<lambda>g. old < g) snap s)"
| "jobInv orig s (Committed rot old) = (old < lg_gen (sy_led s) \<and> onDisk (\<lambda>g. old < g) (lg_snapshot (sy_led s)) s)"

definition sysInv :: "(string \<Rightarrow> replayRecord) \<Rightarrow> replaySystem \<Rightarrow> bool" where
  "sysInv orig s \<longleftrightarrow>
     faithful orig (lg_snapshot (sy_led s)) \<and> goodFiles orig (sy_up s) (lg_files (sy_led s)) \<and>
     list_all (genuine orig) (sy_acked s) \<and> list_all (genuine orig) (sy_pending s) \<and>
     distinct (sy_pending s @ sy_acked s) \<and>
     onDisk (\<lambda>_. True) (lg_snapshot (sy_led s)) s \<and> jobInv orig s (sy_job s) \<and>
     (if sy_up s then faithful orig (lg_entries (sy_led s)) \<and> inMemory s else sy_pending s = [] \<and> sy_job s = Idle)"

lemma expired_mono: "expired t rec \<Longrightarrow> t \<le> t' \<Longrightarrow> expired t' rec"
proof -
  assume "t \<le> t'"
  then have "cutoff t \<le> cutoff t'" by (simp add: cutoff_def UnixMilli_def zdiv_mono1)
  then show "expired t rec \<Longrightarrow> expired t' rec" by (simp add: expired_def)
qed

lemma onDisk_tick: "sy_now s \<le> t \<Longrightarrow> onDisk P snap s \<Longrightarrow> onDisk P snap (s\<lparr>sy_now := t\<rparr>)"
  unfolding onDisk_def using expired_mono by fastforce

lemma inMemory_tick: "sy_now s \<le> t \<Longrightarrow> inMemory s \<Longrightarrow> inMemory (s\<lparr>sy_now := t\<rparr>)"
  unfolding inMemory_def using expired_mono by fastforce

lemma sysInv_tick: "sysInv orig s \<Longrightarrow> sy_now s \<le> t \<Longrightarrow> sysInv orig (s\<lparr>sy_now := t\<rparr>)"
  by (cases "sy_job s") (auto simp: sysInv_def onDisk_tick inMemory_tick)

text \<open>Steps that leave the disk, the acknowledgements and the clock alone.\<close>

lemma onDisk_files: "lg_files (sy_led s') = lg_files (sy_led s) \<Longrightarrow> sy_acked s' = sy_acked s \<Longrightarrow>
    sy_now s' = sy_now s \<Longrightarrow> onDisk P snap s' \<longleftrightarrow> onDisk P snap s"
  by (simp add: onDisk_def)

lemma jobInv_files: "lg_files (sy_led s') = lg_files (sy_led s) \<Longrightarrow> lg_gen (sy_led s') = lg_gen (sy_led s) \<Longrightarrow>
    lg_snapshot (sy_led s') = lg_snapshot (sy_led s) \<Longrightarrow> sy_acked s' = sy_acked s \<Longrightarrow> sy_now s' = sy_now s \<Longrightarrow>
    jobInv orig s' j \<longleftrightarrow> jobInv orig s j"
  by (cases j) (simp_all add: onDisk_def)

lemma acceptDecide_fields:
  assumes "acceptDecide now rec L = (L', res)"
  shows "lg_files L' = lg_files L" "lg_gen L' = lg_gen L" "lg_snapshot L' = lg_snapshot L"
  using assms by (auto simp: acceptDecide_def Let_def split: if_splits)

lemma acceptDecide_entries:
  assumes "acceptDecide now rec L = (L', res)" and "faithful orig (lg_entries L)" and "orig (replayKey rec) = rec"
  shows "faithful orig (lg_entries L')"
    "map_of (lg_entries L) (replayKey r) = Some r \<Longrightarrow> \<not> expired now r \<Longrightarrow> map_of (lg_entries L') (replayKey r) = Some r"
    "res = None \<Longrightarrow> map_of (lg_entries L) (replayKey rec) = None \<and> map_of (lg_entries L') (replayKey rec) = Some rec"
proof -
  have wf: "gwf (lg_entries L)" using assms(2) by (simp add: faithful_def)
  show "faithful orig (lg_entries L')"
    using assms by (auto simp: acceptDecide_def Let_def split: if_splits intro!: faithful_keep faithful_put)
  show "map_of (lg_entries L') (replayKey r) = Some r"
    if "map_of (lg_entries L) (replayKey r) = Some r" "\<not> expired now r"
    using assms(1) that wf
    by (auto simp: acceptDecide_def Let_def map_of_mkeep expired_def split: if_splits)
  show "res = None \<Longrightarrow> map_of (lg_entries L) (replayKey rec) = None \<and> map_of (lg_entries L') (replayKey rec) = Some rec"
    using assms(1) by (auto simp: acceptDecide_def Let_def split: if_splits)
qed

lemma acceptDecide_refused:
  assumes "acceptDecide now rec L = (L', Some e)" and "faithful orig (lg_entries L)"
  shows "faithful orig (lg_entries L')"
    "map_of (lg_entries L) (replayKey r) = Some r \<Longrightarrow> \<not> expired now r \<Longrightarrow> map_of (lg_entries L') (replayKey r) = Some r"
proof -
  have wf: "gwf (lg_entries L)" using assms(2) by (simp add: faithful_def)
  show "faithful orig (lg_entries L')"
    using assms by (auto simp: acceptDecide_def Let_def split: if_splits intro!: faithful_keep)
  show "map_of (lg_entries L') (replayKey r) = Some r"
    if "map_of (lg_entries L) (replayKey r) = Some r" "\<not> expired now r"
    using assms(1) that wf
    by (auto simp: acceptDecide_def Let_def map_of_mkeep expired_def split: if_splits)
qed

lemma sysInv_decide:
  assumes inv: "sysInv orig s" and up: "sy_up s" and gen: "genuine orig rec" and fresh: "\<not> expired (sy_now s) rec"
    and dec: "acceptDecide (sy_now s) rec (sy_led s) = (L, None)"
  shows "sysInv orig (s\<lparr>sy_led := L, sy_pending := rec # sy_pending s\<rparr>)"
proof -
  let ?s = "s\<lparr>sy_led := L, sy_pending := rec # sy_pending s\<rparr>"
  have faith: "faithful orig (lg_entries (sy_led s))" and mem: "inMemory s" using inv up by (simp_all add: sysInv_def)
  have "orig (replayKey rec) = rec" using gen by (simp add: genuine_def)
  note ent = acceptDecide_entries [OF dec faith this] and fld = acceptDecide_fields [OF dec]
  have "rec \<notin> set (sy_acked s) \<union> set (sy_pending s)"
    using mem fresh ent(3) unfolding inMemory_def by force
  moreover have "inMemory ?s"
    using mem ent(2,3) unfolding inMemory_def by auto
  moreover have "jobInv orig ?s (sy_job s)" "onDisk (\<lambda>_. True) (lg_snapshot L) ?s"
    using inv jobInv_files [of ?s s orig "sy_job s"] onDisk_files [of ?s s] fld by (simp_all add: sysInv_def)
  ultimately show ?thesis using inv up gen ent(1) fld by (simp add: sysInv_def)
qed

lemma sysInv_refuse:
  assumes inv: "sysInv orig s" and up: "sy_up s" and dec: "acceptDecide (sy_now s) rec (sy_led s) = (L, Some e)"
  shows "sysInv orig (s\<lparr>sy_led := L\<rparr>)"
proof -
  let ?s = "s\<lparr>sy_led := L\<rparr>"
  have faith: "faithful orig (lg_entries (sy_led s))" and mem: "inMemory s" using inv up by (simp_all add: sysInv_def)
  note ent = acceptDecide_refused [OF dec faith] and fld = acceptDecide_fields [OF dec]
  have "inMemory ?s" using mem ent(2) unfolding inMemory_def by auto
  moreover have "jobInv orig ?s (sy_job s)" "onDisk (\<lambda>_. True) (lg_snapshot L) ?s"
    using inv jobInv_files [of ?s s orig "sy_job s"] onDisk_files [of ?s s] fld by (simp_all add: sysInv_def)
  ultimately show ?thesis using inv up ent(1) fld by (simp add: sysInv_def)
qed

text \<open>Files that only gain records.\<close>

definition grown :: "(string \<Rightarrow> replayRecord) \<Rightarrow> (string, string) gomap \<Rightarrow> (string, string) gomap \<Rightarrow> bool" where
  "grown orig fs fs' \<longleftrightarrow> goodFiles orig True fs' \<and>
     (\<forall>n r. orig (replayKey r) = r \<longrightarrow> inFile fs n r \<longrightarrow> inFile fs' n r)"

lemma onDisk_grown:
  assumes "onDisk P snap s" and "list_all (genuine orig) (sy_acked s)"
    and "grown orig (lg_files (sy_led s)) (lg_files (sy_led s'))" and "sy_acked s' = sy_acked s" and "sy_now s' = sy_now s"
  shows "onDisk P snap s'"
proof -
  have "stored P snap (lg_files (sy_led s')) rec"
    if "rec \<in> set (sy_acked s)" "stored P snap (lg_files (sy_led s)) rec" for rec
    using that assms(2,3) stored_mono [OF _ that(2)] by (auto simp: grown_def list_all_iff genuine_def)
  with assms(1,4,5) show ?thesis unfolding onDisk_def by auto
qed

lemma jobInv_grown:
  assumes "jobInv orig s j" and "list_all (genuine orig) (sy_acked s)"
    and "grown orig (lg_files (sy_led s)) (lg_files (sy_led s'))" and "sy_acked s' = sy_acked s" and "sy_now s' = sy_now s"
    and "lg_gen (sy_led s) \<le> lg_gen (sy_led s')" and "lg_snapshot (sy_led s') = lg_snapshot (sy_led s)"
  shows "jobInv orig s' j"
  using assms(1,6,7) onDisk_grown [OF _ assms(2-5)] by (cases j) auto

lemma sysInv_grown:
  assumes inv: "sysInv orig s" and up: "sy_up s"
    and grown: "grown orig (lg_files (sy_led s)) (lg_files L)" and gen: "lg_gen (sy_led s) \<le> lg_gen L"
    and same: "lg_snapshot L = lg_snapshot (sy_led s)" "lg_entries L = lg_entries (sy_led s)"
    and sub: "set ps \<subseteq> set (sy_pending s)" and dist: "distinct ps"
  shows "sysInv orig (s\<lparr>sy_led := L, sy_pending := ps\<rparr>)"
proof -
  let ?s = "s\<lparr>sy_led := L, sy_pending := ps\<rparr>"
  have ack: "list_all (genuine orig) (sy_acked s)" using inv by (simp add: sysInv_def)
  have "list_all (genuine orig) ps" using sub inv by (auto simp: sysInv_def list_all_iff)
  moreover have "inMemory ?s" using inv up same(2) sub unfolding sysInv_def inMemory_def by auto
  moreover have "onDisk (\<lambda>_. True) (lg_snapshot L) ?s" "jobInv orig ?s (sy_job s)"
    using onDisk_grown [of _ "lg_snapshot L" s orig ?s] jobInv_grown [of orig s "sy_job s" ?s] inv ack grown gen same(1)
    by (simp_all add: sysInv_def)
  ultimately show ?thesis using inv up same grown sub dist by (auto simp: sysInv_def grown_def)
qed

lemma append_outcome:
  assumes run: "journalAppend io rec L = (L', res)" and "genuine orig rec" and "res = None \<or> wholeWrite io rec"
    and good: "goodFiles orig True (lg_files L)"
  shows "grown orig (lg_files L) (lg_files L')" "lg_gen L' = lg_gen L" "lg_snapshot L' = lg_snapshot L"
    "lg_entries L' = lg_entries L"
    "res = None \<Longrightarrow> inFile (lg_files L') (journalName (lg_gen L) (shardFor (rp_KeyID rec))) rec"
proof -
  let ?name = "journalName (lg_gen L) (shardFor (rp_KeyID rec))"
  let ?with = "\<lambda>x. mput ?name (mget0 [] (lg_files L) ?name @ x) (lg_files L)"
  have enc: "buf = recordBytes rec \<and> goodRecord orig rec" if "encodeReplayRecord rec = Inr buf" for buf
    using that assms(2) by (auto simp: recordBytes_def goodRecord_def writable_def genuine_def encodeReplayRecord_def Let_def split: if_splits)
  have same: "grown orig (lg_files L) (lg_files L)" using good by (simp add: grown_def)
  have "goodFiles orig True (?with [])"
    using good goodFiles_get [OF good, of ?name] by (auto simp: goodFiles_def)
  moreover have "inFile (?with []) n r \<longleftrightarrow> inFile (lg_files L) n r" for n r by (rule inFile_same) simp
  ultimately have touched: "grown orig (lg_files L) (?with [])" by (simp add: grown_def)
  have whole: "grown orig (lg_files L) (?with (recordBytes rec))" "inFile (?with (recordBytes rec)) ?name rec" if "goodRecord orig rec"
    using append_file [OF good that, where g = "lg_gen L" and i = "shardFor (rp_KeyID rec)"] by (simp_all add: grown_def)
  have part: "take k (recordBytes rec) = [] \<or> take k (recordBytes rec) = recordBytes rec"
    if "ai_write io = Some (k, e)" "res \<noteq> None" for k e
    using that assms(3) by (auto simp: wholeWrite_def)
  have fields: "lg_gen L' = lg_gen L \<and> lg_snapshot L' = lg_snapshot L \<and> lg_entries L' = lg_entries L"
    using run by (auto simp: journalAppend_def appendBytes_def Let_def split: sum.splits option.splits if_splits)
  then show "lg_gen L' = lg_gen L" "lg_snapshot L' = lg_snapshot L" "lg_entries L' = lg_entries L" by simp_all
  have files: "lg_files L' = lg_files L \<or> lg_files L' = ?with [] \<or> lg_files L' = ?with (recordBytes rec) \<and> goodRecord orig rec"
    using run enc part
    by (auto simp: journalAppend_def appendBytes_def shardFile_def Let_def split: sum.splits option.splits if_splits)
  then show "grown orig (lg_files L) (lg_files L')" using same touched whole(1) by metis
  show "inFile (lg_files L') ?name rec" if "res = None"
  proof -
    have "lg_files L' = ?with (recordBytes rec) \<and> goodRecord orig rec"
      using run enc that
      by (auto simp: journalAppend_def appendBytes_def shardFile_def Let_def split: sum.splits option.splits if_splits)
    with whole(2) show ?thesis by simp
  qed
qed

lemma onDisk_ack:
  "onDisk P snap (s\<lparr>sy_acked := rec # sy_acked s\<rparr>) \<longleftrightarrow>
     (expired (sy_now s) rec \<or> stored P snap (lg_files (sy_led s)) rec) \<and> onDisk P snap s"
  by (simp add: onDisk_def)

lemma jobInv_ack:
  assumes "jobInv orig s j" and "inFile (lg_files (sy_led s)) (journalName (lg_gen (sy_led s)) i) rec"
  shows "jobInv orig (s\<lparr>sy_acked := rec # sy_acked s\<rparr>) j"
  using assms by (cases j) (auto simp: onDisk_ack stored_def)

lemma sysInv_acknowledge:
  assumes inv: "sysInv orig s" and up: "sy_up s" and rec: "rec \<in> set (sy_pending s)"
    and run: "journalAppend io rec (sy_led s) = (L, None)"
  shows "sysInv orig (s\<lparr>sy_led := L, sy_pending := remove1 rec (sy_pending s), sy_acked := rec # sy_acked s\<rparr>)"
proof -
  have gen: "genuine orig rec" and dist: "distinct (sy_pending s @ sy_acked s)" and mem: "inMemory s"
    and good: "goodFiles orig True (lg_files (sy_led s))"
    using inv rec up by (auto simp: sysInv_def list_all_iff)
  note out = append_outcome [OF run gen disjI1 [OF refl] good]
  let ?s = "s\<lparr>sy_led := L, sy_pending := remove1 rec (sy_pending s)\<rparr>"
  have inv': "sysInv orig ?s"
    by (rule sysInv_grown [OF inv up out(1) _ out(3,4)]) (use out(2) dist set_remove1_subset in auto)
  have has: "inFile (lg_files L) (journalName (lg_gen L) (shardFor (rp_KeyID rec))) rec" using out(2,5) by simp
  then have "onDisk (\<lambda>_. True) (lg_snapshot L) (?s\<lparr>sy_acked := rec # sy_acked ?s\<rparr>)"
    unfolding onDisk_ack using inv' by (auto simp: sysInv_def stored_def)
  moreover have "jobInv orig (?s\<lparr>sy_acked := rec # sy_acked ?s\<rparr>) (sy_job s)"
    by (rule jobInv_ack) (use inv' has in \<open>auto simp: sysInv_def\<close>)
  moreover have "inMemory (?s\<lparr>sy_acked := rec # sy_acked ?s\<rparr>)"
    using mem rec out(4) set_remove1_subset [of rec "sy_pending s"] unfolding inMemory_def by auto
  moreover have "distinct (remove1 rec (sy_pending s) @ rec # sy_acked s)" using dist rec by (auto simp: set_remove1_eq)
  ultimately show ?thesis using inv' gen up by (simp add: sysInv_def)
qed

lemma sysInv_append_fails:
  assumes inv: "sysInv orig s" and up: "sy_up s" and rec: "rec \<in> set (sy_pending s)" and "wholeWrite io rec"
    and run: "journalAppend io rec (sy_led s) = (L, Some e)"
  shows "sysInv orig (s\<lparr>sy_led := L, sy_pending := remove1 rec (sy_pending s)\<rparr>)"
proof -
  have "genuine orig rec" "distinct (sy_pending s)" "goodFiles orig True (lg_files (sy_led s))"
    using inv rec up by (auto simp: sysInv_def list_all_iff)
  note out = append_outcome [OF run this(1) disjI2 [OF assms(4)] this(3)] this(2)
  show ?thesis by (rule sysInv_grown [OF inv up out(1) _ out(3,4)]) (use out(2,6) set_remove1_subset in auto)
qed

subsection \<open>Compaction\<close>

lemma createFiles_Cons:
  assumes "createFiles gen (i # is) failing fs = (fs', e)"
  obtains "fs' = fs"
  | failing' where "map_of fs (journalName gen i) = None"
      "createFiles gen is failing' (mput (journalName gen i) [] fs) = (fs', e)"
  using assms by (auto split: option.splits if_splits nat.splits)

lemma createFiles_get:
  "createFiles gen is failing fs = (fs', e) \<Longrightarrow> mget0 [] fs' name = mget0 [] fs name"
proof (induction "is" arbitrary: failing fs)
  case (Cons i "is")
  from Cons.prems show ?case
  proof (cases rule: createFiles_Cons)
    case (2 failing')
    then have "mget0 [] (mput (journalName gen i) [] fs) name = mget0 [] fs name" by (simp add: mget0_def)
    with Cons.IH [OF 2(2)] show ?thesis by simp
  qed simp
qed simp

lemma createFiles_good:
  "createFiles gen is failing fs = (fs', e) \<Longrightarrow> goodFiles orig whole fs \<Longrightarrow> goodFiles orig whole fs'"
proof (induction "is" arbitrary: failing fs)
  case (Cons i "is")
  from Cons.prems(1) show ?case
  proof (cases rule: createFiles_Cons)
    case (2 failing')
    have "goodFiles orig whole (mput (journalName gen i) [] fs)" using Cons.prems(2) by (auto simp: goodFiles_def)
    with Cons.IH [OF 2(2)] show ?thesis by simp
  qed (use Cons.prems(2) in simp)
qed simp

lemma createFiles_grown:
  assumes "createFiles gen is failing fs = (fs', e)" and "goodFiles orig True fs"
  shows "grown orig fs fs'"
  using createFiles_good [OF assms] inFile_same [OF createFiles_get [OF assms(1)]] by (simp add: grown_def)

lemma createShards_fields:
  assumes "createShards io L = (L', e)"
  shows "lg_gen L' = lg_gen L" "lg_snapshot L' = lg_snapshot L" "lg_entries L' = lg_entries L"
    "\<exists>e'. createFiles (lg_gen L) [0..<replayShards] (cs_fail io) (lg_files L) = (lg_files L', e')"
  using assms by (auto simp: createShards_def split: prod.splits option.splits)

lemma compactRotate_outcome:
  assumes "compactRotate now io L = (L', res)" and "goodFiles orig True (lg_files L)"
  shows "grown orig (lg_files L) (lg_files L')" "lg_gen L \<le> lg_gen L'" "lg_snapshot L' = lg_snapshot L" "lg_entries L' = lg_entries L"
    "res = Inr (snap, rot, old) \<Longrightarrow> snap = unexpiredReplay now (lg_entries L) \<and> old < lg_gen L'"
proof -
  have cases: "L' = L \<and> (\<exists>e. res = Inl e) \<or>
    (\<exists>e. createShards io ((closeShards L)\<lparr>lg_gen := Suc (lg_gen L)\<rparr>) = (L', e) \<and>
      (\<forall>snap rot old. res = Inr (snap, rot, old) \<longrightarrow> snap = unexpiredReplay now (lg_entries L) \<and> old = lg_gen L))"
    using assms(1) by (auto simp: compactRotate_def Let_def split: prod.splits option.splits if_splits)
  have new: "grown orig (lg_files L) (lg_files L') \<and> lg_gen L' = Suc (lg_gen L) \<and> lg_snapshot L' = lg_snapshot L \<and> lg_entries L' = lg_entries L"
    if "createShards io ((closeShards L)\<lparr>lg_gen := Suc (lg_gen L)\<rparr>) = (L', e)" for e
    using createShards_fields [OF that] createFiles_grown [OF _ assms(2)] by (auto simp: closeShards_def)
  have same: "grown orig (lg_files L) (lg_files L)" using assms(2) by (simp add: grown_def)
  from cases new same show "grown orig (lg_files L) (lg_files L')" "lg_gen L \<le> lg_gen L'" "lg_snapshot L' = lg_snapshot L" "lg_entries L' = lg_entries L"
    by auto
  from cases new show "snap = unexpiredReplay now (lg_entries L) \<and> old < lg_gen L'" if "res = Inr (snap, rot, old)"
    using that by fastforce
qed

lemma pending_self: "s\<lparr>sy_led := L, sy_pending := sy_pending s\<rparr> = s\<lparr>sy_led := L\<rparr>"
  by simp

lemma sysInv_rotate:
  assumes inv: "sysInv orig s" and up: "sy_up s" and "sy_job s = Idle"
    and run: "compactRotate (sy_now s) io (sy_led s) = (L, res)"
  shows "sysInv orig (s\<lparr>sy_led := L\<rparr>)"
    "res = Inr (snap, rot, old) \<Longrightarrow> sysInv orig (s\<lparr>sy_led := L, sy_job := Rotated snap rot old\<rparr>)"
proof -
  have good: "goodFiles orig True (lg_files (sy_led s))" and dist: "distinct (sy_pending s)"
    and faith: "faithful orig (lg_entries (sy_led s))" and mem: "inMemory s"
    using inv up by (simp_all add: sysInv_def)
  note out = compactRotate_outcome [OF run good]
  show inv': "sysInv orig (s\<lparr>sy_led := L\<rparr>)"
    using sysInv_grown [OF inv up out(1,2,3,4) subset_refl dist] by simp
  assume "res = Inr (snap, rot, old)"
  then have snap: "snap = unexpiredReplay (sy_now s) (lg_entries (sy_led s))" "old < lg_gen L" using out(5) by blast+
  have "onDisk (\<lambda>g. old < g) snap (s\<lparr>sy_led := L\<rparr>)"
    using mem unexpired_keeps [OF faith] by (auto simp: onDisk_def inMemory_def stored_def snap(1))
  then show "sysInv orig (s\<lparr>sy_led := L, sy_job := Rotated snap rot old\<rparr>)"
    using inv' up snap faithful_unexpired [OF faith] by (simp add: sysInv_def onDisk_def inMemory_def)
qed

lemma onDisk_weaken: "onDisk P snap s \<Longrightarrow> onDisk (\<lambda>_. True) snap s"
  unfolding onDisk_def stored_def by blast

lemma sysInv_commit:
  assumes inv: "sysInv orig s" and job: "sy_job s = Rotated snap rot old"
  shows "sysInv orig (s\<lparr>sy_job := Idle\<rparr>)"
    "sysInv orig (s\<lparr>sy_led := (sy_led s)\<lparr>lg_snapshot := snap\<rparr>, sy_job := Committed rot old\<rparr>)"
    "sysInv orig (s\<lparr>sy_led := (sy_led s)\<lparr>lg_snapshot := snap\<rparr>, sy_job := Idle\<rparr>)"
  using inv job onDisk_weaken [of "\<lambda>g. old < g" snap s]
  by (auto simp: sysInv_def onDisk_def inMemory_def)

subsection \<open>Deletion\<close>

lemma removeOld_one:
  assumes "removeOld old [name] None L = (L', e)"
  shows "L' = L \<or> (\<exists>g. journalGeneration name = Some g \<and> g \<le> old \<and> L' = L\<lparr>lg_files := mdel name (lg_files L)\<rparr>)"
  using assms by (auto split: option.splits if_splits)

lemma goodFiles_del: "goodFiles orig whole fs \<Longrightarrow> goodFiles orig whole (mdel name fs)"
  by (auto simp: goodFiles_def split: if_splits)

lemma stored_after_delete:
  assumes "stored (\<lambda>g. old < g) snap fs rec" and "journalGeneration name = Some g" and "g \<le> old"
  shows "stored (\<lambda>g. old < g) snap (mdel name fs) rec"
proof -
  have "inFile (mdel name fs) (journalName g' i) rec \<longleftrightarrow> inFile fs (journalName g' i) rec" if "old < g'" for g' i
  proof (rule inFile_same)
    have "name \<noteq> journalName g' i"
      using assms(2,3) that by (auto simp: journalGeneration_name split: if_splits)
    then show "mget0 [] (mdel name fs) (journalName g' i) = mget0 [] fs (journalName g' i)" by simp
  qed
  with assms(1) show ?thesis unfolding stored_def by blast
qed

lemma sysInv_delete:
  assumes inv: "sysInv orig s" and up: "sy_up s" and job: "sy_job s = Committed rot old"
    and run: "removeOld old [name] None (sy_led s) = (L, None)"
  shows "sysInv orig (s\<lparr>sy_led := L\<rparr>)"
  using removeOld_one [OF run]
proof (elim disjE exE conjE)
  fix g
  assume g: "journalGeneration name = Some g" "g \<le> old" and L: "L = (sy_led s)\<lparr>lg_files := mdel name (lg_files (sy_led s))\<rparr>"
  let ?s = "s\<lparr>sy_led := L\<rparr>"
  have "onDisk (\<lambda>g. old < g) (lg_snapshot (sy_led s)) ?s"
    using inv job stored_after_delete [OF _ g] unfolding L by (auto simp: sysInv_def onDisk_def)
  moreover have "inMemory ?s" using inv up unfolding L by (simp add: sysInv_def inMemory_def)
  ultimately show ?thesis
    using inv up job onDisk_weaken [of _ _ ?s] goodFiles_del unfolding L by (auto simp: sysInv_def)
qed (use inv in simp)

subsection \<open>Crash and restart\<close>

lemma torn_inFile:
  assumes good: "goodFiles orig True fs" and torn: "tornFiles fs fs'" and "orig (replayKey rec) = rec"
  shows "inFile fs' name rec \<longleftrightarrow> inFile fs name rec"
proof (cases "map_of fs name")
  case None
  then have "name \<notin> set (map fst fs')" using torn by (simp add: tornFiles_def map_of_eq_None_iff)
  then have "map_of fs' name = None" by (simp add: map_of_eq_None_iff)
  with None have "mget0 [] fs' name = mget0 [] fs name" by (simp add: mget0_def)
  then show ?thesis by (rule inFile_same)
next
  case (Some bytes)
  then have "goodFile orig True bytes" using good unfolding goodFiles_def by blast
  then obtain recs where recs: "bytes = journalBytes recs" "list_all (goodRecord orig) recs"
    unfolding goodFile_whole by blast
  obtain d where d: "tornTail d" "map_of fs' name = Some (bytes @ d)" using torn Some by (auto simp: tornFiles_def)
  have "inFile fs name rec \<longleftrightarrow> rec \<in> set recs" "inFile fs' name rec \<longleftrightarrow> rec \<in> set recs"
    using inFile_iff [of fs name recs "[]" orig rec] inFile_iff [of fs' name recs d orig rec] recs d Some assms(3)
    by (simp_all add: mget0_def)
  then show ?thesis by simp
qed

lemma torn_good:
  assumes good: "goodFiles orig True fs" and torn: "tornFiles fs fs'"
  shows "goodFiles orig False fs'"
proof -
  have "goodFile orig False bytes' \<and> (\<exists>g i. name = journalName g i)" if "map_of fs' name = Some bytes'" for name bytes'
  proof -
    from that have "name \<in> set (map fst fs)" using torn by (metis domI dom_map_of_conv_image_fst tornFiles_def set_map)
    then obtain bytes where b: "map_of fs name = Some bytes" by (metis map_of_eq_None_iff not_None_eq set_map)
    with good have known: "goodFile orig True bytes" "\<exists>g i. name = journalName g i"
      unfolding goodFiles_def by blast+
    then obtain recs where recs: "bytes = journalBytes recs" "list_all (goodRecord orig) recs"
      unfolding goodFile_whole by blast
    obtain d where "tornTail d" "map_of fs' name = Some (bytes @ d)" using torn b unfolding tornFiles_def by blast
    then have "tornTail d" "bytes' = bytes @ d" using that by simp_all
    with recs known(2) show ?thesis unfolding goodFile_def by blast
  qed
  moreover have "gwf fs'" using good torn by (simp add: goodFiles_def tornFiles_def)
  ultimately show ?thesis by (simp add: goodFiles_def)
qed

lemma tornFiles_refl: "tornFiles fs fs"
  unfolding tornFiles_def using tornTail_Nil by force

lemma sysInv_crash:
  assumes inv: "sysInv orig s" and up: "sy_up s" and torn: "tornFiles (lg_files (sy_led s)) fs"
    and L: "lg_files L = fs" "lg_snapshot L = lg_snapshot (sy_led s)"
  shows "sysInv orig (s\<lparr>sy_led := L, sy_up := False, sy_pending := [], sy_job := Idle\<rparr>)"
proof -
  have good: "goodFiles orig True (lg_files (sy_led s))" and ack: "list_all (genuine orig) (sy_acked s)"
    using inv up by (simp_all add: sysInv_def)
  have "stored (\<lambda>_. True) (lg_snapshot L) fs rec" if "rec \<in> set (sy_acked s)" "stored (\<lambda>_. True) (lg_snapshot L) (lg_files (sy_led s)) rec" for rec
    using that(2)
  proof (rule stored_mono [rotated])
    show "inFile fs n rec" if "inFile (lg_files (sy_led s)) n rec" for n
      using that torn_inFile [OF good torn] ack \<open>rec \<in> set (sy_acked s)\<close> by (auto simp: list_all_iff genuine_def)
  qed
  with inv L torn_good [OF good torn] show ?thesis by (auto simp: sysInv_def onDisk_def)
qed

text \<open>What recovery reads: the snapshot and every journal, and nothing else.\<close>

lemma readJournal_good:
  assumes "goodFile orig whole bytes" and "readJournal bytes es = (es', n, None)"
  obtains recs where "list_all (goodRecord orig) recs" "es' = putAll recs es"
    "\<And>rec. orig (replayKey rec) = rec \<Longrightarrow>
       map_of (fst (readJournal_loop bytes [] 0)) (replayKey rec) = Some rec \<Longrightarrow> rec \<in> set recs"
proof -
  from assms(1) obtain recs d where b: "bytes = journalBytes recs @ d" "list_all (goodRecord orig) recs" "tornTail d"
    by (auto simp: goodFile_def)
  have "es' = putAll recs es"
    using assms(2) read_good [OF b(2,3)] by (auto simp: readJournal_def b(1) split: if_splits)
  moreover have "rec \<in> set recs" if "orig (replayKey rec) = rec"
    "map_of (fst (readJournal_loop bytes [] 0)) (replayKey rec) = Some rec" for rec
    using inFile_iff [of "[([], bytes)]" "[]" recs d orig rec] b that by (simp add: inFile_def mget0_def)
  ultimately show ?thesis using that b(2) by blast
qed

lemma readJournals_sound:
  assumes good: "goodFiles orig whole fs" and "readJournals fs names es = Inr es'" and "faithful orig es"
  shows "faithful orig es'"
    "orig (replayKey rec) = rec \<Longrightarrow> map_of es (replayKey rec) = Some rec \<or> (\<exists>n \<in> set names. inFile fs n rec) \<Longrightarrow>
       map_of es' (replayKey rec) = Some rec"
proof -
  have "faithful orig es' \<and> (orig (replayKey rec) = rec \<longrightarrow>
      map_of es (replayKey rec) = Some rec \<or> (\<exists>n \<in> set names. inFile fs n rec) \<longrightarrow> map_of es' (replayKey rec) = Some rec)"
    using assms(2,3)
  proof (induction names arbitrary: es)
    case (Cons name names)
    from Cons.prems(1) obtain es1 n where r: "readJournal (mget0 [] fs name) es = (es1, n, None)"
      and rest: "readJournals fs names es1 = Inr es'"
      by (auto split: prod.splits option.splits)
    obtain recs where recs: "list_all (goodRecord orig) recs" "es1 = putAll recs es"
      and has: "\<And>rec. orig (replayKey rec) = rec \<Longrightarrow> inFile fs name rec \<Longrightarrow> rec \<in> set recs"
      using readJournal_good [OF goodFiles_get [OF good] r] unfolding inFile_def by metis
    have "faithful orig es1" using putAll_faithful [OF Cons.prems(2) recs(1)] recs(2) by simp
    note ih = Cons.IH [OF rest this]
    show ?case
    proof (intro conjI impI)
      show "faithful orig es'" using ih by blast
      assume o: "orig (replayKey rec) = rec" and src: "map_of es (replayKey rec) = Some rec \<or> (\<exists>n \<in> set (name # names). inFile fs n rec)"
      have "map_of es1 (replayKey rec) = Some rec" if "map_of es (replayKey rec) = Some rec \<or> inFile fs name rec"
        using that has [OF o] o map_of_putAll [OF recs(1), of es "replayKey rec"] recs(2) by auto
      with src ih o show "map_of es' (replayKey rec) = Some rec" by auto
    qed
  qed simp
  then show "faithful orig es'" "orig (replayKey rec) = rec \<Longrightarrow>
      map_of es (replayKey rec) = Some rec \<or> (\<exists>n \<in> set names. inFile fs n rec) \<Longrightarrow> map_of es' (replayKey rec) = Some rec"
    by blast+
qed

lemma removeAllFiles_spec:
  assumes "removeAllFiles names failing L = (L', e)"
  shows "lg_snapshot L' = lg_snapshot L" "lg_entries L' = lg_entries L"
    "goodFiles orig whole (lg_files L) \<Longrightarrow> goodFiles orig whole (lg_files L')"
    "e = None \<Longrightarrow> name \<in> set names \<Longrightarrow> map_of (lg_files L') name = None"
    "map_of (lg_files L) name = None \<Longrightarrow> map_of (lg_files L') name = None"
proof -
  have "lg_snapshot L' = lg_snapshot L \<and> lg_entries L' = lg_entries L \<and>
    (goodFiles orig whole (lg_files L) \<longrightarrow> goodFiles orig whole (lg_files L')) \<and>
    (map_of (lg_files L) name = None \<longrightarrow> map_of (lg_files L') name = None) \<and>
    (e = None \<longrightarrow> name \<in> set names \<longrightarrow> map_of (lg_files L') name = None)"
    using assms
  proof (induction names arbitrary: failing L)
    case (Cons n ns)
    from Cons.prems consider "L' = L" "e \<noteq> None"
      | f where "removeAllFiles ns f (L\<lparr>lg_files := mdel n (lg_files L)\<rparr>) = (L', e)"
      by (auto split: option.splits nat.splits)
    then show ?case
    proof cases
      case (2 f)
      from Cons.IH [OF this] goodFiles_del [of orig whole "lg_files L" n] show ?thesis by auto
    qed auto
  qed simp
  then show "lg_snapshot L' = lg_snapshot L" "lg_entries L' = lg_entries L"
    "goodFiles orig whole (lg_files L) \<Longrightarrow> goodFiles orig whole (lg_files L')"
    "e = None \<Longrightarrow> name \<in> set names \<Longrightarrow> map_of (lg_files L') name = None"
    "map_of (lg_files L) name = None \<Longrightarrow> map_of (lg_files L') name = None"
    by blast+
qed

text \<open>
  Recovery, whatever its outcome, leaves every stored and unexpired record on disk; when it
  succeeds the record is in memory and only new journals are left.
\<close>

definition keepsRecord :: "(string \<Rightarrow> replayRecord) \<Rightarrow> int \<Rightarrow> replayLedger \<Rightarrow> replayRecord \<Rightarrow> bool" where
  "keepsRecord orig now L rec \<longleftrightarrow> orig (replayKey rec) = rec \<and> \<not> expired now rec \<and>
     stored (\<lambda>_. True) (lg_snapshot L) (lg_files L) rec"

lemma recover_cases:
  assumes "recoverReplay now io D = (L, res)"
  obtains "L = openedLedger D" "res \<noteq> None"
  | names es L1 where "journalFiles (map fst (lg_files D)) = Inr names"
      "readJournals (lg_files D) names (lg_snapshot D) = Inr es"
      "L1 = (openedLedger D)\<lparr>lg_entries := unexpiredReplay now es\<rparr>"
      "names = [] \<and> createShards (cp_shards io) L1 = (L, res) \<or>
       res \<noteq> None \<and> (L = L1 \<or> L = L1\<lparr>lg_snapshot := lg_entries L1\<rparr>) \<or>
       (\<exists>L3 e. removeAllFiles names (cp_remove io) (L1\<lparr>lg_snapshot := lg_entries L1\<rparr>) = (L3, e) \<and>
          (e \<noteq> None \<and> res \<noteq> None \<and> L = L3 \<or> e = None \<and> createShards (cp_shards io) L3 = (L, res)))"
proof (cases "cp_list io = None \<and> (\<exists>names es. journalFiles (map fst (lg_files D)) = Inr names \<and>
    readJournals (lg_files D) names (lg_snapshot D) = Inr es)")
  case False
  with assms show ?thesis
    by (intro that(1)) (auto simp: recoverReplay_def openedLedger_def Let_def split: option.splits sum.splits dest: sym)
next
  case True
  then obtain names es where n: "journalFiles (map fst (lg_files D)) = Inr names"
    "readJournals (lg_files D) names (lg_snapshot D) = Inr es" by blast
  define L1 where "L1 = (openedLedger D)\<lparr>lg_entries := unexpiredReplay now es\<rparr>"
  have D: "lg_files (openedLedger D) = lg_files D" "lg_entries (openedLedger D) = lg_snapshot D"
    by (simp_all add: openedLedger_def)
  have "recoverReplay now io D = (if names = [] then createShards (cp_shards io) L1
     else (case commitSnapshot (atomicJSONCommit (cp_len io) (cp_commit io)) (lg_entries L1) L1 of
         (L2, Some e) \<Rightarrow> (L2, Some e)
       | (L2, None) \<Rightarrow>
           (case removeAllFiles names (cp_remove io) L2 of
              (L3, Some e) \<Rightarrow> (L3, Some e) | (L3, None) \<Rightarrow> createShards (cp_shards io) L3)))"
    using True n D by (simp add: recoverReplay_def L1_def Let_def)
  note run = this [unfolded assms, symmetric]
  show ?thesis
  proof (rule that(2) [OF n L1_def])
    show "names = [] \<and> createShards (cp_shards io) L1 = (L, res) \<or>
       res \<noteq> None \<and> (L = L1 \<or> L = L1\<lparr>lg_snapshot := lg_entries L1\<rparr>) \<or>
       (\<exists>L3 e. removeAllFiles names (cp_remove io) (L1\<lparr>lg_snapshot := lg_entries L1\<rparr>) = (L3, e) \<and>
          (e \<noteq> None \<and> res \<noteq> None \<and> L = L3 \<or> e = None \<and> createShards (cp_shards io) L3 = (L, res)))"
    proof (cases "names = []")
      case False
      obtain L2 e2 where c: "commitSnapshot (atomicJSONCommit (cp_len io) (cp_commit io)) (lg_entries L1) L1 = (L2, e2)" by force
      show ?thesis
      proof (cases e2)
        case None
        with commitSnapshot_None c have "L2 = L1\<lparr>lg_snapshot := lg_entries L1\<rparr>" by blast
        with run False c None show ?thesis by (auto split: prod.splits option.splits)
      next
        case (Some e)
        with run False c commitSnapshot_cases [OF c] show ?thesis by auto
      qed
    qed (use run in simp)
  qed
qed

lemma goodFiles_empty:
  assumes "goodFiles orig whole fs" and "\<And>g i. map_of fs (journalName g i) = None"
  shows "goodFiles orig True fs"
  using assms unfolding goodFiles_def by (metis option.distinct(1))

lemma goodFiles_weaken: "goodFiles orig True fs \<Longrightarrow> goodFiles orig whole fs"
  unfolding goodFiles_def using goodFile_weaken by blast

lemma recover_keeps:
  assumes run: "recoverReplay now io D = (L, res)" and good: "goodFiles orig False (lg_files D)"
    and faith: "faithful orig (lg_snapshot D)"
  shows "faithful orig (lg_snapshot L)" "goodFiles orig (res = None) (lg_files L)"
    "keepsRecord orig now D rec \<Longrightarrow> stored (\<lambda>_. True) (lg_snapshot L) (lg_files L) rec"
    "res = None \<Longrightarrow> faithful orig (lg_entries L)"
    "res = None \<Longrightarrow> keepsRecord orig now D rec \<Longrightarrow> map_of (lg_entries L) (replayKey rec) = Some rec"
proof -
  have "faithful orig (lg_snapshot L) \<and> goodFiles orig (res = None) (lg_files L) \<and>
    (keepsRecord orig now D rec \<longrightarrow> stored (\<lambda>_. True) (lg_snapshot L) (lg_files L) rec) \<and>
    (res = None \<longrightarrow> faithful orig (lg_entries L) \<and>
       (keepsRecord orig now D rec \<longrightarrow> map_of (lg_entries L) (replayKey rec) = Some rec))"
    using run
  proof (cases rule: recover_cases)
    case 1
    then obtain e where "res = Some e" by blast
    with 1 good faith show ?thesis by (simp add: openedLedger_def keepsRecord_def)
  next
    case (2 names es L1)
    have all: "journalName g i \<in> set names" if "map_of (lg_files D) (journalName g i) \<noteq> None" for g i
      using journalFiles_covers [OF 2(1)] that by (simp add: map_of_eq_None_iff)
    have in_names: "n \<in> set names" if "inFile (lg_files D) n rec" "n = journalName g i" for n g i
      using that all [of g i] by (auto simp: inFile_def mget0_def readJournal_loop.simps split: option.splits)
    note snd = readJournals_sound [OF good 2(2) faith]
    have ents: "faithful orig (lg_entries L1)" using snd(1) 2(3) by (simp add: faithful_unexpired)
    have mem: "map_of (lg_entries L1) (replayKey rec) = Some rec" if "keepsRecord orig now D rec"
    proof -
      have k: "orig (replayKey rec) = rec" "\<not> expired now rec" "stored (\<lambda>_. True) (lg_snapshot D) (lg_files D) rec"
        using that by (simp_all add: keepsRecord_def)
      then have "map_of (lg_snapshot D) (replayKey rec) = Some rec \<or> (\<exists>n \<in> set names. inFile (lg_files D) n rec)"
        using in_names unfolding stored_def by blast
      with snd(2) k unexpired_keeps [OF snd(1)] 2(3) show ?thesis by simp
    qed
    have fields: "lg_files L1 = lg_files D" "lg_snapshot L1 = lg_snapshot D" using 2(3) by (simp_all add: openedLedger_def)
    let ?L2 = "L1\<lparr>lg_snapshot := lg_entries L1\<rparr>"
    have disk: "stored (\<lambda>_. True) (lg_entries L1) fs rec" if "keepsRecord orig now D rec" for fs
      using mem [OF that] by (simp add: stored_def)
    from 2(4) show ?thesis
    proof (elim disjE conjE exE)
      assume n: "names = []" and c: "createShards (cp_shards io) L1 = (L, res)"
      have "goodFiles orig True (lg_files D)" by (rule goodFiles_empty [OF good]) (use all n in fastforce)
      moreover note cf = createShards_fields [OF c]
      ultimately have "goodFiles orig True (lg_files L)" "mget0 [] (lg_files L) n = mget0 [] (lg_files D) n" for n
        using createFiles_good createFiles_get fields(1) by metis+
      with cf ents mem faith fields show ?thesis
        using inFile_same [of "lg_files L" _ "lg_files D"] goodFiles_weaken
        by (auto simp: keepsRecord_def stored_def)
    next
      fix L3 e
      assume "removeAllFiles names (cp_remove io) ?L2 = (L3, e)" "e \<noteq> None" "res \<noteq> None" "L = L3"
      with removeAllFiles_spec(1-3) [of names "cp_remove io" ?L2 L3 e] ents disk good fields show ?thesis by auto
    next
      fix L3 e
      assume r: "removeAllFiles names (cp_remove io) ?L2 = (L3, e)" "e = None" and c: "createShards (cp_shards io) L3 = (L, res)"
      note rs = removeAllFiles_spec [OF r(1)] and cf = createShards_fields [OF c]
      have "map_of (lg_files L3) (journalName g i) = None" for g i
        using rs(4,5) r(2) all [of g i] fields by (cases "map_of (lg_files D) (journalName g i)") auto
      then have "goodFiles orig True (lg_files L3)"
        using goodFiles_empty [of orig False "lg_files L3"] rs(3) good fields by simp
      with createFiles_good cf(4) have "goodFiles orig True (lg_files L)" by metis
      then have "goodFiles orig (res = None) (lg_files L)" by (rule goodFiles_weaken)
      with cf rs(1,2) ents disk mem show ?thesis by simp
    qed (use ents disk good faith fields in \<open>auto simp: keepsRecord_def\<close>)
  qed
  then show "faithful orig (lg_snapshot L)" "goodFiles orig (res = None) (lg_files L)"
    "keepsRecord orig now D rec \<Longrightarrow> stored (\<lambda>_. True) (lg_snapshot L) (lg_files L) rec"
    "res = None \<Longrightarrow> faithful orig (lg_entries L)"
    "res = None \<Longrightarrow> keepsRecord orig now D rec \<Longrightarrow> map_of (lg_entries L) (replayKey rec) = Some rec"
    by blast+
qed

lemma sysInv_restart:
  assumes inv: "sysInv orig s" and down: "\<not> sy_up s" and run: "recoverReplay (sy_now s) io (sy_led s) = (L, res)"
  shows "sysInv orig (s\<lparr>sy_led := L, sy_up := (res = None)\<rparr>)"
proof -
  have D: "goodFiles orig False (lg_files (sy_led s))" "faithful orig (lg_snapshot (sy_led s))"
    and idle: "sy_pending s = []" "sy_job s = Idle"
    using inv down by (simp_all add: sysInv_def)
  note keep = recover_keeps [OF run D]
  have known: "expired (sy_now s) rec \<or> keepsRecord orig (sy_now s) (sy_led s) rec" if "rec \<in> set (sy_acked s)" for rec
    using inv that by (auto simp: sysInv_def onDisk_def keepsRecord_def list_all_iff genuine_def)
  then have disk: "onDisk (\<lambda>_. True) (lg_snapshot L) (s\<lparr>sy_led := L, sy_up := b\<rparr>)" for b
    using keep(3) unfolding onDisk_def by auto
  moreover have "inMemory (s\<lparr>sy_led := L, sy_up := True\<rparr>)" if "res = None"
    using keep(5) [OF that] known idle unfolding inMemory_def by auto
  ultimately show ?thesis using inv keep(1,2,4) idle by (cases res) (simp_all add: sysInv_def)
qed

section \<open>No request is acknowledged twice\<close>

lemma sysInv_step: "replay_step orig s t \<Longrightarrow> sysInv orig s \<Longrightarrow> sysInv orig t"
proof (induction rule: replay_step.induct)
  case (tick s t)
  then show ?case by (simp add: sysInv_tick)
next
  case (decide s rec L)
  then show ?case by (simp add: sysInv_decide)
next
  case (refuse s rec L e)
  then show ?case by (simp add: sysInv_refuse)
next
  case (acknowledge s rec io L)
  then show ?case by (simp add: sysInv_acknowledge)
next
  case (append_fails s rec io L e)
  then show ?case by (simp add: sysInv_append_fails)
next
  case (rotate s io L snap rot old)
  then show ?case by (simp add: sysInv_rotate(2))
next
  case (rotate_fails s io L e)
  then show ?case by (simp add: sysInv_rotate(1))
next
  case (commit s snap rot old n io L)
  then show ?case using commitSnapshot_None sysInv_commit(2) by blast
next
  case (commit_fails s snap rot old n io L e)
  from commitSnapshot_cases [OF commit_fails.hyps(3)] show ?case
    using sysInv_commit(1,3) [OF commit_fails.prems commit_fails.hyps(2)] by (elim disjE) simp_all
next
  case (delete s rot old name L)
  then show ?case by (simp add: sysInv_delete)
next
  case (finish s rot old)
  then show ?case by (simp add: sysInv_def onDisk_def inMemory_def)
next
  case (delete_fails s rot old)
  then show ?case by (simp add: sysInv_def onDisk_def inMemory_def)
next
  case (close s)
  let ?t = "s\<lparr>sy_led := closeReplay (sy_led s), sy_up := False, sy_job := Idle\<rparr>"
  have "sysInv orig (s\<lparr>sy_led := closeReplay (sy_led s), sy_up := False, sy_pending := [], sy_job := Idle\<rparr>)"
    by (rule sysInv_crash [OF close.prems close.hyps(1) tornFiles_refl]) (simp_all add: closeReplay_def closeShards_def)
  moreover have "s\<lparr>sy_led := closeReplay (sy_led s), sy_up := False, sy_pending := [], sy_job := Idle\<rparr> = ?t"
    using close.hyps(2) by (cases s) simp
  ultimately show ?case by simp
next
  case (crash s fs)
  then show ?case by (simp add: sysInv_crash)
next
  case (restart s io L)
  then show ?case using sysInv_restart [of orig s io L None] by simp
next
  case (restart_fails s io L e)
  have eq: "s\<lparr>sy_led := L, sy_up := False\<rparr> = s\<lparr>sy_led := L\<rparr>" using restart_fails.hyps(1) by (cases s) simp
  have "sysInv orig (s\<lparr>sy_led := L, sy_up := False\<rparr>)"
    using sysInv_restart [OF restart_fails.prems restart_fails.hyps] by simp
  then show ?case unfolding eq .
qed

text \<open>A fresh authority root: nothing on disk, nothing running.\<close>

definition emptyLedger :: replayLedger where
  "emptyLedger = \<lparr>lg_entries = [], lg_snapshot = [], lg_files = [], lg_gen = 0, lg_installed = False,
     lg_closed = False, lg_records = 0, lg_wake = False\<rparr>"

definition freshSystem :: "replaySystem \<Rightarrow> bool" where
  "freshSystem s \<longleftrightarrow> sy_led s = emptyLedger \<and> \<not> sy_up s \<and> sy_pending s = [] \<and> sy_acked s = [] \<and> sy_job s = Idle"

interpretation replay: kept_by_steps freshSystem "replay_step orig" "sysInv orig" for orig
proof
  show "freshSystem s \<Longrightarrow> sysInv orig s" for s
    by (simp add: freshSystem_def sysInv_def emptyLedger_def goodFiles_def onDisk_def)
qed (rule sysInv_step)


definition okShards :: shards_io where "okShards = \<lparr>cs_fail = None, cs_sync = None\<rparr>"

definition okAppend :: append_io where "okAppend = \<lparr>ai_write = None, ai_sync = None\<rparr>"

definition okCompact :: compact_io where
  "okCompact = \<lparr>cp_shards = okShards, cp_len = 100,
     cp_commit = \<lparr>cm_mkdir = None, cm_create = None, cm_chmod = None, cm_encode = None, cm_sync = None,
       cm_close = None, cm_rename = None, cm_syncdir = None\<rparr>,
     cp_list = None, cp_remove = None, cp_sync = None\<rparr>"

definition sampleFresh0 :: replaySystem where
  "sampleFresh0 = \<lparr>sy_led = emptyLedger, sy_up = False, sy_pending = [], sy_acked = [], sy_job = Idle, sy_now = 0\<rparr>"

lemma createFiles_ok:
  "distinct is \<Longrightarrow> (\<And>i. i \<in> set is \<Longrightarrow> map_of fs (journalName gen i) = None) \<Longrightarrow> snd (createFiles gen is None fs) = None"
proof (induction "is" arbitrary: fs)
  case (Cons i "is")
  have "map_of (mput (journalName gen i) [] fs) (journalName gen j) = None" if "j \<in> set is" for j
    using Cons.prems that by (auto simp: journalName_inject)
  with Cons show ?case by simp
qed simp

lemma sampleRecovered:
  obtains L where "recoverReplay 0 okCompact emptyLedger = (L, None)" "lg_entries L = []" "lg_installed L" "lg_records L = 0"
proof -
  obtain fs where "createFiles 1 [0..<replayShards] None [] = (fs, None)"
    using createFiles_ok [of "[0..<replayShards]" "[]" 1] by (metis distinct_upt map_of.simps(1) prod.collapse)
  then show ?thesis
    by (intro that [of "(openedLedger emptyLedger)\<lparr>lg_entries := [], lg_files := fs, lg_installed := True\<rparr>"])
      (simp_all add: recoverReplay_def okCompact_def okShards_def openedLedger_def emptyLedger_def journalFiles_def
        unexpiredReplay_def createShards_def Let_def)
qed


end
