(* ===== verification/Replay_Limits.thy ===== *)
theory Replay_Limits
  imports Replay_Safety
begin

text \<open>
  Where the replay ledger's guarantee ends: short writes that the source leaves in a journal, and
  entries pruned on another request's clock reading.
\<close>

section \<open>Two limits of the guarantee\<close>

text \<open>
  The machine assumes that a failed write leaves the journal as it was or holds the whole record.
  The source does not restore a journal after a short write, and goes on appending behind it.
\<close>

lemma be_bytes_4_small:
  assumes "n < 256"
  shows "be_bytes 4 n = [CHR 0x00, CHR 0x00, CHR 0x00, char_of n]"
proof -
  have four: "(4 :: nat) = Suc (Suc (Suc (Suc 0)))" by simp
  show ?thesis using assms unfolding four by (simp add: char_of_def)
qed

lemma short_prefix_corrupt:
  assumes "writable r" and "length (marshalReplay r) < 256"
  shows "readJournal_loop (CHR 0x00 # recordBytes r) es n = (es, n, Some corrupt)"
proof -
  let ?p = "marshalReplay r" and ?c = "be_bytes 4 (unat (crc32c (marshalReplay r)))"
  have bytes: "recordBytes r = be_bytes 4 (length ?p) @ ?c @ ?p" "length (recordBytes r) = replayHeader + length ?p"
    using encode_Inr [OF writable_encode [OF assms(1)]] by metis+
  have len: "be_bytes 4 (length ?p) = [CHR 0x00, CHR 0x00, CHR 0x00, char_of (length ?p)]"
    using assms(2) by (rule be_bytes_4_small)
  let ?d = "CHR 0x00 # recordBytes r"
  have "take 4 ?d = [CHR 0x00, CHR 0x00, CHR 0x00, CHR 0x00]" by (simp add: bytes(1) len)
  then have zero: "be_val (take 4 ?d) = 0" by (simp only: be_val.simps) simp
  have "CHR 0x7B \<in> set ?d" by (simp add: bytes(1) marshalReplay_def json_object_def)
  then have "\<not> allZero ?d" by (auto simp: allZero_def list_all_iff simp del: list.set)
  moreover have "\<not> length ?d < replayHeader" using bytes(2) by simp
  ultimately show ?thesis using zero by (subst readJournal_loop.simps) (simp add: Let_def del: take_Suc_Cons)
qed

text \<open>
  C13. A write that fails after its first byte stays in the journal. The next request of that key is
  acknowledged behind it, and from then on the journal is unreadable: recovery reports corruption,
  so the authority does not open again while the file is there.
\<close>

theorem short_write_blocks_recovery:
  assumes "list_all writable recs" and "writable bad" and "writable rec" and "rp_KeyID rec = rp_KeyID bad"
    and "length (marshalReplay bad) < 256" and "length (marshalReplay rec) < 256"
    and "lg_installed L" and "mget0 [] (lg_files L) (shardFile bad L) = journalBytes recs"
    and "journalAppend \<lparr>ai_write = Some (1, e), ai_sync = None\<rparr> bad L = (L1, Some e)"
    and "journalAppend okAppend rec L1 = (L2, None)"
    and "length (mget0 [] (lg_files L2) (shardFile bad L)) \<le> replayJournalLimit * (replayHeader + maxReplayRecord)"
  shows "readJournal (mget0 [] (lg_files L2) (shardFile bad L)) es = (putAll recs es, length recs, Some corrupt)"
proof -
  have bytes: "recordBytes bad = be_bytes 4 (length (marshalReplay bad)) @ be_bytes 4 (unat (crc32c (marshalReplay bad))) @ marshalReplay bad"
    using encode_Inr [OF writable_encode [OF assms(2)]] by metis
  have one: "take 1 (recordBytes bad) = [CHR 0x00]"
    using be_bytes_4_small [OF assms(5)] by (simp add: bytes)
  have L1: "mget0 [] (lg_files L1) (shardFile bad L) = journalBytes recs @ [CHR 0x00]" "lg_installed L1" "lg_gen L1 = lg_gen L"
    using assms(7,8,9) writable_encode [OF assms(2)] one by (auto simp: journalAppend_def appendBytes_def)
  have "shardFile rec L1 = shardFile bad L" using L1(3) assms(4) by (simp add: shardFile_def)
  then have "mget0 [] (lg_files L2) (shardFile bad L) = journalBytes recs @ CHR 0x00 # recordBytes rec"
    using assms(10) L1 writable_encode [OF assms(3)] by (auto simp: journalAppend_def appendBytes_def okAppend_def Let_def)
  with assms(11) read_journalBytes [OF assms(1)] short_prefix_corrupt [OF assms(3,6)] show ?thesis
    by (simp add: readJournal_def)
qed

definition sampleInstalled :: replayLedger where
  "sampleInstalled = emptyLedger\<lparr>lg_installed := True\<rparr>"

lemma sampleInstalled_fields: "lg_installed sampleInstalled" "lg_files sampleInstalled = []"
  by (simp_all add: sampleInstalled_def emptyLedger_def)

lemma sampleShort:
  obtains L1 L2 where
    "journalAppend \<lparr>ai_write = Some (1, e), ai_sync = None\<rparr> sampleReplay sampleInstalled = (L1, Some e)"
    "journalAppend okAppend sampleReplay L1 = (L2, None)"
    "mget0 [] (lg_files L2) (shardFile sampleReplay sampleInstalled) = take 1 (recordBytes sampleReplay) @ recordBytes sampleReplay"
proof -
  let ?r = sampleReplay and ?name = "shardFile sampleReplay sampleInstalled"
  let ?L1 = "appendBytes ?name (take 1 (recordBytes ?r)) sampleInstalled"
  note enc = writable_encode [OF sampleReplay_writable]
  have 1: "journalAppend \<lparr>ai_write = Some (1, e), ai_sync = None\<rparr> ?r sampleInstalled = (?L1, Some e)"
    using enc sampleInstalled_fields(1) by (simp add: journalAppend_def)
  have fields: "lg_installed ?L1" "mget0 [] (lg_files ?L1) ?name = take 1 (recordBytes ?r)" "shardFile ?r ?L1 = ?name"
    by (simp_all add: appendBytes_def sampleInstalled_fields shardFile_def)
  then obtain L2 where L2: "journalAppend okAppend ?r ?L1 = (L2, None)"
    "lg_files L2 = lg_files (appendBytes ?name (recordBytes ?r) ?L1)"
    using enc by (simp add: journalAppend_def okAppend_def Let_def)
  show ?thesis by (rule that [OF 1 L2(1)]) (simp add: L2(2) appendBytes_def sampleInstalled_fields)
qed

theorem short_write_blocks_recovery_witness:
  "\<exists>L1 L2. journalAppend \<lparr>ai_write = Some (1, ErrIO ''disk full''), ai_sync = None\<rparr> sampleReplay sampleInstalled =
       (L1, Some (ErrIO ''disk full'')) \<and> journalAppend okAppend sampleReplay L1 = (L2, None) \<and>
     readJournal (mget0 [] (lg_files L2) (shardFile sampleReplay sampleInstalled)) [] = ([], 0, Some corrupt)"
proof -
  let ?name = "shardFile sampleReplay sampleInstalled"
  obtain L1 L2 where run: "journalAppend \<lparr>ai_write = Some (1, ErrIO ''disk full''), ai_sync = None\<rparr> sampleReplay sampleInstalled =
      (L1, Some (ErrIO ''disk full''))" "journalAppend okAppend sampleReplay L1 = (L2, None)"
    and bytes: "mget0 [] (lg_files L2) ?name = take 1 (recordBytes sampleReplay) @ recordBytes sampleReplay"
    by (rule sampleShort)
  have "length (mget0 [] (lg_files L2) ?name) \<le> replayJournalLimit * (replayHeader + maxReplayRecord)"
    using length_recordBytes [OF sampleReplay_writable] sampleMarshal
    by (simp add: bytes replayHeader_def maxReplayRecord_def replayJournalLimit_def maxReplayEntries_def)
  from short_write_blocks_recovery [OF _ sampleReplay_writable sampleReplay_writable refl _ _ sampleInstalled_fields(1) _ run this, of "[]" "[]"]
  have "readJournal (mget0 [] (lg_files L2) ?name) [] = ([], 0, Some corrupt)"
    using sampleMarshal sampleInstalled_fields(2) by (simp add: mget0_def)
  with run show ?thesis by blast
qed

text \<open>
  C14. The ledger alone does not reject a replay once another request has pruned the entry: a request
  that is decided after the pruning is accepted whatever its own clock reading was. The expiry
  check of \<^verbatim>\<open>Verify\<close> is made before that, on a clock reading of its own, so two
  requests that read the clock around the expiry of a full ledger's entry can both be accepted.
\<close>

theorem pruned_entry_is_accepted_again:
  assumes "gwf (lg_entries L)" and "map_of (lg_entries L) (replayKey old) = Some old"
    and "length (lg_entries L) \<ge> maxReplayEntries" and "acceptDecide now other L = (L1, None)"
    and "expired now old" and "replayKey other \<noteq> replayKey old" and "length (lg_entries L1) < maxReplayEntries"
  shows "snd (acceptDecide earlier old L) = Some ErrReplay \<and> snd (acceptDecide earlier old L1) = None"
proof -
  have L1: "lg_entries L1 = mput (replayKey other) other (mkeep (\<lambda>k r. \<not> rp_ExpiresAt r < cutoff now) (lg_entries L))"
    "lg_records L1 = lg_records L" "\<not> lg_records L \<ge> int replayJournalLimit"
    using assms(3,4) by (auto simp: acceptDecide_def Let_def split: if_splits)
  have "map_of (lg_entries L1) (replayKey old) = None"
    using assms(1,2,5,6) by (simp add: L1(1) map_of_mkeep expired_def)
  with assms(2,7) L1(2,3) show ?thesis by (simp add: acceptDecide_def Let_def)
qed

definition fullEntry :: "nat \<Rightarrow> replayRecord" where
  "fullEntry i = sampleReplay\<lparr>rp_RequestID := dec_nat i\<rparr>"

definition fullLedger :: replayLedger where
  "fullLedger = emptyLedger\<lparr>lg_entries := map (\<lambda>i. (replayKey (fullEntry i), fullEntry i)) [0..<maxReplayEntries]\<rparr>"

lemma fullEntry_keys: "replayKey (fullEntry i) = replayKey (fullEntry j) \<longleftrightarrow> i = j"
  by (auto simp: replayKey_def fullEntry_def)

lemma fullLedger_fields:
  "gwf (lg_entries fullLedger)" "length (lg_entries fullLedger) = maxReplayEntries" "lg_records fullLedger = 0"
  "map_of (lg_entries fullLedger) (replayKey (fullEntry 0)) = Some (fullEntry 0)"
  "mkeep (\<lambda>k r. \<not> rp_ExpiresAt r < cutoff 6000000000) (lg_entries fullLedger) = []"
proof -
  have "distinct (map (\<lambda>i. replayKey (fullEntry i)) [0..<n])" for n
    by (simp add: distinct_map inj_on_def fullEntry_keys)
  then show wf: "gwf (lg_entries fullLedger)" by (simp add: fullLedger_def o_def)
  show "length (lg_entries fullLedger) = maxReplayEntries" "lg_records fullLedger = 0"
    by (simp_all add: fullLedger_def emptyLedger_def)
  show "map_of (lg_entries fullLedger) (replayKey (fullEntry 0)) = Some (fullEntry 0)"
    using wf by (simp add: map_of_eq_Some_iff) (simp add: fullLedger_def maxReplayEntries_def)
  show "mkeep (\<lambda>k r. \<not> rp_ExpiresAt r < cutoff 6000000000) (lg_entries fullLedger) = []"
    by (auto simp: mkeep_def filter_empty_conv fullLedger_def fullEntry_def sampleReplay_def cutoff_def UnixMilli_def clockSkew_def)
qed

theorem pruned_entry_is_accepted_again_witness:
  "\<exists>L1. acceptDecide 6000000000 sampleReplay fullLedger = (L1, None) \<and>
     snd (acceptDecide 5000000000 (fullEntry 0) fullLedger) = Some ErrReplay \<and>
     snd (acceptDecide 5000000000 (fullEntry 0) L1) = None"
proof -
  have key: "replayKey sampleReplay \<noteq> replayKey (fullEntry i)" for i
  proof
    assume "replayKey sampleReplay = replayKey (fullEntry i)"
    then have "[CHR ''b''] = dec_nat i" by (simp add: replayKey_def fullEntry_def sampleReplay_def)
    then have "CHR ''b'' \<in> set (dec_nat i)" by (metis list.set_intros(1))
    then have "is_digit CHR ''b''" using dec_nat_digits [of i] by (auto simp: list_all_iff)
    then show False by (simp add: is_digit_def)
  qed
  then have absent: "map_of (lg_entries fullLedger) (replayKey sampleReplay) = None"
    by (simp add: map_of_eq_None_iff fullLedger_def image_iff)
  obtain L1 where run: "acceptDecide 6000000000 sampleReplay fullLedger = (L1, None)"
    and one: "lg_entries L1 = [(replayKey sampleReplay, sampleReplay)]"
    using absent fullLedger_fields(2,3,5)
    by (simp add: acceptDecide_def Let_def maxReplayEntries_def replayJournalLimit_def)
  have "expired 6000000000 (fullEntry 0)"
    by (simp add: expired_def fullEntry_def sampleReplay_def cutoff_def UnixMilli_def clockSkew_def)
  from pruned_entry_is_accepted_again [OF fullLedger_fields(1,4) _ run this key] run one fullLedger_fields(2) show ?thesis
    by (auto simp: maxReplayEntries_def)
qed

end
