(* ===== verification/Access_Policy.thy ===== *)
theory Access_Policy
  imports Access_Registry
begin

text \<open>
  Who may call which operation of the control API: the classification table of
  \<^verbatim>\<open>internal/access/scope.go\<close> and the policy of \<^verbatim>\<open>internal/access/policy.go\<close>.
  The resolver is an interface of the code (\<^verbatim>\<open>access.Resolver\<close>), a record of functions
  here; \<^verbatim>\<open>Session_Policy\<close> gives it the daemon's implementation over the session store.
\<close>

section \<open>Vocabulary\<close>

abbreviation (input) "ActionStart \<equiv> ''start''"
abbreviation (input) "ActionRestart \<equiv> ''restart''"
abbreviation (input) "ActionAccountManage \<equiv> ''account-manage''"
abbreviation (input) "ActionAuthReload \<equiv> ''auth-reload''"
abbreviation (input) "ActionCodexLogin \<equiv> ''codex-login''"
abbreviation (input) "ActionQuery \<equiv> ''query''"
abbreviation (input) "ActionSteer \<equiv> ''steer''"
abbreviation (input) "ActionRefresh \<equiv> ''refresh''"
abbreviation (input) "ActionSubscribe \<equiv> ''subscribe''"
abbreviation (input) "ActionDelete \<equiv> ''delete''"
abbreviation (input) "ActionKill \<equiv> ''kill''"
abbreviation (input) "ActionArchive \<equiv> ''archive''"
abbreviation (input) "ActionSetArchived \<equiv> ''set-archived''"
abbreviation (input) "ActionMove \<equiv> ''move''"
abbreviation (input) "ActionRename \<equiv> ''rename''"
abbreviation (input) "ActionRmRepo \<equiv> ''rm-repo''"
abbreviation (input) "ActionAgentSetRepos \<equiv> ''agent-set-repos''"
abbreviation (input) "ActionCoordinatorSetRepos \<equiv> ''coordinator-set-repos''"
abbreviation (input) "ActionAddAgent \<equiv> ''add-agent''"
abbreviation (input) "ActionAddRepo \<equiv> ''add-repo''"
abbreviation (input) "ActionNewWorkgroup \<equiv> ''new-workgroup''"
abbreviation (input) "ActionCreateWorkspace \<equiv> ''create-workspace''"
abbreviation (input) "ActionPaneOpen \<equiv> ''pane.open''"
abbreviation (input) "ActionPaneInput \<equiv> ''pane.input''"
abbreviation (input) "ActionPaneResize \<equiv> ''pane.resize''"
abbreviation (input) "ActionPaneClose \<equiv> ''pane.close''"

abbreviation (input) "QueryCodexControl \<equiv> ''codex-control''"
abbreviation (input) "QueryRepos \<equiv> ''repos''"
abbreviation (input) "QueryAgentSessions \<equiv> ''agent-sessions''"
abbreviation (input) "QuerySessions \<equiv> ''sessions''"
abbreviation (input) "QuerySnapshot \<equiv> ''snapshot''"
abbreviation (input) "QueryRuntimePath \<equiv> ''runtime-path''"
abbreviation (input) "QueryRuntimeRecord \<equiv> ''runtime-record''"
abbreviation (input) "QueryRuntimeEvents \<equiv> ''runtime-events''"
abbreviation (input) "QueryVersion \<equiv> ''version''"
abbreviation (input) "QueryAccounts \<equiv> ''accounts''"
abbreviation (input) "QueryAccountManage \<equiv> ''account-manage''"
abbreviation (input) "QueryAccountCeremony \<equiv> ''account-ceremony''"
abbreviation (input) "QueryCodexAuth \<equiv> ''codex-auth''"
abbreviation (input) "QueryResources \<equiv> ''resources''"

abbreviation (input) "SteerVerb \<equiv> ''verb''"
abbreviation (input) "SteerText \<equiv> ''text''"
abbreviation (input) "SteerDecision \<equiv> ''decision''"
abbreviation (input) "SteerRequestID \<equiv> ''request_id''"
abbreviation (input) "SteerReason \<equiv> ''reason''"
abbreviation (input) "SteerPrompt \<equiv> ''prompt''"
abbreviation (input) "SteerInterject \<equiv> ''interject''"
abbreviation (input) "SteerStop \<equiv> ''stop''"
abbreviation (input) "SteerPermission \<equiv> ''permission''"
abbreviation (input) "SteerAllow \<equiv> ''allow''"
abbreviation (input) "SteerDeny \<equiv> ''deny''"
abbreviation (input) "RuntimeGenerationField \<equiv> ''runtime_generation''"

abbreviation (input) "RouteQuery \<equiv> ''query''"
abbreviation (input) "RouteAction \<equiv> ''action''"
abbreviation (input) "RoutePane \<equiv> ''pane''"

type_synonym Route = string
type_synonym Fields = "(string, string) gomap"

record Request =
  rq_Route :: Route
  rq_Verb :: string
  rq_ID :: string
  rq_Target :: string
  rq_Tab :: int
  rq_Fields :: Fields

record Resource =
  rs_ID :: string
  rs_RootID :: string
  rs_Role :: string
  rs_Scope :: string
  rs_Repo :: string
  rs_Archived :: bool

record Resolver =
  rv_Lookup :: "string \<Rightarrow> access_error + Resource option"
  rv_RepoGranted :: "string \<Rightarrow> string \<Rightarrow> access_error + bool"
  rv_ProviderAllows :: "string \<Rightarrow> Request \<Rightarrow> access_error + bool"

abbreviation field :: "Fields \<Rightarrow> string \<Rightarrow> string" where
  "field fs k \<equiv> mget0 [] fs k"

section \<open>Classification\<close>

datatype Scope = ScopeHost | ScopeSession | ScopeFiltered | ScopeWorkgroup

text \<open>\<open>ru_Allow\<close> is None where the code's function pointer is nil.\<close>

record Rule =
  ru_Scope :: Scope
  ru_Console :: bool
  ru_Allow :: "(Request \<Rightarrow> bool \<Rightarrow> Resource \<Rightarrow> bool) option"

definition allowSteer :: "Request \<Rightarrow> bool \<Rightarrow> Resource \<Rightarrow> bool" where
  "allowSteer req self target =
     (let verb = field (rq_Fields req) SteerVerb
      in if verb = SteerPrompt \<or> verb = SteerInterject \<or> verb = SteerStop then True
         else if verb = SteerPermission then
           \<not> self \<and> TrimSpace (field (rq_Fields req) SteerRequestID) \<noteq> [] \<and>
           TrimSpace (field (rq_Fields req) RuntimeGenerationField) \<noteq> []
         else False)"

definition allowArchive :: "Request \<Rightarrow> bool \<Rightarrow> Resource \<Rightarrow> bool" where
  "allowArchive req self target =
     (if field (rq_Fields req) ''archived'' \<noteq> ''true'' then False
      else if field (rq_Fields req) ''force'' = ''true'' \<and> self then False
      else rs_RootID target \<noteq> [] \<or> (self \<and> rs_Role target = ''coordinator''))"

definition allowAddAgent :: "Request \<Rightarrow> bool \<Rightarrow> Resource \<Rightarrow> bool" where
  "allowAddAgent req self target \<longleftrightarrow> self \<and> rs_Role target = ''coordinator''"

definition ruleOf :: "Scope \<Rightarrow> bool \<Rightarrow> Rule" where
  "ruleOf scope console = \<lparr>ru_Scope = scope, ru_Console = console, ru_Allow = None\<rparr>"

definition narrowed :: "bool \<Rightarrow> (Request \<Rightarrow> bool \<Rightarrow> Resource \<Rightarrow> bool) \<Rightarrow> Rule" where
  "narrowed console allow = \<lparr>ru_Scope = ScopeWorkgroup, ru_Console = console, ru_Allow = Some allow\<rparr>"

definition rules :: "(Route, (string, Rule) gomap) gomap" where
  "rules =
     [(RouteAction,
       [(ActionStart, ruleOf ScopeWorkgroup False),
        (ActionSteer, narrowed False allowSteer),
        (ActionRename, ruleOf ScopeWorkgroup False),
        (ActionSetArchived, narrowed True allowArchive),
        (ActionAddAgent, narrowed True allowAddAgent),
        (ActionRefresh, ruleOf ScopeHost True),
        (ActionMove, ruleOf ScopeHost True),
        (ActionDelete, ruleOf ScopeHost True),
        (ActionKill, ruleOf ScopeHost True),
        (ActionAddRepo, ruleOf ScopeHost True),
        (ActionRmRepo, ruleOf ScopeHost True),
        (ActionAgentSetRepos, ruleOf ScopeHost True),
        (ActionNewWorkgroup, ruleOf ScopeHost True),
        (ActionCreateWorkspace, ruleOf ScopeHost True),
        (ActionArchive, ruleOf ScopeHost False),
        (ActionRestart, ruleOf ScopeHost False),
        (ActionAuthReload, ruleOf ScopeHost False),
        (ActionAccountManage, ruleOf ScopeHost False),
        (ActionCodexLogin, ruleOf ScopeHost False),
        (ActionCoordinatorSetRepos, ruleOf ScopeHost False),
        (ActionSubscribe, ruleOf ScopeHost False),
        (ActionQuery, ruleOf ScopeHost False)]),
      (RoutePane,
       [(ActionPaneOpen, ruleOf ScopeHost False),
        (ActionPaneInput, ruleOf ScopeHost False),
        (ActionPaneResize, ruleOf ScopeHost False),
        (ActionPaneClose, ruleOf ScopeHost False)]),
      (RouteQuery,
       [(QueryVersion, ruleOf ScopeSession False),
        (QueryCodexControl, ruleOf ScopeSession False),
        (QueryAgentSessions, ruleOf ScopeSession False),
        (QuerySessions, ruleOf ScopeFiltered False),
        (QuerySnapshot, ruleOf ScopeFiltered False),
        (QueryRepos, ruleOf ScopeFiltered False),
        (QueryRuntimeEvents, ruleOf ScopeWorkgroup False),
        (QueryRuntimePath, ruleOf ScopeHost False),
        (QueryRuntimeRecord, ruleOf ScopeHost False),
        (QueryAccounts, ruleOf ScopeHost False),
        (QueryAccountManage, ruleOf ScopeHost False),
        (QueryAccountCeremony, ruleOf ScopeHost False),
        (QueryCodexAuth, ruleOf ScopeHost False),
        (QueryResources, ruleOf ScopeHost False)])]"

text \<open>Indexing an absent route gives the nil map, which has no verb.\<close>

definition RuleFor :: "Route \<Rightarrow> string \<Rightarrow> Rule option" where
  "RuleFor route verb = map_of (mget0 [] rules route) verb"

definition Classified :: "(Route, (string, Scope) gomap) gomap" where
  "Classified = map (\<lambda>(route, verbs). (route, map (\<lambda>(verb, rule). (verb, ru_Scope rule)) verbs)) rules"

section \<open>Policy\<close>

definition InWorkgroupScope :: "Resource \<Rightarrow> Resource \<Rightarrow> bool" where
  "InWorkgroupScope subject target =
     (if rs_Role subject = ''console'' then True
      else if rs_Role subject = ''coordinator'' then rs_ID target = rs_ID subject \<or> rs_RootID target = rs_ID subject
      else if rs_Role subject = ''repo'' \<or> rs_Role subject = [] then rs_ID target = rs_ID subject
      else False)"

definition knownRole :: "string \<Rightarrow> bool" where
  "knownRole role \<longleftrightarrow> role = [] \<or> role = ''console'' \<or> role = ''coordinator'' \<or> role = ''repo''"

definition splitList :: "string \<Rightarrow> string list" where
  "splitList value = filter (\<lambda>item. item \<noteq> []) (map TrimSpace (split_on CHR '','' value))"

definition repoScopedWorkgroup :: "Resource \<Rightarrow> Request \<Rightarrow> bool" where
  "repoScopedWorkgroup subject req =
     (let repos = splitList (field (rq_Fields req) ''repos'') in length repos = 1 \<and> repos ! 0 = rs_Repo subject)"

text \<open>The loop over the requested repositories stops at the first that fails.\<close>

fun grantLoop :: "Resolver \<Rightarrow> Resource \<Rightarrow> string list \<Rightarrow> access_error option" where
  "grantLoop R subject [] = None"
| "grantLoop R subject (repo # repos) =
     (case rv_RepoGranted R (rs_ID subject) repo of
        Inl e \<Rightarrow> Some e
      | Inr ok \<Rightarrow> if ok then grantLoop R subject repos else Some (ErrRepoNotGranted repo (rs_ID subject)))"

definition addAgentFields :: "string list" where
  "addAgentFields = [''agent'', ''prompt'', ''mode'', ''model'', ''repos'']"

definition authorizeAddAgent :: "Resolver \<Rightarrow> Resource \<Rightarrow> Request \<Rightarrow> access_error option" where
  "authorizeAddAgent R subject req =
     (if \<not> list_all (\<lambda>(key, v). key \<in> set addAgentFields) (rq_Fields req) then Some ErrDenied
      else grantLoop R subject (splitList (field (rq_Fields req) ''repos'')))"

text \<open>From the target on: \<open>p.Authorize\<close> of a workgroup rule, once the target row is known.\<close>

definition authorizeTarget :: "Resolver \<Rightarrow> Rule \<Rightarrow> Resource \<Rightarrow> Resource \<Rightarrow> Request \<Rightarrow> access_error option" where
  "authorizeTarget R rule subject target req =
     (if rs_Role subject = ''console'' \<and> ru_Console rule then None
      else (let self = (rs_ID target = rs_ID subject)
            in if \<not> InWorkgroupScope subject target then Some ErrDenied
               else if rq_Route req = RouteAction \<and> rs_Archived target then Some ErrDenied
               else if (case ru_Allow rule of None \<Rightarrow> False | Some allow \<Rightarrow> \<not> allow req self target) then Some ErrDenied
               else if rq_Verb req = ActionAddAgent \<and> rs_Role subject \<noteq> ''console'' then authorizeAddAgent R subject req
               else None))"

definition authorizeScope :: "Resolver \<Rightarrow> Rule \<Rightarrow> Resource \<Rightarrow> Request \<Rightarrow> access_error option" where
  "authorizeScope R rule subject req =
     (case ru_Scope rule of
        ScopeSession \<Rightarrow> None
      | ScopeFiltered \<Rightarrow> None
      | ScopeHost \<Rightarrow>
          if rs_Role subject = ''console'' \<and> ru_Console rule then None
          else if rs_Role subject = ''repo'' \<and> rq_Verb req = ActionNewWorkgroup \<and> rq_ID req = [] \<and>
                  repoScopedWorkgroup subject req then None
          else Some ErrDenied
      | ScopeWorkgroup \<Rightarrow>
          if TrimSpace (rq_ID req) = [] then Some ErrDenied
          else if rq_ID req = rs_ID subject then authorizeTarget R rule subject subject req
          else (case rv_Lookup R (rq_ID req) of
              Inl e \<Rightarrow> Some e
            | Inr None \<Rightarrow> Some ErrDenied
            | Inr (Some target) \<Rightarrow> authorizeTarget R rule subject target req))"

definition Authorize :: "Resolver option \<Rightarrow> Principal \<Rightarrow> Request \<Rightarrow> access_error option" where
  "Authorize resolver pr req =
     (if p_Kind pr = SubjectHost then None
      else if p_Kind pr = SubjectProvider then
        (case resolver of
           None \<Rightarrow> Some ErrDenied
         | Some R \<Rightarrow>
             (case rv_ProviderAllows R (p_SubjectID pr) req of
                Inl e \<Rightarrow> Some e
              | Inr ok \<Rightarrow> if ok then None else Some ErrDenied))
      else if p_Kind pr \<noteq> SubjectSession then Some ErrDenied
      else (case resolver of
          None \<Rightarrow> Some ErrDenied
        | Some R \<Rightarrow>
            (case RuleFor (rq_Route req) (rq_Verb req) of
               None \<Rightarrow> Some ErrDenied
             | Some rule \<Rightarrow>
                 (case rv_Lookup R (p_SubjectID pr) of
                    Inl e \<Rightarrow> Some e
                  | Inr None \<Rightarrow> Some ErrDenied
                  | Inr (Some subject) \<Rightarrow>
                      if rs_Archived subject \<or> \<not> knownRole (rs_Role subject) then Some ErrDenied
                      else authorizeScope R rule subject req))))"

section \<open>Snapshots\<close>

text \<open>
  The published session row: the fields the projections read or blank, and the rest of the row as
  one value the code copies unchanged.
\<close>

record 'x SnapSession =
  sn_ID :: string
  sn_State :: string
  sn_Status :: string
  sn_Cwd :: string
  sn_Pid :: int
  sn_CanAttach :: bool
  sn_CanKill :: bool
  sn_CanResume :: bool
  sn_Rest :: 'x

record 'x Snapshot =
  sp_Type :: string
  sp_Sessions :: "'x SnapSession list"
  sp_UpdatedAt :: int

fun filterProvider :: "Resolver \<Rightarrow> string \<Rightarrow> 'x SnapSession list \<Rightarrow> access_error + 'x SnapSession list" where
  "filterProvider R sid [] = Inr []"
| "filterProvider R sid (session # rest) =
     (case rv_ProviderAllows R sid \<lparr>rq_Route = RouteQuery, rq_Verb = QuerySnapshot, rq_ID = sn_ID session,
                                    rq_Target = [], rq_Tab = 0, rq_Fields = []\<rparr> of
        Inl e \<Rightarrow> Inl e
      | Inr ok \<Rightarrow> (case filterProvider R sid rest of Inl e \<Rightarrow> Inl e | Inr out \<Rightarrow> Inr (if ok then session # out else out)))"

fun filterScope :: "Resolver \<Rightarrow> Resource \<Rightarrow> 'x SnapSession list \<Rightarrow> access_error + 'x SnapSession list" where
  "filterScope R subject [] = Inr []"
| "filterScope R subject (session # rest) =
     (case rv_Lookup R (sn_ID session) of
        Inl e \<Rightarrow> Inl e
      | Inr found \<Rightarrow>
          (case filterScope R subject rest of
             Inl e \<Rightarrow> Inl e
           | Inr out \<Rightarrow>
               Inr (case found of
                      None \<Rightarrow> out
                    | Some resource \<Rightarrow>
                        if InWorkgroupScope subject resource then session\<lparr>sn_Cwd := [], sn_Pid := 0\<rparr> # out else out)))"

definition FilterSnapshot :: "Resolver option \<Rightarrow> Principal \<Rightarrow> 'x Snapshot \<Rightarrow> access_error + 'x Snapshot" where
  "FilterSnapshot resolver pr snap =
     (if p_Kind pr = SubjectHost then Inr snap
      else (case resolver of
          None \<Rightarrow> Inl ErrDenied
        | Some R \<Rightarrow>
            if p_Kind pr = SubjectProvider then
              map_sum id (\<lambda>out. snap\<lparr>sp_Sessions := out\<rparr>) (filterProvider R (p_SubjectID pr) (sp_Sessions snap))
            else if p_Kind pr \<noteq> SubjectSession then Inl ErrDenied
            else (case rv_Lookup R (p_SubjectID pr) of
                Inl e \<Rightarrow> Inl e
              | Inr None \<Rightarrow> Inl ErrDenied
              | Inr (Some subject) \<Rightarrow>
                  if rs_Archived subject then Inl ErrDenied
                  else map_sum id (\<lambda>out. snap\<lparr>sp_Sessions := out\<rparr>) (filterScope R subject (sp_Sessions snap)))))"

section \<open>The table read as one function\<close>

definition openQueries :: "string list" where
  "openQueries = [QueryVersion, QueryCodexControl, QueryAgentSessions, QuerySessions, QuerySnapshot, QueryRepos]"

definition consoleActions :: "string list" where
  "consoleActions = [ActionRefresh, ActionMove, ActionDelete, ActionKill, ActionAddRepo, ActionRmRepo, ActionAgentSetRepos,
     ActionNewWorkgroup, ActionCreateWorkspace]"

definition isHostOnly :: "Rule option \<Rightarrow> bool" where
  "isHostOnly r \<longleftrightarrow> r = None \<or> r = Some (ruleOf ScopeHost False)"

lemma RuleFor_start: "RuleFor RouteAction ActionStart = Some (ruleOf ScopeWorkgroup False)"
  and RuleFor_rename: "RuleFor RouteAction ActionRename = Some (ruleOf ScopeWorkgroup False)"
  and RuleFor_steer: "RuleFor RouteAction ActionSteer = Some (narrowed False allowSteer)"
  and RuleFor_archive: "RuleFor RouteAction ActionSetArchived = Some (narrowed True allowArchive)"
  and RuleFor_add: "RuleFor RouteAction ActionAddAgent = Some (narrowed True allowAddAgent)"
  and RuleFor_events: "RuleFor RouteQuery QueryRuntimeEvents = Some (ruleOf ScopeWorkgroup False)"
  by (simp_all add: RuleFor_def rules_def)

lemma RuleFor_console: "v \<in> set consoleActions \<Longrightarrow> RuleFor RouteAction v = Some (ruleOf ScopeHost True)"
  unfolding consoleActions_def list.set insert_iff empty_iff
  by (elim disjE) (simp_all add: RuleFor_def rules_def)

lemma RuleFor_open: "v \<in> set openQueries \<Longrightarrow> \<exists>scope \<in> {ScopeSession, ScopeFiltered}. RuleFor RouteQuery v = Some (ruleOf scope False)"
  unfolding openQueries_def list.set insert_iff empty_iff
  by (elim disjE) (simp_all add: RuleFor_def rules_def)

lemma RuleFor_action_rest:
  "v \<notin> set consoleActions \<Longrightarrow> v \<notin> {ActionStart, ActionRename, ActionSteer, ActionSetArchived, ActionAddAgent} \<Longrightarrow> isHostOnly (RuleFor RouteAction v)"
  by (simp add: consoleActions_def RuleFor_def rules_def isHostOnly_def)

lemma RuleFor_query_rest: "v \<notin> set openQueries \<Longrightarrow> v \<noteq> QueryRuntimeEvents \<Longrightarrow> isHostOnly (RuleFor RouteQuery v)"
  by (simp add: openQueries_def RuleFor_def rules_def isHostOnly_def)

lemma RuleFor_other_route: "r \<noteq> RouteAction \<Longrightarrow> r \<noteq> RouteQuery \<Longrightarrow> isHostOnly (RuleFor r v)"
  by (simp add: RuleFor_def rules_def isHostOnly_def)

lemma RuleFor_new_workgroup: "r \<noteq> RouteAction \<Longrightarrow> RuleFor r ActionNewWorkgroup = None"
  by (simp add: RuleFor_def rules_def)

section \<open>The policy by role\<close>

text \<open>
  The policy as its documentation states it, by what a role may do rather than by the order in which
  the code decides: the row a request names, and the conditions on it for each verb.
\<close>

definition targetOf :: "Resolver \<Rightarrow> Resource \<Rightarrow> Request \<Rightarrow> Resource option" where
  "targetOf R subject req =
     (if TrimSpace (rq_ID req) = [] then None
      else if rq_ID req = rs_ID subject then Some subject
      else (case rv_Lookup R (rq_ID req) of Inl e \<Rightarrow> None | Inr found \<Rightarrow> found))"

definition maySteer :: "Resource \<Rightarrow> Resource \<Rightarrow> Fields \<Rightarrow> bool" where
  "maySteer s t fs \<longleftrightarrow>
     field fs SteerVerb \<in> {SteerPrompt, SteerInterject, SteerStop} \<or>
     field fs SteerVerb = SteerPermission \<and> rs_ID t \<noteq> rs_ID s \<and> TrimSpace (field fs SteerRequestID) \<noteq> [] \<and>
       TrimSpace (field fs RuntimeGenerationField) \<noteq> []"

definition mayArchive :: "Resource \<Rightarrow> Resource \<Rightarrow> Fields \<Rightarrow> bool" where
  "mayArchive s t fs \<longleftrightarrow>
     field fs ''archived'' = ''true'' \<and> (rs_ID t = rs_ID s \<longrightarrow> field fs ''force'' \<noteq> ''true'') \<and>
     (rs_RootID t = [] \<longrightarrow> rs_ID t = rs_ID s \<and> rs_Role t = ''coordinator'')"

definition mayAdd :: "Resolver \<Rightarrow> Resource \<Rightarrow> Resource \<Rightarrow> Fields \<Rightarrow> bool" where
  "mayAdd R s t fs \<longleftrightarrow>
     rs_ID t = rs_ID s \<and> rs_Role t = ''coordinator'' \<and> (\<forall>(key, v) \<in> set fs. key \<in> set addAgentFields) \<and>
     (\<forall>repo \<in> set (splitList (field fs ''repos'')). rv_RepoGranted R (rs_ID s) repo = Inr True)"

definition mayAct :: "Resolver \<Rightarrow> Resource \<Rightarrow> Resource \<Rightarrow> Request \<Rightarrow> bool" where
  "mayAct R s t req \<longleftrightarrow> InWorkgroupScope s t \<and>
     (rq_Route req = RouteQuery \<and> rq_Verb req = QueryRuntimeEvents \<or>
      rq_Route req = RouteAction \<and> \<not> rs_Archived t \<and>
        (rq_Verb req \<in> {ActionStart, ActionRename} \<or>
         rq_Verb req = ActionSteer \<and> maySteer s t (rq_Fields req) \<or>
         rq_Verb req = ActionSetArchived \<and> mayArchive s t (rq_Fields req) \<or>
         rq_Verb req = ActionAddAgent \<and> mayAdd R s t (rq_Fields req)))"

definition permitted :: "Resolver \<Rightarrow> Resource \<Rightarrow> Request \<Rightarrow> bool" where
  "permitted R s req \<longleftrightarrow>
     rq_Route req = RouteQuery \<and> rq_Verb req \<in> set openQueries \<or>
     rs_Role s = ''console'' \<and> rq_Route req = RouteAction \<and>
       (rq_Verb req \<in> set consoleActions \<or> rq_Verb req \<in> {ActionSetArchived, ActionAddAgent} \<and> targetOf R s req \<noteq> None) \<or>
     rs_Role s = ''repo'' \<and> rq_Route req = RouteAction \<and> rq_Verb req = ActionNewWorkgroup \<and> rq_ID req = [] \<and>
       splitList (field (rq_Fields req) ''repos'') = [rs_Repo s] \<or>
     (\<exists>t. targetOf R s req = Some t \<and> mayAct R s t req)"

lemma repoScopedWorkgroup_iff: "repoScopedWorkgroup s req \<longleftrightarrow> splitList (field (rq_Fields req) ''repos'') = [rs_Repo s]"
  by (cases "splitList (field (rq_Fields req) ''repos'')") (auto simp: repoScopedWorkgroup_def Let_def)

lemma grantLoop_None: "grantLoop R s repos = None \<longleftrightarrow> (\<forall>repo \<in> set repos. rv_RepoGranted R (rs_ID s) repo = Inr True)"
  by (induction repos) (auto split: sum.split)

lemma authorizeAddAgent_None:
  "authorizeAddAgent R s req = None \<longleftrightarrow> (\<forall>(key, v) \<in> set (rq_Fields req). key \<in> set addAgentFields) \<and>
     (\<forall>repo \<in> set (splitList (field (rq_Fields req) ''repos'')). rv_RepoGranted R (rs_ID s) repo = Inr True)"
  by (auto simp: authorizeAddAgent_def grantLoop_None list_all_iff)

lemma workgroup_scope:
  assumes "ru_Scope rule = ScopeWorkgroup"
  shows "authorizeScope R rule s req = None \<longleftrightarrow> (\<exists>t. targetOf R s req = Some t \<and> authorizeTarget R rule s t req = None)"
  using assms by (auto simp: authorizeScope_def targetOf_def split: sum.splits option.splits)

lemma open_scope: "scope \<in> {ScopeSession, ScopeFiltered} \<Longrightarrow> authorizeScope R (ruleOf scope False) s req = None"
  by (auto simp: authorizeScope_def ruleOf_def)

lemma host_scope:
  "authorizeScope R (ruleOf ScopeHost console) s req = None \<longleftrightarrow> rs_Role s = ''console'' \<and> console \<or>
     rs_Role s = ''repo'' \<and> rq_Verb req = ActionNewWorkgroup \<and> rq_ID req = [] \<and> repoScopedWorkgroup s req"
  by (simp add: authorizeScope_def ruleOf_def)

lemma plain_target:
  assumes "rq_Verb req \<noteq> ActionAddAgent"
  shows "authorizeTarget R (ruleOf ScopeWorkgroup False) s t req = None \<longleftrightarrow>
    InWorkgroupScope s t \<and> \<not> (rq_Route req = RouteAction \<and> rs_Archived t)"
  using assms by (simp add: authorizeTarget_def ruleOf_def Let_def)

lemma steer_target:
  assumes "rq_Route req = RouteAction" and "rq_Verb req = ActionSteer"
  shows "authorizeTarget R (narrowed False allowSteer) s t req = None \<longleftrightarrow>
    InWorkgroupScope s t \<and> \<not> rs_Archived t \<and> maySteer s t (rq_Fields req)"
  using assms by (auto simp: authorizeTarget_def narrowed_def Let_def allowSteer_def maySteer_def)

lemma archive_target:
  assumes "rq_Route req = RouteAction" and "rq_Verb req = ActionSetArchived"
  shows "authorizeTarget R (narrowed True allowArchive) s t req = None \<longleftrightarrow> rs_Role s = ''console'' \<or>
    InWorkgroupScope s t \<and> \<not> rs_Archived t \<and> mayArchive s t (rq_Fields req)"
  using assms by (auto simp: authorizeTarget_def narrowed_def Let_def allowArchive_def mayArchive_def)

lemma add_target:
  assumes "rq_Route req = RouteAction" and "rq_Verb req = ActionAddAgent"
  shows "authorizeTarget R (narrowed True allowAddAgent) s t req = None \<longleftrightarrow> rs_Role s = ''console'' \<or>
    InWorkgroupScope s t \<and> \<not> rs_Archived t \<and> mayAdd R s t (rq_Fields req)"
  using assms by (auto simp: authorizeTarget_def narrowed_def Let_def allowAddAgent_def mayAdd_def authorizeAddAgent_None)

lemma scope_host_only:
  assumes "isHostOnly (RuleFor (rq_Route req) (rq_Verb req))" and "RuleFor (rq_Route req) (rq_Verb req) = Some rule"
    and "rq_Verb req = ActionNewWorkgroup \<longrightarrow> rq_Route req \<noteq> RouteAction"
  shows "authorizeScope R rule s req \<noteq> None"
proof -
  have "rule = ruleOf ScopeHost False" using assms(1,2) by (simp add: isHostOnly_def)
  moreover have "rq_Verb req \<noteq> ActionNewWorkgroup" using assms(2,3) RuleFor_new_workgroup by auto
  ultimately show ?thesis by (simp add: host_scope)
qed

definition ruled :: "Resolver \<Rightarrow> Resource \<Rightarrow> Request \<Rightarrow> bool" where
  "ruled R s req \<longleftrightarrow> (\<exists>rule. RuleFor (rq_Route req) (rq_Verb req) = Some rule \<and> authorizeScope R rule s req = None)"

lemma scope_of_rule [simp]: "ru_Scope (ruleOf scope console) = scope" "ru_Scope (narrowed console allow) = ScopeWorkgroup"
  by (simp_all add: ruleOf_def narrowed_def)

lemma ruled_start:
  assumes "rq_Route req = RouteAction" and "rq_Verb req = ActionStart \<or> rq_Verb req = ActionRename"
  shows "ruled R s req \<longleftrightarrow> permitted R s req"
proof -
  have "RuleFor (rq_Route req) (rq_Verb req) = Some (ruleOf ScopeWorkgroup False)"
    using assms RuleFor_start RuleFor_rename by auto
  moreover have "rq_Verb req \<noteq> ActionAddAgent" "rq_Verb req \<notin> set consoleActions" "rq_Verb req \<notin> {ActionSetArchived, ActionAddAgent}"
    "rq_Verb req \<noteq> ActionNewWorkgroup" "rq_Verb req \<noteq> ActionSteer"
    using assms(2) by (auto simp: consoleActions_def)
  ultimately show ?thesis
    using assms by (simp add: ruled_def workgroup_scope plain_target permitted_def mayAct_def)
qed

lemma ruled_events:
  assumes "rq_Route req = RouteQuery" and "rq_Verb req = QueryRuntimeEvents"
  shows "ruled R s req \<longleftrightarrow> permitted R s req"
  using assms by (simp add: ruled_def RuleFor_events workgroup_scope plain_target permitted_def mayAct_def openQueries_def)

lemma ruled_steer:
  assumes "rq_Route req = RouteAction" and "rq_Verb req = ActionSteer"
  shows "ruled R s req \<longleftrightarrow> permitted R s req"
  using assms by (simp add: ruled_def RuleFor_steer workgroup_scope steer_target permitted_def mayAct_def consoleActions_def)

lemma ruled_archive:
  assumes "rq_Route req = RouteAction" and "rq_Verb req = ActionSetArchived"
  shows "ruled R s req \<longleftrightarrow> permitted R s req"
  using assms by (auto simp: ruled_def RuleFor_archive workgroup_scope archive_target permitted_def mayAct_def consoleActions_def)

lemma ruled_add:
  assumes "rq_Route req = RouteAction" and "rq_Verb req = ActionAddAgent"
  shows "ruled R s req \<longleftrightarrow> permitted R s req"
  using assms by (auto simp: ruled_def RuleFor_add workgroup_scope add_target permitted_def mayAct_def consoleActions_def)

lemma ruled_console:
  assumes "rq_Route req = RouteAction" and "rq_Verb req \<in> set consoleActions"
  shows "ruled R s req \<longleftrightarrow> permitted R s req"
proof -
  have "\<not> mayAct R s t req" for t using assms by (auto simp: mayAct_def consoleActions_def)
  moreover have "rq_Verb req \<notin> {ActionSetArchived, ActionAddAgent}" using assms(2) by (auto simp: consoleActions_def)
  ultimately show ?thesis
    using assms RuleFor_console [OF assms(2)] by (auto simp: ruled_def host_scope permitted_def repoScopedWorkgroup_iff)
qed

lemma ruled_open:
  assumes "rq_Route req = RouteQuery" and "rq_Verb req \<in> set openQueries"
  shows "ruled R s req \<longleftrightarrow> permitted R s req"
  using assms RuleFor_open [OF assms(2)] open_scope by (auto simp: ruled_def permitted_def)

lemma ruled_rest:
  assumes "isHostOnly (RuleFor (rq_Route req) (rq_Verb req))"
    and "rq_Route req = RouteAction \<longrightarrow> rq_Verb req \<notin> set consoleActions \<and>
      rq_Verb req \<notin> {ActionStart, ActionRename, ActionSteer, ActionSetArchived, ActionAddAgent}"
    and "rq_Route req = RouteQuery \<longrightarrow> rq_Verb req \<notin> set openQueries \<and> rq_Verb req \<noteq> QueryRuntimeEvents"
  shows "ruled R s req \<longleftrightarrow> permitted R s req"
proof -
  have new: "rq_Verb req = ActionNewWorkgroup \<longrightarrow> rq_Route req \<noteq> RouteAction"
    using assms(2) by (auto simp: consoleActions_def)
  then have "\<not> ruled R s req" using scope_host_only [OF assms(1)] by (auto simp: ruled_def)
  moreover have "\<not> permitted R s req"
    using assms(2,3) new by (auto simp: permitted_def mayAct_def)
  ultimately show ?thesis by blast
qed

lemma ruled_iff_permitted: "ruled R s req \<longleftrightarrow> permitted R s req"
proof -
  consider "rq_Route req = RouteAction" | "rq_Route req = RouteQuery" | "rq_Route req \<noteq> RouteAction" "rq_Route req \<noteq> RouteQuery"
    by blast
  then show ?thesis
  proof cases
    case 1
    show ?thesis
    proof (cases "rq_Verb req \<in> set consoleActions")
      case True
      then show ?thesis by (rule ruled_console [OF 1])
    next
      case False
      show ?thesis
      proof (cases "rq_Verb req \<in> {ActionStart, ActionRename, ActionSteer, ActionSetArchived, ActionAddAgent}")
        case True
        then show ?thesis using 1 ruled_start ruled_steer ruled_archive ruled_add by blast
      next
        case rest: False
        then have "isHostOnly (RuleFor (rq_Route req) (rq_Verb req))" using RuleFor_action_rest [OF False] 1 by simp
        then show ?thesis by (rule ruled_rest) (use 1 False rest in simp_all)
      qed
    qed
  next
    case 2
    then show ?thesis
      using ruled_open ruled_events RuleFor_query_rest [of "rq_Verb req"] ruled_rest [of req R s] by fastforce
  next
    case 3
    then show ?thesis using RuleFor_other_route ruled_rest [of req R s] by blast
  qed
qed

lemma Authorize_spec:
  assumes "p_Kind p = SubjectSession"
  shows "Authorize (Some R) p req = None \<longleftrightarrow>
    (\<exists>s. rv_Lookup R (p_SubjectID p) = Inr (Some s) \<and> \<not> rs_Archived s \<and> knownRole (rs_Role s) \<and> permitted R s req)"
proof -
  have "Authorize (Some R) p req = None \<longleftrightarrow>
    (\<exists>s. rv_Lookup R (p_SubjectID p) = Inr (Some s) \<and> \<not> rs_Archived s \<and> knownRole (rs_Role s) \<and> ruled R s req)"
    using assms by (auto simp: Authorize_def SubjectHost_def SubjectProvider_def SubjectSession_def ruled_def split: option.splits sum.splits)
  then show ?thesis by (simp add: ruled_iff_permitted)
qed

text \<open>
  C25. The policy decides exactly what its documentation says. For a session principal,
  \<^verbatim>\<open>Authorize\<close> allows a request if and only if the session's current row is found, is not
  archived, has a known role, and that role is permitted the request: everyone the open queries, the
  console its delegated operations, a repository home a workgroup for its own repository, and
  otherwise only operations on a live session in the caller's own scope, with the conditions on
  steering, archiving and adding agents.
\<close>

theorem Authorize_iff_permitted:
  assumes "p_Kind p = SubjectSession"
  shows "Authorize (Some R) p req = None \<longleftrightarrow>
    (\<exists>s. rv_Lookup R (p_SubjectID p) = Inr (Some s) \<and> \<not> rs_Archived s \<and> knownRole (rs_Role s) \<and> permitted R s req)"
  using assms by (rule Authorize_spec)

definition noOne :: Resolver where
  "noOne = \<lparr>rv_Lookup = (\<lambda>sid. Inr (if sid = ''wg'' then Some \<lparr>rs_ID = ''wg'', rs_RootID = [], rs_Role = ''coordinator'',
       rs_Scope = ''work'', rs_Repo = [], rs_Archived = False\<rparr> else None)),
     rv_RepoGranted = (\<lambda>c r. Inr False), rv_ProviderAllows = (\<lambda>p r. Inr False)\<rparr>"

theorem Authorize_iff_permitted_witness:
  "permitted noOne \<lparr>rs_ID = ''wg'', rs_RootID = [], rs_Role = ''coordinator'', rs_Scope = ''work'', rs_Repo = [], rs_Archived = False\<rparr>
     \<lparr>rq_Route = RouteAction, rq_Verb = ActionStart, rq_ID = ''wg'', rq_Target = [], rq_Tab = 0, rq_Fields = []\<rparr>"
proof -
  have "TrimSpace ''wg'' = ''wg''" by (simp add: TrimSpace_plain plain_char_def)
  then have "Authorize (Some noOne) \<lparr>p_KeyID = ''k'', p_SubjectID = ''wg'', p_Kind = SubjectSession, p_Generation = 1\<rparr>
      \<lparr>rq_Route = RouteAction, rq_Verb = ActionStart, rq_ID = ''wg'', rq_Target = [], rq_Tab = 0, rq_Fields = []\<rparr> = None"
    by (simp add: Authorize_def noOne_def SubjectHost_def SubjectProvider_def SubjectSession_def RuleFor_start knownRole_def
        authorizeScope_def authorizeTarget_def ruleOf_def InWorkgroupScope_def Let_def)
  then show ?thesis using Authorize_iff_permitted [of "\<lparr>p_KeyID = ''k'', p_SubjectID = ''wg'', p_Kind = SubjectSession, p_Generation = 1\<rparr>" noOne]
    by (simp add: noOne_def)
qed

section \<open>What a resolver has to promise\<close>

text \<open>
  A resolver reads rows by id and grants only what is in the caller's ceiling. Under these laws a
  restricted caller is confined to itself and, for a coordinator, to its members.
\<close>

locale session_resolver =
  fixes R :: Resolver and ceiling :: "string \<Rightarrow> string \<Rightarrow> bool"
  assumes lookup_id: "rv_Lookup R sid = Inr (Some r) \<Longrightarrow> rs_ID r = sid"
    and granted: "rv_RepoGranted R sid repo = Inr True \<Longrightarrow> ceiling sid repo"
begin

lemma target_id: "targetOf R s req = Some t \<Longrightarrow> rs_ID t = rq_ID req"
  by (auto simp: targetOf_def dest: lookup_id split: if_splits sum.splits)

lemma scope_cases: "InWorkgroupScope s t \<Longrightarrow> rs_Role s \<noteq> ''console'' \<Longrightarrow>
    rs_ID t = rs_ID s \<or> rs_Role s = ''coordinator'' \<and> rs_RootID t = rs_ID s"
  by (auto simp: InWorkgroupScope_def split: if_splits)

lemma confined:
  assumes "p_Kind p = SubjectSession" and "Authorize (Some R) p req = None" and "rq_Route req = RouteAction"
    and "rv_Lookup R (p_SubjectID p) = Inr (Some s)" and "rs_Role s \<noteq> ''console''"
  shows "rq_Verb req = ActionNewWorkgroup \<and> rs_Role s = ''repo'' \<and> rq_ID req = [] \<and> splitList (field (rq_Fields req) ''repos'') = [rs_Repo s] \<or>
    (\<exists>t. (rq_ID req = p_SubjectID p \<and> t = s \<or> rv_Lookup R (rq_ID req) = Inr (Some t)) \<and> \<not> rs_Archived t \<and>
      (rq_ID req = p_SubjectID p \<or> rs_Role s = ''coordinator'' \<and> rs_RootID t = p_SubjectID p) \<and>
      rq_Verb req \<in> {ActionStart, ActionRename, ActionSteer, ActionSetArchived, ActionAddAgent} \<and>
      (rq_Verb req = ActionAddAgent \<longrightarrow> rq_ID req = p_SubjectID p \<and> rs_Role s = ''coordinator'' \<and>
         (\<forall>repo \<in> set (splitList (field (rq_Fields req) ''repos'')). ceiling (p_SubjectID p) repo)))"
proof -
  have sid: "rs_ID s = p_SubjectID p" using lookup_id [OF assms(4)] .
  have "permitted R s req" using assms(1,2,4) Authorize_spec by auto
  then consider
      "rs_Role s = ''repo''" "rq_Verb req = ActionNewWorkgroup" "rq_ID req = []" "splitList (field (rq_Fields req) ''repos'') = [rs_Repo s]"
    | t where "targetOf R s req = Some t" "mayAct R s t req"
    using assms(3,5) by (auto simp: permitted_def)
  then show ?thesis
  proof cases
    case 2
    have tid: "rs_ID t = rq_ID req" using target_id [OF 2(1)] .
    have look: "rq_ID req = p_SubjectID p \<and> t = s \<or> rv_Lookup R (rq_ID req) = Inr (Some t)"
      using 2(1) sid by (auto simp: targetOf_def split: if_splits sum.splits)
    have scope: "rq_ID req = p_SubjectID p \<or> rs_Role s = ''coordinator'' \<and> rs_RootID t = p_SubjectID p"
      using scope_cases [of s t] 2(2) assms(5) tid sid by (auto simp: mayAct_def)
    have act: "\<not> rs_Archived t" "rq_Verb req \<in> {ActionStart, ActionRename, ActionSteer, ActionSetArchived, ActionAddAgent}"
      "rq_Verb req = ActionAddAgent \<longrightarrow> mayAdd R s t (rq_Fields req)"
      using 2(2) assms(3) by (auto simp: mayAct_def)
    have add: "rq_ID req = p_SubjectID p \<and> rs_Role s = ''coordinator'' \<and> (\<forall>repo \<in> set (splitList (field (rq_Fields req) ''repos'')). ceiling (p_SubjectID p) repo)"
      if "rq_Verb req = ActionAddAgent"
      using act(3) that granted tid sid 2(1) by (auto simp: mayAdd_def targetOf_def split: if_splits)
    show ?thesis using look scope act(1,2) add by blast
  qed blast
qed

end

end
