(* ===== verification/Session_Store.thy ===== *)
theory Session_Store
  imports Go_Text
begin

text \<open>
  The session store (\<^verbatim>\<open>internal/store\<close>): the tables as a record of finite maps, the queries
  as functions of it and every write as a transaction. A statement that fails rolls its whole
  transaction back, so one argument \<open>fault\<close> per write (the error of the failing statement, if one
  fails) covers every point of failure. The order SQLite leaves open (rows equal in the
  \<^verbatim>\<open>ORDER BY\<close> column) is the order of the list, which no theorem depends on. Random values
  (incarnations, ids) are arguments, and so is the outcome of binding an account, which is another
  store's transaction.
\<close>

section \<open>Data\<close>

record Repo =
  re_Name :: string
  re_Source :: string
  re_GitDir :: string

record Session =
  ss_ID :: string
  ss_RootID :: string
  ss_Name :: string
  ss_Agent :: string
  ss_Model :: string
  ss_Mode :: string
  ss_Repo :: string
  ss_Branch :: string
  ss_Dir :: string
  ss_ClaudeID :: string
  ss_Prompt :: string
  ss_Created :: int
  ss_Scope :: string
  ss_Archived :: bool
  ss_ArchivedAt :: int

datatype store_error =
    ErrSQL string | ErrBind string | ErrRootChanged | ErrSessionExists | ErrEmptyID | ErrLookupBound
  | ErrNoCoordinator string | ErrNotCoordinator string | ErrUnknownRepo string
  | ErrNotActive string | ErrNoGrants string | ErrOutsideGrants string string

text \<open>
  The tables. \<^verbatim>\<open>sessions\<close> pairs each row with its incarnation column, which is not a field
  of \<^verbatim>\<open>Session\<close>. A row of \<^verbatim>\<open>coordinator_grant_state\<close> has \<^verbatim>\<open>initialized\<close> = 1
  by the table's CHECK, so only \<^verbatim>\<open>all_repos\<close> is kept.
\<close>

record DB =
  db_repos :: "(string, Repo) gomap"
  db_sessions :: "(string, Session \<times> string) gomap"
  db_grantState :: "(string, bool) gomap"
  db_grants :: "(string \<times> string) list"
  db_grantsMigrated :: bool
  db_prs :: "(string, string \<times> int) gomap"

definition IsRoot :: "Session \<Rightarrow> bool" where "IsRoot s \<longleftrightarrow> ss_RootID s = []"

definition Display :: "Session \<Rightarrow> string" where
  "Display s = (if TrimSpace (ss_Name s) \<noteq> [] then ss_Name s else ss_ID s)"

abbreviation (input) "ModeTask \<equiv> ''task''"
abbreviation (input) "ModeInteractive \<equiv> ''interactive''"
abbreviation (input) "ModeConsole \<equiv> ''console''"
abbreviation (input) "ScopeWork \<equiv> ''work''"
abbreviation (input) "ScopeRepo \<equiv> ''repo''"
abbreviation (input) "RoleAgent \<equiv> []"
abbreviation (input) "RoleConsole \<equiv> ''console''"
abbreviation (input) "RoleCoordinator \<equiv> ''coordinator''"
abbreviation (input) "RoleRepo \<equiv> ''repo''"

definition RepoHomeID :: "string \<Rightarrow> string" where "RepoHomeID repo = repo"

definition Role :: "Session \<Rightarrow> string" where
  "Role s =
     (if ss_Mode s = ModeConsole then RoleConsole
      else if \<not> IsRoot s then RoleAgent
      else if ss_Scope s = ScopeRepo then
        (if ss_Repo s \<noteq> [] \<and> ss_ID s = RepoHomeID (ss_Repo s) then RoleRepo else RoleAgent)
      else RoleCoordinator)"

definition IsContainerSession :: "Session \<Rightarrow> bool" where "IsContainerSession s \<longleftrightarrow> Role s \<noteq> RoleAgent"

definition NormalizeMode :: "string \<Rightarrow> string" where
  "NormalizeMode m = (let t = TrimSpace m in if t = [] \<or> t = ModeTask \<or> t = ''loop'' then ModeTask else m)"

definition SplitRepos :: "string \<Rightarrow> string list" where
  "SplitRepos s = filter (\<lambda>p. p \<noteq> []) (map TrimSpace (split_on CHR '','' s))"

fun JoinRepos :: "string list \<Rightarrow> string" where
  "JoinRepos [] = []"
| "JoinRepos [r] = r"
| "JoinRepos (r # s # rs) = r @ CHR '','' # JoinRepos (s # rs)"

section \<open>Queries\<close>

definition GetSession :: "DB \<Rightarrow> string \<Rightarrow> Session option" where
  "GetSession d sid = map_option fst (map_of (db_sessions d) sid)"

definition allRows :: "DB \<Rightarrow> Session list" where
  "allRows d = map (fst \<circ> snd) (db_sessions d)"

definition AllSessions :: "DB \<Rightarrow> Session list" where
  "AllSessions d = sort_key ss_Created (allRows d)"

definition headOf :: "Session \<Rightarrow> Session" where
  "headOf s = \<lparr>ss_ID = ss_ID s, ss_RootID = ss_RootID s, ss_Name = [], ss_Agent = [], ss_Model = [], ss_Mode = [], ss_Repo = [],
     ss_Branch = [], ss_Dir = [], ss_ClaudeID = [], ss_Prompt = [], ss_Created = 0, ss_Scope = [],
     ss_Archived = ss_Archived s, ss_ArchivedAt = 0\<rparr>"

definition SessionHeads :: "DB \<Rightarrow> Session list" where
  "SessionHeads d = map headOf (sort_key ss_Created (allRows d))"

definition Roots :: "DB \<Rightarrow> Session list" where
  "Roots d = sort_key ss_Created (filter (\<lambda>s. ss_RootID s = []) (allRows d))"

definition Children :: "DB \<Rightarrow> string \<Rightarrow> Session list" where
  "Children d rootID = sort_key ss_Created (filter (\<lambda>s. ss_RootID s = rootID) (allRows d))"

definition Repos :: "DB \<Rightarrow> Repo list" where
  "Repos d = sort_key re_Name (map snd (db_repos d))"

definition RepoNamed :: "DB \<Rightarrow> string \<Rightarrow> Repo option" where
  "RepoNamed d name = map_of (db_repos d) name"

text \<open>Initialized and all-tracked, as \<^verbatim>\<open>coordinatorGrantState\<close> returns them.\<close>

definition coordinatorGrantState :: "DB \<Rightarrow> string \<Rightarrow> bool \<times> bool" where
  "coordinatorGrantState d cid =
     (case map_of (db_grantState d) cid of None \<Rightarrow> (False, False) | Some allRepos \<Rightarrow> (True, allRepos))"

definition CoordinatorRepoGrants :: "DB \<Rightarrow> string \<Rightarrow> string list \<times> bool" where
  "CoordinatorRepoGrants d cid =
     (case coordinatorGrantState d cid of
        (initialized, allRepos) \<Rightarrow>
          if \<not> initialized then ([], False)
          else if allRepos then (sort (map fst (db_repos d)), True)
          else (sort (map snd (filter (\<lambda>g. fst g = cid) (db_grants d))), True))"

definition CoordinatorGrantsAllTracked :: "DB \<Rightarrow> string \<Rightarrow> bool" where
  "CoordinatorGrantsAllTracked d cid = (case coordinatorGrantState d cid of (initialized, allRepos) \<Rightarrow> initialized \<and> allRepos)"

section \<open>Transactions\<close>

text \<open>
  \<^verbatim>\<open>writeTx\<close>, and the \<^verbatim>\<open>Begin\<close>/\<^verbatim>\<open>Rollback\<close>/\<^verbatim>\<open>Commit\<close> shape of the other
  writers: the body's changes are kept only if it and every statement succeed.
\<close>

definition writeTx :: "store_error option \<Rightarrow> (DB \<Rightarrow> store_error + DB \<times> 'a) \<Rightarrow> DB \<Rightarrow> DB \<times> (store_error + 'a)" where
  "writeTx fault fn d =
     (case fault of
        Some e \<Rightarrow> (d, Inl e)
      | None \<Rightarrow> (case fn d of Inl e \<Rightarrow> (d, Inl e) | Inr (d', x) \<Rightarrow> (d', Inr x)))"

definition exec :: "store_error option \<Rightarrow> (DB \<Rightarrow> DB) \<Rightarrow> DB \<Rightarrow> DB \<times> store_error option" where
  "exec fault f d = (case fault of Some e \<Rightarrow> (d, Some e) | None \<Rightarrow> (f d, None))"

section \<open>Repositories\<close>

definition putRepoRow :: "Repo \<Rightarrow> DB \<Rightarrow> DB" where
  "putRepoRow r d = d\<lparr>db_repos := mput (re_Name r) r (db_repos d)\<rparr>"

definition PutRepo :: "store_error option \<Rightarrow> Repo \<Rightarrow> DB \<Rightarrow> DB \<times> store_error option" where
  "PutRepo fault r d = exec fault (putRepoRow r) d"

definition DeleteRepo :: "store_error option \<Rightarrow> string \<Rightarrow> DB \<Rightarrow> DB \<times> store_error option" where
  "DeleteRepo fault name d =
     exec fault (\<lambda>d. d\<lparr>db_grants := filter (\<lambda>g. snd g \<noteq> name) (db_grants d), db_repos := mdel name (db_repos d)\<rparr>) d"

section \<open>Session rows\<close>

text \<open>The upsert names every column but the incarnation, so an existing row keeps its own.\<close>

definition putSessionRow :: "string \<Rightarrow> Session \<Rightarrow> DB \<Rightarrow> DB" where
  "putSessionRow inc s d =
     d\<lparr>db_sessions := mput (ss_ID s)
         (s, case map_of (db_sessions d) (ss_ID s) of None \<Rightarrow> inc | Some (_, i) \<Rightarrow> i) (db_sessions d)\<rparr>"

definition PutSession ::
  "store_error option \<Rightarrow> store_error option \<Rightarrow> string \<Rightarrow> Session \<Rightarrow> DB \<Rightarrow> DB \<times> store_error option" where
  "PutSession bind fault inc s d =
     (case bind of Some e \<Rightarrow> (d, Some e) | None \<Rightarrow> exec fault (putSessionRow inc s) d)"

definition updateRow :: "string \<Rightarrow> (Session \<Rightarrow> Session) \<Rightarrow> DB \<Rightarrow> DB" where
  "updateRow sid f d =
     (case map_of (db_sessions d) sid of
        None \<Rightarrow> d
      | Some (s, inc) \<Rightarrow> d\<lparr>db_sessions := mput sid (f s, inc) (db_sessions d)\<rparr>)"

definition SetName :: "store_error option \<Rightarrow> string \<Rightarrow> string \<Rightarrow> DB \<Rightarrow> DB \<times> store_error option" where
  "SetName fault sid name d = exec fault (updateRow sid (\<lambda>s. s\<lparr>ss_Name := name\<rparr>)) d"

definition SetModel :: "store_error option \<Rightarrow> string \<Rightarrow> string \<Rightarrow> DB \<Rightarrow> DB \<times> store_error option" where
  "SetModel fault sid model d = exec fault (updateRow sid (\<lambda>s. s\<lparr>ss_Model := model\<rparr>)) d"

definition SetClaudeID :: "store_error option \<Rightarrow> string \<Rightarrow> string \<Rightarrow> DB \<Rightarrow> DB \<times> store_error option" where
  "SetClaudeID fault sid claudeID d = exec fault (updateRow sid (\<lambda>s. s\<lparr>ss_ClaudeID := claudeID\<rparr>)) d"

definition SetArchivedFlag :: "store_error option \<Rightarrow> string \<Rightarrow> bool \<Rightarrow> int \<Rightarrow> DB \<Rightarrow> DB \<times> store_error option" where
  "SetArchivedFlag fault sid archived archivedAt d =
     exec fault (updateRow sid (\<lambda>s. s\<lparr>ss_Archived := archived, ss_ArchivedAt := archivedAt\<rparr>)) d"

definition SetDir :: "store_error option \<Rightarrow> string \<Rightarrow> string \<Rightarrow> DB \<Rightarrow> DB \<times> store_error option" where
  "SetDir fault sid dir d = exec fault (updateRow sid (\<lambda>s. s\<lparr>ss_Dir := dir\<rparr>)) d"

definition SetRepoScope :: "store_error option \<Rightarrow> string \<Rightarrow> string \<Rightarrow> DB \<Rightarrow> DB \<times> store_error option" where
  "SetRepoScope fault sid repo d = exec fault (updateRow sid (\<lambda>s. s\<lparr>ss_Repo := repo\<rparr>)) d"

definition SetRootID :: "store_error option \<Rightarrow> string \<Rightarrow> string \<Rightarrow> DB \<Rightarrow> DB \<times> store_error option" where
  "SetRootID fault sid rootID d = exec fault (updateRow sid (\<lambda>s. s\<lparr>ss_RootID := rootID\<rparr>)) d"

definition DeleteSession :: "store_error option \<Rightarrow> string \<Rightarrow> DB \<Rightarrow> DB \<times> store_error option" where
  "DeleteSession fault sid d =
     exec fault (\<lambda>d. d\<lparr>db_grants := filter (\<lambda>g. fst g \<noteq> sid) (db_grants d), db_grantState := mdel sid (db_grantState d),
       db_prs := mdel sid (db_prs d), db_sessions := mdel sid (db_sessions d)\<rparr>) d"

text \<open>The random draws of \<^verbatim>\<open>NewID\<close>: None only if every draw given is taken.\<close>

fun NewID :: "DB \<Rightarrow> string list \<Rightarrow> string option" where
  "NewID d [] = None"
| "NewID d (b # draws) = (if GetSession d (hex_encode b) = None then Some (hex_encode b) else NewID d draws)"

section \<open>Incarnations\<close>

record Identity =
  id_ID :: string
  id_Incarnation :: string
  id_RootID :: string
  id_RootIncarnation :: string

record SessionIdentity =
  si_ID :: string
  si_Incarnation :: string
  si_RootID :: string

definition Complete :: "Identity \<Rightarrow> bool" where
  "Complete i \<longleftrightarrow> id_ID i \<noteq> [] \<and> id_Incarnation i \<noteq> [] \<and> id_RootID i \<noteq> [] \<and> id_RootIncarnation i \<noteq> []"

definition MaxIdentityLookup :: nat where "MaxIdentityLookup = 64"

definition SessionIdentities :: "DB \<Rightarrow> string list \<Rightarrow> store_error + (string, SessionIdentity) gomap" where
  "SessionIdentities d ids =
     (if length ids > MaxIdentityLookup then Inl ErrLookupBound
      else Inr (map (\<lambda>(sid, s, inc). (sid, \<lparr>si_ID = sid, si_Incarnation = inc, si_RootID = ss_RootID s\<rparr>))
                  (filter (\<lambda>(sid, _). sid \<in> set ids) (db_sessions d))))"

definition precheckCreate :: "DB \<Rightarrow> Session \<Rightarrow> string \<Rightarrow> store_error option" where
  "precheckCreate d s expectRoot =
     (case SessionIdentities d (if ss_RootID s \<noteq> [] then [ss_ID s, ss_RootID s] else [ss_ID s]) of
        Inl e \<Rightarrow> Some e
      | Inr cur \<Rightarrow>
          if map_of cur (ss_ID s) \<noteq> None then Some ErrSessionExists
          else if ss_RootID s \<noteq> [] then
            (case map_of cur (ss_RootID s) of
               None \<Rightarrow> Some ErrRootChanged
             | Some root \<Rightarrow>
                 if si_RootID root \<noteq> [] \<or> (expectRoot \<noteq> [] \<and> si_Incarnation root \<noteq> expectRoot) then Some ErrRootChanged
                 else None)
          else None)"

text \<open>The incarnation a row without one gets: a root repaired while a member is created under it.\<close>

definition fillIncarnation :: "string \<Rightarrow> string \<Rightarrow> DB \<Rightarrow> DB" where
  "fillIncarnation sid inc d =
     (case map_of (db_sessions d) sid of
        Some (s, []) \<Rightarrow> d\<lparr>db_sessions := mput sid (s, inc) (db_sessions d)\<rparr>
      | _ \<Rightarrow> d)"

definition insertSession :: "Session \<Rightarrow> Identity \<Rightarrow> DB \<Rightarrow> store_error + DB \<times> Identity" where
  "insertSession s i d =
     (if map_of (db_sessions d) (ss_ID s) \<noteq> None then Inl ErrSessionExists
      else Inr (d\<lparr>db_sessions := mput (ss_ID s) (s, id_Incarnation i) (db_sessions d)\<rparr>, i))"

definition createTx :: "string \<Rightarrow> string \<Rightarrow> Session \<Rightarrow> string \<Rightarrow> DB \<Rightarrow> store_error + DB \<times> Identity" where
  "createTx inc rootInc s expectRoot d =
     (if ss_RootID s = [] then
        insertSession s \<lparr>id_ID = ss_ID s, id_Incarnation = inc, id_RootID = ss_ID s, id_RootIncarnation = inc\<rparr> d
      else (let d1 = fillIncarnation (ss_RootID s) rootInc d
            in case map_of (db_sessions d1) (ss_RootID s) of
                 None \<Rightarrow> Inl ErrRootChanged
               | Some (root, cur) \<Rightarrow>
                   if ss_RootID root \<noteq> [] \<or> cur = [] \<or> (expectRoot \<noteq> [] \<and> cur \<noteq> expectRoot) then Inl ErrRootChanged
                   else insertSession s \<lparr>id_ID = ss_ID s, id_Incarnation = inc, id_RootID = ss_RootID s,
                                          id_RootIncarnation = cur\<rparr> d1))"

text \<open>
  \<open>d0\<close> is the store the precheck reads, \<open>d\<close> the one the transaction starts from: other writers may
  commit in between.
\<close>

definition CreateSession ::
  "store_error option \<Rightarrow> store_error option \<Rightarrow> string \<Rightarrow> string \<Rightarrow> DB \<Rightarrow> Session \<Rightarrow> string \<Rightarrow> DB \<Rightarrow>
   DB \<times> (store_error + Identity)" where
  "CreateSession bind fault inc rootInc d0 s expectRoot d =
     (if ss_ID s = [] then (d, Inl ErrEmptyID)
      else if ss_RootID s = [] \<and> expectRoot \<noteq> [] then (d, Inl ErrRootChanged)
      else (case precheckCreate d0 s expectRoot of
          Some e \<Rightarrow> (d, Inl e)
        | None \<Rightarrow>
            (case bind of
               Some e \<Rightarrow> (d, Inl e)
             | None \<Rightarrow> writeTx fault (createTx inc rootInc s expectRoot) d)))"

text \<open>\<open>fresh\<close> gives each row its random value.\<close>

definition backfillIncarnations :: "store_error option \<Rightarrow> (string \<Rightarrow> string) \<Rightarrow> DB \<Rightarrow> DB \<times> store_error option" where
  "backfillIncarnations fault fresh d =
     (if list_all (\<lambda>(sid, s, inc). inc \<noteq> []) (db_sessions d) then (d, None)
      else exec fault (\<lambda>d. d\<lparr>db_sessions :=
        map (\<lambda>(sid, r). (sid, case r of (s, inc) \<Rightarrow> (s, if inc = [] then fresh sid else inc))) (db_sessions d)\<rparr>) d)"

section \<open>Coordinator grants\<close>

text \<open>First occurrences of the trimmed names, sorted.\<close>

fun dedup :: "string list \<Rightarrow> string list \<Rightarrow> string list" where
  "dedup seen [] = []"
| "dedup seen (repo # repos) =
     (let r = TrimSpace repo
      in if r = [] \<or> r \<in> set seen then dedup seen repos else r # dedup (r # seen) repos)"

definition normalizedGrantRepos :: "string list \<Rightarrow> string list" where
  "normalizedGrantRepos repos = sort (dedup [] repos)"

definition setGrantsTx :: "string \<Rightarrow> string list \<Rightarrow> bool \<Rightarrow> DB \<Rightarrow> store_error + DB \<times> unit" where
  "setGrantsTx cid repos allRepos d =
     (case GetSession d cid of
        None \<Rightarrow> Inl (ErrNoCoordinator cid)
      | Some s \<Rightarrow>
          if ss_RootID s \<noteq> [] \<or> ss_Scope s = ScopeRepo then Inl (ErrNotCoordinator cid)
          else (case find (\<lambda>repo. RepoNamed d repo = None) repos of
              Some repo \<Rightarrow> Inl (ErrUnknownRepo repo)
            | None \<Rightarrow> Inr (d\<lparr>db_grants := filter (\<lambda>g. fst g \<noteq> cid) (db_grants d) @ map (Pair cid) repos,
                              db_grantState := mput cid allRepos (db_grantState d)\<rparr>, ())))"

definition setCoordinatorGrants ::
  "store_error option \<Rightarrow> string \<Rightarrow> string list \<Rightarrow> bool \<Rightarrow> DB \<Rightarrow> DB \<times> (store_error + unit)" where
  "setCoordinatorGrants fault cid repos allRepos d = writeTx fault (setGrantsTx cid repos allRepos) d"

definition SetCoordinatorRepoGrants :: "store_error option \<Rightarrow> string \<Rightarrow> string list \<Rightarrow> DB \<Rightarrow> DB \<times> (store_error + unit)" where
  "SetCoordinatorRepoGrants fault cid repos d = setCoordinatorGrants fault cid (normalizedGrantRepos repos) False d"

definition SetCoordinatorRepoGrantsAllTracked :: "store_error option \<Rightarrow> string \<Rightarrow> DB \<Rightarrow> DB \<times> (store_error + unit)" where
  "SetCoordinatorRepoGrantsAllTracked fault cid d = setCoordinatorGrants fault cid [] True d"

definition insertGrant :: "string \<Rightarrow> string \<Rightarrow> (string \<times> string) list \<Rightarrow> (string \<times> string) list" where
  "insertGrant cid repo gs = (if (cid, repo) \<in> set gs then gs else gs @ [(cid, repo)])"

text \<open>SQLite's \<^verbatim>\<open>trim\<close> removes spaces only.\<close>

definition legacyGrants :: "DB \<Rightarrow> (string \<times> string list) list" where
  "legacyGrants d =
     map (\<lambda>s. (ss_ID s, normalizedGrantRepos (SplitRepos (ss_Repo s))))
       (sort_key ss_ID (filter (\<lambda>s. ss_RootID s = [] \<and> ss_Scope s \<noteq> ScopeRepo \<and> \<not> list_all (\<lambda>c. c = CHR '' '') (ss_Repo s))
         (allRows d)))"

definition backfillGrant :: "string \<times> string list \<Rightarrow> DB \<Rightarrow> DB" where
  "backfillGrant g d =
     d\<lparr>db_grantState := (if map_of (db_grantState d) (fst g) = None then mput (fst g) False (db_grantState d) else db_grantState d),
       db_grants := fold (insertGrant (fst g)) (snd g) (db_grants d)\<rparr>"

definition migrateCoordinatorGrants :: "store_error option \<Rightarrow> DB \<Rightarrow> DB \<times> (store_error + unit)" where
  "migrateCoordinatorGrants fault d =
     writeTx fault (\<lambda>d. if db_grantsMigrated d then Inr (d, ())
       else Inr ((fold backfillGrant (legacyGrants d) d)\<lparr>db_grantsMigrated := True\<rparr>, ())) d"

definition CheckCoordinatorRepos :: "DB \<Rightarrow> string \<Rightarrow> string list \<Rightarrow> store_error option" where
  "CheckCoordinatorRepos d cid repos =
     (case GetSession d cid of
        None \<Rightarrow> Some (ErrNotActive cid)
      | Some root \<Rightarrow>
          if Role root \<noteq> RoleCoordinator \<or> ss_Archived root then Some (ErrNotActive cid)
          else (case CoordinatorRepoGrants d cid of
              (grants, initialized) \<Rightarrow>
                if \<not> initialized then Some (ErrNoGrants cid)
                else (case find (\<lambda>repo. repo \<notin> set grants) (normalizedGrantRepos repos) of
                    None \<Rightarrow> None
                  | Some repo \<Rightarrow> Some (ErrOutsideGrants repo cid))))"

section \<open>Pull request documents\<close>

definition SessionPRStates :: "DB \<Rightarrow> (string, string) gomap" where
  "SessionPRStates d = map (\<lambda>(sid, state, updated). (sid, state)) (db_prs d)"

definition PutSessionPRState :: "store_error option \<Rightarrow> string \<Rightarrow> string \<Rightarrow> int \<Rightarrow> DB \<Rightarrow> DB \<times> store_error option" where
  "PutSessionPRState fault sid state updated d =
     exec fault (\<lambda>d. d\<lparr>db_prs := (if state = [] then mdel sid (db_prs d) else mput sid (state, updated) (db_prs d))\<rparr>) d"

end
