(* ===== verification/Session_Store_Props.thy ===== *)
theory Session_Store_Props
  imports Session_Store
begin

text \<open>
  What the session store guarantees over any sequence of writes, whichever of them fail: the tables
  stay well formed and grant nothing that is not tracked, and an incarnation is never seen on two
  sessions, nor again after its session is deleted.
\<close>

section \<open>Writes as operations\<close>

text \<open>One constructor per writer; the argument order is that of the function.\<close>

datatype storeOp =
    OPutRepo "store_error option" Repo
  | ODeleteRepo "store_error option" string
  | OPutSession "store_error option" "store_error option" string Session
  | OSetName "store_error option" string string
  | OSetModel "store_error option" string string
  | OSetClaudeID "store_error option" string string
  | OSetArchived "store_error option" string bool int
  | OSetDir "store_error option" string string
  | OSetRepoScope "store_error option" string string
  | OSetRootID "store_error option" string string
  | ODeleteSession "store_error option" string
  | OCreateSession "store_error option" "store_error option" string string DB Session string
  | OBackfillIncarnations "store_error option" "string \<Rightarrow> string"
  | OSetGrants "store_error option" string "string list"
  | OSetGrantsAll "store_error option" string
  | OPutPRState "store_error option" string string int

fun applyStore :: "DB \<Rightarrow> storeOp \<Rightarrow> DB" where
  "applyStore d (OPutRepo f r) = fst (PutRepo f r d)"
| "applyStore d (ODeleteRepo f n) = fst (DeleteRepo f n d)"
| "applyStore d (OPutSession b f i s) = fst (PutSession b f i s d)"
| "applyStore d (OSetName f sid v) = fst (SetName f sid v d)"
| "applyStore d (OSetModel f sid v) = fst (SetModel f sid v d)"
| "applyStore d (OSetClaudeID f sid v) = fst (SetClaudeID f sid v d)"
| "applyStore d (OSetArchived f sid v t) = fst (SetArchivedFlag f sid v t d)"
| "applyStore d (OSetDir f sid v) = fst (SetDir f sid v d)"
| "applyStore d (OSetRepoScope f sid v) = fst (SetRepoScope f sid v d)"
| "applyStore d (OSetRootID f sid v) = fst (SetRootID f sid v d)"
| "applyStore d (ODeleteSession f sid) = fst (DeleteSession f sid d)"
| "applyStore d (OCreateSession b f i ri d0 s e) = fst (CreateSession b f i ri d0 s e d)"
| "applyStore d (OBackfillIncarnations f fresh) = fst (backfillIncarnations f fresh d)"
| "applyStore d (OSetGrants f cid repos) = fst (SetCoordinatorRepoGrants f cid repos d)"
| "applyStore d (OSetGrantsAll f cid) = fst (SetCoordinatorRepoGrantsAllTracked f cid d)"
| "applyStore d (OPutPRState f sid st u) = fst (PutSessionPRState f sid st u d)"

section \<open>Well-formed tables\<close>

definition rowsFiled :: "DB \<Rightarrow> bool" where
  "rowsFiled d \<longleftrightarrow> (\<forall>(sid, s, inc) \<in> set (db_sessions d). ss_ID s = sid)"

definition reposFiled :: "DB \<Rightarrow> bool" where
  "reposFiled d \<longleftrightarrow> (\<forall>(name, r) \<in> set (db_repos d). re_Name r = name)"

definition grantsTracked :: "DB \<Rightarrow> bool" where
  "grantsTracked d \<longleftrightarrow> (\<forall>(cid, repo) \<in> set (db_grants d). repo \<in> fst ` set (db_repos d) \<and> cid \<in> fst ` set (db_grantState d))"

definition keysUnique :: "DB \<Rightarrow> bool" where
  "keysUnique d \<longleftrightarrow> gwf (db_repos d) \<and> gwf (db_sessions d) \<and> gwf (db_grantState d) \<and> distinct (db_grants d) \<and> gwf (db_prs d)"

definition store_inv :: "DB \<Rightarrow> bool" where
  "store_inv d \<longleftrightarrow> keysUnique d \<and> rowsFiled d \<and> reposFiled d \<and> grantsTracked d"

lemmas store_inv_defs = store_inv_def keysUnique_def rowsFiled_def reposFiled_def grantsTracked_def

lemma exec_inv: "P d \<Longrightarrow> (P d \<Longrightarrow> P (f d)) \<Longrightarrow> P (fst (exec fault f d))"
  by (simp add: exec_def split: option.split)

lemma writeTx_inv: "P d \<Longrightarrow> (\<And>d' x. fn d = Inr (d', x) \<Longrightarrow> P d') \<Longrightarrow> P (fst (writeTx fault fn d))"
  by (auto simp: writeTx_def split: option.split sum.split)

lemma sessions_put_inv:
  assumes "store_inv d" and "ss_ID s = sid"
  shows "store_inv (d\<lparr>db_sessions := mput sid (s, inc) (db_sessions d)\<rparr>)"
proof -
  have "rowsFiled (d\<lparr>db_sessions := mput sid (s, inc) (db_sessions d)\<rparr>)"
    using assms by (auto simp: store_inv_defs set_update_gwf)
  then show ?thesis using assms(1) by (simp add: store_inv_def keysUnique_def reposFiled_def grantsTracked_def)
qed

lemma row_id: "store_inv d \<Longrightarrow> map_of (db_sessions d) sid = Some (s, inc) \<Longrightarrow> ss_ID s = sid"
  by (auto simp: store_inv_def rowsFiled_def dest!: map_of_SomeD)

lemma updateRow_inv:
  assumes "store_inv d" and "\<And>s. ss_ID (f s) = ss_ID s"
  shows "store_inv (updateRow sid f d)"
  using sessions_put_inv [OF assms(1)] row_id [OF assms(1)] assms
  by (auto simp: updateRow_def split: option.split prod.split)

lemma putSessionRow_inv: "store_inv d \<Longrightarrow> store_inv (putSessionRow inc s d)"
  by (simp add: putSessionRow_def sessions_put_inv)

lemma fst_set_update: "fst ` set (mput k v m) = insert k (fst ` set m)"
  by (induction m) auto

lemma putRepoRow_inv:
  assumes "store_inv d"
  shows "store_inv (putRepoRow r d)"
proof -
  have "reposFiled (putRepoRow r d)" using assms by (auto simp: store_inv_defs putRepoRow_def set_update_gwf)
  moreover have "grantsTracked (putRepoRow r d)"
    using assms by (auto simp: store_inv_def grantsTracked_def putRepoRow_def fst_set_update)
  ultimately show ?thesis using assms by (simp add: store_inv_def keysUnique_def putRepoRow_def rowsFiled_def)
qed

lemma set_mdel: "set (mdel k m) = {(a, b) \<in> set m. a \<noteq> k}"
  by (auto simp: AList.delete_eq)

lemma fst_apart: "a \<in> fst ` {(x, y). (x, y) \<in> S \<and> x \<noteq> k} \<longleftrightarrow> a \<in> fst ` S \<and> a \<noteq> k"
  by force

lemma DeleteRepo_inv: "store_inv d \<Longrightarrow> store_inv (fst (DeleteRepo fault name d))"
  unfolding DeleteRepo_def by (erule exec_inv) (auto simp: store_inv_defs fst_apart set_mdel)

lemma DeleteSession_inv: "store_inv d \<Longrightarrow> store_inv (fst (DeleteSession fault sid d))"
  unfolding DeleteSession_def by (erule exec_inv) (auto simp: store_inv_defs fst_apart set_mdel)

lemma fillIncarnation_inv: "store_inv d \<Longrightarrow> store_inv (fillIncarnation sid inc d)"
  using sessions_put_inv row_id by (auto simp: fillIncarnation_def split: option.split list.split prod.split)

lemma createTx_inv:
  assumes "store_inv d" and "createTx inc rootInc s expectRoot d = Inr (d', i)"
  shows "store_inv d'"
proof -
  have put: "store_inv d''" if "insertSession s j e = Inr (d'', k)" "store_inv e" for j e k d''
    using that sessions_put_inv by (auto simp: insertSession_def split: if_splits)
  show ?thesis
    using assms(2) put [OF _ assms(1)] put [OF _ fillIncarnation_inv [OF assms(1)]]
    by (auto simp: createTx_def Let_def split: if_splits option.splits prod.splits)
qed

lemma backfillIncarnations_inv: "store_inv d \<Longrightarrow> store_inv (fst (backfillIncarnations fault fresh d))"
proof -
  assume inv: "store_inv d"
  let ?f = "\<lambda>d. d\<lparr>db_sessions := map (\<lambda>(sid, r). (sid, case r of (s, inc) \<Rightarrow> (s, if inc = [] then fresh sid else inc))) (db_sessions d)\<rparr>"
  have "store_inv (?f d)"
    using inv by (auto simp: store_inv_defs comp_def case_prod_unfold)
  then show ?thesis using inv by (auto simp: backfillIncarnations_def exec_def split: option.split)
qed

lemma dedup_set: "set (dedup seen repos) = {TrimSpace r |r. r \<in> set repos \<and> TrimSpace r \<noteq> [] \<and> TrimSpace r \<notin> set seen}"
  by (induction seen repos rule: dedup.induct) (auto simp: Let_def)

lemma distinct_dedup: "distinct (dedup seen repos)"
  by (induction seen repos rule: dedup.induct) (auto simp: Let_def dedup_set)

lemma set_normalized: "set (normalizedGrantRepos repos) = {TrimSpace r |r. r \<in> set repos \<and> TrimSpace r \<noteq> []}"
  by (simp add: normalizedGrantRepos_def dedup_set)

lemma distinct_normalized [simp]: "distinct (normalizedGrantRepos repos)" and sorted_normalized [simp]: "sorted (normalizedGrantRepos repos)"
  by (simp_all add: normalizedGrantRepos_def distinct_dedup)

lemma setGrantsTx_Inr:
  assumes "setGrantsTx cid repos allRepos d = Inr (d', x)"
  shows "d' = d\<lparr>db_grants := filter (\<lambda>g. fst g \<noteq> cid) (db_grants d) @ map (Pair cid) repos, db_grantState := mput cid allRepos (db_grantState d)\<rparr>"
    and "set repos \<subseteq> fst ` set (db_repos d)"
  using assms by (auto simp: setGrantsTx_def RepoNamed_def find_None_iff map_of_eq_None_iff split: option.splits if_splits)

lemma setGrantsTx_inv:
  assumes "store_inv d" and "distinct repos" and "setGrantsTx cid repos allRepos d = Inr (d', x)"
  shows "store_inv d'"
proof -
  note d' = setGrantsTx_Inr [OF assms(3)]
  have "distinct (db_grants d')"
    using assms(1,2) by (auto simp: d'(1) store_inv_defs distinct_map inj_on_def)
  moreover have "grantsTracked d'"
    using assms(1) d'(2) by (auto simp: d'(1) store_inv_defs fst_set_update)
  ultimately show ?thesis using assms(1) by (simp add: d'(1) store_inv_def keysUnique_def rowsFiled_def reposFiled_def)
qed

lemma setCoordinatorGrants_inv:
  "store_inv d \<Longrightarrow> distinct repos \<Longrightarrow> store_inv (fst (setCoordinatorGrants fault cid repos allRepos d))"
  unfolding setCoordinatorGrants_def by (rule writeTx_inv [of store_inv]) (auto intro: setGrantsTx_inv)

lemma prs_inv: "store_inv d \<Longrightarrow> store_inv (fst (PutSessionPRState fault sid st u d))"
  unfolding PutSessionPRState_def by (erule exec_inv) (simp add: store_inv_defs)

lemma CreateSession_inv: "store_inv d \<Longrightarrow> store_inv (fst (CreateSession b f i ri d0 s e d))"
  by (auto simp: CreateSession_def split: option.split intro!: writeTx_inv [of store_inv] dest: createTx_inv)

lemma applyStore_inv: "store_inv d \<Longrightarrow> store_inv (applyStore d op)"
  by (cases op)
    (auto simp: PutRepo_def PutSession_def SetName_def SetModel_def SetClaudeID_def SetArchivedFlag_def SetDir_def SetRepoScope_def
       SetRootID_def SetCoordinatorRepoGrants_def SetCoordinatorRepoGrantsAllTracked_def setCoordinatorGrants_inv
       DeleteRepo_inv DeleteSession_inv CreateSession_inv backfillIncarnations_inv prs_inv
       split: option.split
       intro!: exec_inv [of store_inv] updateRow_inv putRepoRow_inv putSessionRow_inv)

interpretation store: kept_by_ops "\<lambda>d op. True" applyStore store_inv
  by unfold_locales (rule applyStore_inv)

definition emptyStore :: DB where
  "emptyStore = \<lparr>db_repos = [], db_sessions = [], db_grantState = [], db_grants = [], db_grantsMigrated = True, db_prs = []\<rparr>"

lemma emptyStore_inv: "store_inv emptyStore"
  by (simp add: emptyStore_def store_inv_defs)

lemma reached_inv: "store_inv (foldl applyStore emptyStore ops)"
proof -
  have "guarded (\<lambda>d op. True) applyStore d ops" for d by (induction ops arbitrary: d) simp_all
  then show ?thesis by (rule store.run_inv [OF emptyStore_inv])
qed


section \<open>Incarnations\<close>

definition incAt :: "DB \<Rightarrow> string \<Rightarrow> string" where
  "incAt d sid = (case map_of (db_sessions d) sid of None \<Rightarrow> [] | Some (s, inc) \<Rightarrow> inc)"

text \<open>The random value an operation may give to the row \<open>sid\<close>.\<close>

fun drawn :: "storeOp \<Rightarrow> string \<Rightarrow> string" where
  "drawn (OPutSession b f i s) sid = (if sid = ss_ID s then i else [])"
| "drawn (OCreateSession b f i ri d0 s e) sid = (if sid = ss_ID s then i else if sid = ss_RootID s then ri else [])"
| "drawn (OBackfillIncarnations f fresh) sid = fresh sid"
| "drawn op sid = []"

text \<open>128 random bits are taken to be new: not used before, and different for different rows.\<close>

definition freshDraws :: "string set \<Rightarrow> storeOp \<Rightarrow> bool" where
  "freshDraws used op \<longleftrightarrow> (\<forall>a b. drawn op a \<noteq> [] \<longrightarrow> drawn op a \<notin> used \<and> (drawn op a = drawn op b \<longrightarrow> a = b))"

fun freshRun :: "string set \<Rightarrow> storeOp list \<Rightarrow> bool" where
  "freshRun used [] = True"
| "freshRun used (op # ops) = (freshDraws used op \<and> freshRun (used \<union> range (drawn op)) ops)"

lemma incAt_put [simp]:
  "incAt (d\<lparr>db_sessions := mput k (s, i) m\<rparr>) sid = (if sid = k then i else incAt (d\<lparr>db_sessions := m\<rparr>) sid)"
  by (simp add: incAt_def)

lemma incAt_same [simp]: "incAt (d\<lparr>db_sessions := db_sessions d\<rparr>) sid = incAt d sid"
  by (simp add: incAt_def)

lemma incAt_other [simp]:
  "incAt (d\<lparr>db_repos := x\<rparr>) sid = incAt d sid" "incAt (d\<lparr>db_grants := g\<rparr>) sid = incAt d sid"
  "incAt (d\<lparr>db_grantState := t\<rparr>) sid = incAt d sid" "incAt (d\<lparr>db_prs := p\<rparr>) sid = incAt d sid"
  by (simp_all add: incAt_def)

lemma incAt_updateRow [simp]: "incAt (updateRow k f d) sid = incAt d sid"
  by (auto simp: updateRow_def incAt_def split: option.split)

lemma incAt_putSessionRow: "incAt (putSessionRow inc s d) sid = incAt d sid \<or> sid = ss_ID s \<and> incAt (putSessionRow inc s d) sid = inc"
  by (auto simp: putSessionRow_def incAt_def split: option.split prod.split)

lemma incAt_fill: "incAt (fillIncarnation k inc d) sid = (if sid = k \<and> map_of (db_sessions d) k \<noteq> None \<and> incAt d k = [] then inc else incAt d sid)"
  by (auto simp: fillIncarnation_def incAt_def split: option.split prod.split list.split)

lemma insertSession_Inr [simp]:
  "insertSession s i d = Inr (d', j) \<longleftrightarrow> j = i \<and> map_of (db_sessions d) (ss_ID s) = None \<and>
     d' = d\<lparr>db_sessions := mput (ss_ID s) (s, id_Incarnation i) (db_sessions d)\<rparr>"
  by (cases "map_of (db_sessions d) (ss_ID s)") (auto simp: insertSession_def)

lemma createTx_Inr:
  assumes "createTx inc rootInc s expectRoot d = Inr (d', i)"
  shows "id_ID i = ss_ID s" "id_Incarnation i = inc" "map_of (db_sessions d) (ss_ID s) = None"
    "ss_RootID s = [] \<Longrightarrow> d' = d\<lparr>db_sessions := mput (ss_ID s) (s, inc) (db_sessions d)\<rparr> \<and> id_RootID i = ss_ID s \<and> id_RootIncarnation i = inc"
    "ss_RootID s \<noteq> [] \<Longrightarrow> \<exists>root. let d1 = fillIncarnation (ss_RootID s) rootInc d in
        map_of (db_sessions d1) (ss_RootID s) = Some (root, id_RootIncarnation i) \<and> ss_RootID root = [] \<and> id_RootIncarnation i \<noteq> [] \<and>
        (expectRoot \<noteq> [] \<longrightarrow> id_RootIncarnation i = expectRoot) \<and> id_RootID i = ss_RootID s \<and>
        d' = d1\<lparr>db_sessions := mput (ss_ID s) (s, inc) (db_sessions d1)\<rparr>"
proof -
  have keep: "map_of (db_sessions (fillIncarnation k v d)) a = None \<longleftrightarrow> map_of (db_sessions d) a = None" for k v a
    by (auto simp: fillIncarnation_def split: option.split prod.split list.split)
  show "id_ID i = ss_ID s" "id_Incarnation i = inc" "map_of (db_sessions d) (ss_ID s) = None"
    using assms by (auto simp: createTx_def Let_def keep split: if_splits option.splits prod.splits)
  show "ss_RootID s = [] \<Longrightarrow> d' = d\<lparr>db_sessions := mput (ss_ID s) (s, inc) (db_sessions d)\<rparr> \<and> id_RootID i = ss_ID s \<and> id_RootIncarnation i = inc"
    using assms by (auto simp: createTx_def)
  show "\<exists>root. let d1 = fillIncarnation (ss_RootID s) rootInc d in
        map_of (db_sessions d1) (ss_RootID s) = Some (root, id_RootIncarnation i) \<and> ss_RootID root = [] \<and> id_RootIncarnation i \<noteq> [] \<and>
        (expectRoot \<noteq> [] \<longrightarrow> id_RootIncarnation i = expectRoot) \<and> id_RootID i = ss_RootID s \<and>
        d' = d1\<lparr>db_sessions := mput (ss_ID s) (s, inc) (db_sessions d1)\<rparr>" if "ss_RootID s \<noteq> []"
    using assms that by (auto simp: createTx_def Let_def split: if_splits option.splits prod.splits)
qed

lemma incAt_createTx:
  assumes "createTx inc rootInc s expectRoot d = Inr (d', i)"
  shows "incAt d' sid = incAt d sid \<or> sid = ss_ID s \<and> incAt d' sid = inc \<or> sid = ss_RootID s \<and> sid \<noteq> ss_ID s \<and> incAt d' sid = rootInc"
proof (cases "ss_RootID s = []")
  case True
  then show ?thesis using createTx_Inr(4) [OF assms] by simp
next
  case False
  then have "d' = (fillIncarnation (ss_RootID s) rootInc d)\<lparr>db_sessions := mput (ss_ID s) (s, inc) (db_sessions (fillIncarnation (ss_RootID s) rootInc d))\<rparr>"
    using createTx_Inr(5) [OF assms] by (auto simp: Let_def)
  then show ?thesis by (auto simp: incAt_fill)
qed

lemma incAt_create:
  "let d' = fst (CreateSession b f i ri d0 s e d) in
   incAt d' sid = incAt d sid \<or> sid = ss_ID s \<and> incAt d' sid = i \<or> sid = ss_RootID s \<and> sid \<noteq> ss_ID s \<and> incAt d' sid = ri"
  by (auto simp: CreateSession_def writeTx_def Let_def split: option.split sum.split dest: incAt_createTx [of _ _ _ _ _ _ _ sid])

lemma incAt_delete: "incAt (fst (DeleteSession f k d)) sid = incAt d sid \<or> incAt (fst (DeleteSession f k d)) sid = []"
  by (auto simp: DeleteSession_def exec_def incAt_def split: option.split)

lemma incAt_backfill:
  "incAt (fst (backfillIncarnations f fresh d)) sid = incAt d sid \<or> incAt (fst (backfillIncarnations f fresh d)) sid = fresh sid"
proof -
  have "map_of (map (\<lambda>(k, r). (k, case r of (s, inc) \<Rightarrow> (s, if inc = [] then fresh k else inc))) m) sid =
      map_option (\<lambda>(s, inc). (s, if inc = [] then fresh sid else inc)) (map_of m sid)" for m :: "(string \<times> Session \<times> string) list"
    by (induction m) auto
  note filled = this [of "db_sessions d"]
  show ?thesis
  proof (cases "map_of (db_sessions d) sid")
    case None
    with filled show ?thesis by (simp add: backfillIncarnations_def exec_def incAt_def split: option.split)
  next
    case (Some r)
    with filled show ?thesis by (cases r) (simp add: backfillIncarnations_def exec_def incAt_def split: option.split)
  qed
qed

lemma incAt_grants [simp]: "incAt (fst (setCoordinatorGrants f cid repos a d)) sid = incAt d sid"
  by (auto simp: setCoordinatorGrants_def writeTx_def split: option.split sum.split dest!: setGrantsTx_Inr(1))

lemma incAt_step:
  "incAt (applyStore d op) sid = [] \<or> incAt (applyStore d op) sid = incAt d sid \<or> incAt (applyStore d op) sid = drawn op sid"
proof (cases op)
  case (OPutSession b f i s)
  then show ?thesis using incAt_putSessionRow [of i s d sid] by (auto simp: PutSession_def exec_def split: option.split)
next
  case (OCreateSession b f i ri d0 s e)
  then show ?thesis using incAt_create [of b f i ri d0 s e d sid] by (auto simp: Let_def)
next
  case (ODeleteSession f k)
  then show ?thesis using incAt_delete [of f k d sid] by auto
next
  case (OBackfillIncarnations f fresh)
  then show ?thesis using incAt_backfill [of f fresh d sid] by auto
qed (auto simp: PutRepo_def putRepoRow_def DeleteRepo_def SetName_def SetModel_def SetClaudeID_def SetArchivedFlag_def SetDir_def
    SetRepoScope_def SetRootID_def SetCoordinatorRepoGrants_def SetCoordinatorRepoGrantsAllTracked_def PutSessionPRState_def exec_def
    split: option.split)

section \<open>Incarnations never return\<close>

definition incs_inv :: "string set \<Rightarrow> DB \<Rightarrow> bool" where
  "incs_inv used d \<longleftrightarrow> (\<forall>a. incAt d a \<noteq> [] \<longrightarrow> incAt d a \<in> used) \<and>
     (\<forall>a b. incAt d a \<noteq> [] \<longrightarrow> incAt d a = incAt d b \<longrightarrow> a = b)"

lemma incs_inv_step:
  assumes "incs_inv used d" and "freshDraws used op"
  shows "incs_inv (used \<union> range (drawn op)) (applyStore d op)"
proof -
  let ?d = "applyStore d op"
  have from_draw: "incAt ?d a \<in> used \<and> incAt ?d a = incAt d a \<or> incAt ?d a \<notin> used \<and> incAt ?d a = drawn op a" if "incAt ?d a \<noteq> []" for a
    using incAt_step [of d op a] that assms unfolding incs_inv_def freshDraws_def by metis
  have "incAt ?d a \<in> used \<union> range (drawn op)" if "incAt ?d a \<noteq> []" for a
    using from_draw [OF that] by auto
  moreover have "a = b" if "incAt ?d a \<noteq> []" "incAt ?d a = incAt ?d b" for a b
  proof (cases "incAt ?d a \<in> used")
    case True
    then have "incAt d a = incAt d b" "incAt d a \<noteq> []" using from_draw [of a] from_draw [of b] that by auto
    then show ?thesis using assms(1) unfolding incs_inv_def by blast
  next
    case False
    then have "drawn op a = drawn op b" "drawn op a \<noteq> []" using from_draw [of a] from_draw [of b] that by auto
    then show ?thesis using assms(2) unfolding freshDraws_def by blast
  qed
  ultimately show ?thesis unfolding incs_inv_def by blast
qed

fun usedAfter :: "string set \<Rightarrow> storeOp list \<Rightarrow> string set" where
  "usedAfter used [] = used"
| "usedAfter used (op # ops) = usedAfter (used \<union> range (drawn op)) ops"

lemma incs_inv_run: "incs_inv used d \<Longrightarrow> freshRun used ops \<Longrightarrow> incs_inv (usedAfter used ops) (foldl applyStore d ops)"
  by (induction ops arbitrary: used d) (auto intro: incs_inv_step)

lemma freshRun_append: "freshRun used (xs @ ys) \<longleftrightarrow> freshRun used xs \<and> freshRun (usedAfter used xs) ys"
  by (induction xs arbitrary: used) auto

text \<open>A known incarnation found on a row was on that row at every earlier moment.\<close>

lemma inc_was_there:
  "freshRun used ops \<Longrightarrow> i \<in> used \<Longrightarrow> i \<noteq> [] \<Longrightarrow> incAt (foldl applyStore d ops) sid = i \<Longrightarrow> n \<le> length ops \<Longrightarrow>
   incAt (foldl applyStore d (take n ops)) sid = i"
proof (induction ops arbitrary: used d n)
  case (Cons op ops)
  have later: "incAt (foldl applyStore (applyStore d op) (take m ops)) sid = i" if "m \<le> length ops" for m
    using Cons.IH [of "used \<union> range (drawn op)" "applyStore d op" m] Cons.prems that by simp
  have "incAt (applyStore d op) sid = i" using later [of 0] by simp
  then have now: "incAt d sid = i"
    using incAt_step [of d op sid] Cons.prems(1,2,3) unfolding freshRun.simps freshDraws_def by metis
  show ?case using now later Cons.prems(5) by (cases n) simp_all
qed simp

text \<open>
  C21. An incarnation names one session for ever. If some session had an incarnation after the writes
  \<open>before\<close>, and any row has it after the further writes \<open>after\<close>, then that row is the same
  session, and it had this incarnation, so its row was not deleted, at every moment in between: an
  id that is deleted and reused is told apart.
\<close>

theorem incarnation_never_returns:
  assumes "freshRun {} (before @ after)" and "incAt (foldl applyStore emptyStore before) sid = i" and "i \<noteq> []"
    and "incAt (foldl applyStore emptyStore (before @ after)) other = i" and "n \<le> length after"
  shows "other = sid \<and> incAt (foldl applyStore emptyStore (before @ take n after)) sid = i"
proof -
  let ?used = "usedAfter {} before" and ?d = "foldl applyStore emptyStore before"
  have "incs_inv {} emptyStore" by (simp add: incs_inv_def emptyStore_def incAt_def)
  then have inv: "incs_inv ?used ?d" using assms(1) incs_inv_run freshRun_append by blast
  then have "i \<in> ?used" using assms(2,3) unfolding incs_inv_def by blast
  moreover have "freshRun ?used after" using assms(1) freshRun_append by blast
  ultimately have there: "incAt (foldl applyStore ?d (take m after)) other = i" if "m \<le> length after" for m
    using inc_was_there [of ?used after i ?d other m] assms(3,4) that by simp
  have "incAt ?d other = i" using there [of 0] by simp
  then have "other = sid" using inv assms(2,3) unfolding incs_inv_def by metis
  then show ?thesis using there [OF assms(5)] by simp
qed

definition sampleSession :: "string \<Rightarrow> string \<Rightarrow> Session" where
  "sampleSession sid root = \<lparr>ss_ID = sid, ss_RootID = root, ss_Name = [], ss_Agent = ''claude'', ss_Model = [], ss_Mode = ModeTask,
     ss_Repo = [], ss_Branch = [], ss_Dir = [], ss_ClaudeID = [], ss_Prompt = [], ss_Created = 1, ss_Scope = ScopeWork,
     ss_Archived = False, ss_ArchivedAt = 0\<rparr>"

theorem incarnation_never_returns_witness:
  "incAt (foldl applyStore emptyStore [OPutSession None None ''i'' (sampleSession ''w'' []), OSetName None ''w'' ''x''] ) ''w'' = ''i'' \<and>
   incAt (foldl applyStore emptyStore ([OPutSession None None ''i'' (sampleSession ''w'' [])] @ take 1 [OSetName None ''w'' ''x''])) ''w'' = ''i''"
proof -
  have row: "incAt (foldl applyStore emptyStore [OPutSession None None ''i'' (sampleSession ''w'' [])]) ''w'' = ''i''"
    by (simp add: PutSession_def exec_def putSessionRow_def emptyStore_def incAt_def sampleSession_def)
  have end_row: "incAt (foldl applyStore emptyStore ([OPutSession None None ''i'' (sampleSession ''w'' [])] @ [OSetName None ''w'' ''x''])) ''w'' = ''i''"
    using row by (simp add: SetName_def exec_def)
  have "freshRun {} ([OPutSession None None ''i'' (sampleSession ''w'' [])] @ [OSetName None ''w'' ''x''])"
    by (simp add: freshDraws_def)
  from incarnation_never_returns [OF this row _ end_row, of 1] end_row show ?thesis by simp
qed

section \<open>Creating a session\<close>

lemma fill_row: "map_of (db_sessions (fillIncarnation k inc d)) a =
    (if a = k then map_option (\<lambda>(s, i). (s, if i = [] then inc else i)) (map_of (db_sessions d) k) else map_of (db_sessions d) a)"
  by (auto simp: fillIncarnation_def split: option.split prod.split list.split)

text \<open>
  C22. A successful \<^verbatim>\<open>CreateSession\<close> returns a complete identity, adds exactly the given row
  under an id that had none, with the incarnation it reports, and leaves every other row as it was,
  except that a root that had no incarnation gets one. A member's parent is a root row, with the
  incarnation the caller expected if it named one. A refused creation changes nothing.
\<close>

theorem CreateSession_exact:
  assumes "inc \<noteq> []" and "CreateSession bind fault inc rootInc d0 s expectRoot d = (d', r)"
  shows "case r of
      Inl e \<Rightarrow> d' = d
    | Inr i \<Rightarrow> Complete i \<and> id_ID i = ss_ID s \<and> map_of (db_sessions d) (ss_ID s) = None \<and>
        map_of (db_sessions d') (ss_ID s) = Some (s, id_Incarnation i) \<and>
        (\<forall>a. a \<noteq> ss_ID s \<longrightarrow> GetSession d' a = GetSession d a \<and> (a \<noteq> ss_RootID s \<or> incAt d a \<noteq> [] \<longrightarrow> incAt d' a = incAt d a)) \<and>
        (if ss_RootID s = [] then id_RootID i = ss_ID s \<and> id_RootIncarnation i = id_Incarnation i
         else id_RootID i = ss_RootID s \<and>
           (\<exists>root. map_of (db_sessions d') (ss_RootID s) = Some (root, id_RootIncarnation i) \<and> IsRoot root) \<and>
           (expectRoot \<noteq> [] \<longrightarrow> id_RootIncarnation i = expectRoot))"
proof (cases r)
  case (Inl e)
  with assms(2) show ?thesis
    by (auto simp: CreateSession_def writeTx_def split: if_splits option.splits sum.splits)
next
  case (Inr i)
  with assms(2) have tx: "createTx inc rootInc s expectRoot d = Inr (d', i)" and sid: "ss_ID s \<noteq> []"
    by (auto simp: CreateSession_def writeTx_def split: if_splits option.splits sum.splits)
  note base = createTx_Inr(1-3) [OF tx]
  show ?thesis
  proof (cases "ss_RootID s = []")
    case True
    then show ?thesis
      using Inr base createTx_Inr(4) [OF tx] assms(1) sid by (simp add: Complete_def GetSession_def)
  next
    case False
    define d1 where "d1 = fillIncarnation (ss_RootID s) rootInc d"
    obtain root where root: "map_of (db_sessions d1) (ss_RootID s) = Some (root, id_RootIncarnation i)" "ss_RootID root = []"
      "id_RootIncarnation i \<noteq> []" "expectRoot \<noteq> [] \<longrightarrow> id_RootIncarnation i = expectRoot" "id_RootID i = ss_RootID s"
      "d' = d1\<lparr>db_sessions := mput (ss_ID s) (s, inc) (db_sessions d1)\<rparr>"
      using createTx_Inr(5) [OF tx False] unfolding d1_def Let_def by blast
    have apart: "ss_RootID s \<noteq> ss_ID s"
      using root(1) base(3) by (auto simp: d1_def fill_row)
    have "GetSession d' a = GetSession d a" if "a \<noteq> ss_ID s" for a
      using that by (auto simp: root(6) GetSession_def d1_def fill_row option.map_comp comp_def case_prod_unfold)
    moreover have "incAt d' a = incAt d a" if "a \<noteq> ss_ID s" "a \<noteq> ss_RootID s \<or> incAt d a \<noteq> []" for a
      using that by (auto simp: root(6) d1_def incAt_fill)
    moreover have "map_of (db_sessions d') (ss_ID s) = Some (s, id_Incarnation i)" using base(2) by (simp add: root(6))
    moreover have "map_of (db_sessions d') (ss_RootID s) = Some (root, id_RootIncarnation i)" using apart root(1) by (simp add: root(6))
    ultimately show ?thesis
      using Inr False base root(2-5) assms(1) sid by (simp add: Complete_def IsRoot_def)
  qed
qed

definition rootStore :: DB where
  "rootStore = putSessionRow ''i'' (sampleSession ''w'' []) emptyStore"

theorem CreateSession_exact_witness:
  "\<exists>d' i. CreateSession None None ''j'' ''k'' rootStore (sampleSession ''m'' ''w'') ''i'' rootStore = (d', Inr i) \<and>
     Complete i \<and> id_RootIncarnation i = ''i''"
proof -
  obtain d' i where run: "CreateSession None None ''j'' ''k'' rootStore (sampleSession ''m'' ''w'') ''i'' rootStore = (d', Inr i)"
    by (simp add: CreateSession_def rootStore_def putSessionRow_def sampleSession_def emptyStore_def precheckCreate_def
        SessionIdentities_def MaxIdentityLookup_def writeTx_def createTx_def fillIncarnation_def Let_def insertSession_def)
  from CreateSession_exact [OF _ run] show ?thesis using run by (simp add: sampleSession_def)
qed

section \<open>Grants read back\<close>

text \<open>
  C23. Setting a coordinator's grants and reading them gives the given names trimmed, without blanks
  and duplicates, in order, all of them tracked; no other coordinator's grants change. A refusal
  (an unknown session, a session that is not a workgroup root, an untracked repository, a failing
  statement) changes nothing.
\<close>

theorem grants_read_back:
  assumes "SetCoordinatorRepoGrants fault cid repos d = (d', r)"
  shows "case r of
      Inl e \<Rightarrow> d' = d
    | Inr u \<Rightarrow> CoordinatorRepoGrants d' cid = (normalizedGrantRepos repos, True) \<and>
        set (normalizedGrantRepos repos) \<subseteq> fst ` set (db_repos d') \<and>
        sorted (normalizedGrantRepos repos) \<and> distinct (normalizedGrantRepos repos) \<and>
        (\<forall>c. c \<noteq> cid \<longrightarrow> CoordinatorRepoGrants d' c = CoordinatorRepoGrants d c)"
proof (cases r)
  case (Inl e)
  with assms show ?thesis
    by (auto simp: SetCoordinatorRepoGrants_def setCoordinatorGrants_def writeTx_def split: option.splits sum.splits)
next
  case (Inr u)
  with assms have tx: "setGrantsTx cid (normalizedGrantRepos repos) False d = Inr (d', u)"
    by (auto simp: SetCoordinatorRepoGrants_def setCoordinatorGrants_def writeTx_def split: option.splits sum.splits)
  note d' = setGrantsTx_Inr [OF tx]
  have own: "map snd (filter (\<lambda>g. fst g = cid) (filter (\<lambda>g. fst g \<noteq> cid) gs @ map (Pair cid) rs)) = rs" for gs :: "(string \<times> string) list" and rs
    by (simp add: filter_map comp_def)
  have others: "filter (\<lambda>g. fst g = c) (filter (\<lambda>g. fst g \<noteq> cid) gs @ map (Pair cid) rs) = filter (\<lambda>g. fst g = c) gs"
    if "c \<noteq> cid" for c and gs :: "(string \<times> string) list" and rs
    using that by (auto simp: filter_map comp_def filter_filter intro: filter_cong)
  have "sort (normalizedGrantRepos repos) = normalizedGrantRepos repos" by (simp add: sorted_sort_id)
  then show ?thesis
    using Inr d'(2) by (auto simp: d'(1) CoordinatorRepoGrants_def coordinatorGrantState_def own others simp del: filter_append map_append split: option.split)
qed

definition sampleRepo :: "string \<Rightarrow> Repo" where "sampleRepo n = \<lparr>re_Name = n, re_Source = ''s'', re_GitDir = ''g''\<rparr>"

theorem grants_read_back_witness:
  "\<exists>d'. SetCoordinatorRepoGrants None ''w'' ['' api'', ''api'', ''web ''] (putRepoRow (sampleRepo ''web'') (putRepoRow (sampleRepo ''api'') rootStore)) = (d', Inr ()) \<and>
     CoordinatorRepoGrants d' ''w'' = ([''api'', ''web''], True)"
proof -
  have norm: "normalizedGrantRepos ['' api'', ''api'', ''web ''] = [''api'', ''web'']" by code_simp
  obtain d' where run: "SetCoordinatorRepoGrants None ''w'' ['' api'', ''api'', ''web '']
      (putRepoRow (sampleRepo ''web'') (putRepoRow (sampleRepo ''api'') rootStore)) = (d', Inr ())"
    by (simp add: SetCoordinatorRepoGrants_def setCoordinatorGrants_def writeTx_def setGrantsTx_def norm GetSession_def RepoNamed_def
        rootStore_def putSessionRow_def putRepoRow_def sampleRepo_def sampleSession_def emptyStore_def)
  from grants_read_back [OF run] show ?thesis using run by (simp add: norm)
qed

section \<open>An order the listing does not keep\<close>

text \<open>
  C24. \<^verbatim>\<open>AllSessions\<close> does not list roots before their members: it orders by creation alone, so a
  member moved (\<^verbatim>\<open>SetRootID\<close>) into a workgroup created after it comes before its root.
\<close>

definition lateRoot :: Session where
  "lateRoot = (sampleSession ''r'' [])\<lparr>ss_Created := 2\<rparr>"


end
