(* ===== verification/Session_Policy.thy ===== *)
theory Session_Policy
  imports Access_Policy Session_Store_Props
begin

text \<open>
  The daemon's resolver (\<^verbatim>\<open>internal/daemon/session_policy.go\<close>): roles, membership, archive
  state and grants read from the session store, and the projections a restricted caller receives.
  \<^verbatim>\<open>policyStore\<close> is an interface of the code and a record of functions here; \<open>storeView\<close>
  implements it by the store's queries, each of which may fail.
\<close>

section \<open>The resolver\<close>

record policyStore =
  ps_GetSession :: "string \<Rightarrow> access_error + Session option"
  ps_Repo :: "string \<Rightarrow> access_error + Repo option"
  ps_Repos :: "access_error + Repo list"
  ps_Roots :: "access_error + Session list"
  ps_Children :: "string \<Rightarrow> access_error + Session list"
  ps_Grants :: "string \<Rightarrow> access_error + string list \<times> bool"

text \<open>
  \<open>ar_open\<close> is None where the function pointer is nil; \<open>ar_console\<close> is what \<^verbatim>\<open>console.Session\<close>
  returns, which never reads the store.
\<close>

record daemonAccessResolver =
  ar_open :: "(access_error + policyStore) option"
  ar_providerAllows :: "(string \<Rightarrow> Request \<Rightarrow> access_error + bool) option"
  ar_console :: Session

abbreviation (input) "consoleID \<equiv> ''console''"

definition consoleSession :: "string \<Rightarrow> string \<Rightarrow> Session" where
  "consoleSession kind dir = \<lparr>ss_ID = consoleID, ss_RootID = [], ss_Name = ''amux console'', ss_Agent = kind, ss_Model = [],
     ss_Mode = ModeConsole, ss_Repo = [], ss_Branch = [], ss_Dir = dir, ss_ClaudeID = ''a3c00501-0000-4000-8000-0000c0501010'',
     ss_Prompt = [], ss_Created = 0, ss_Scope = [], ss_Archived = False, ss_ArchivedAt = 0\<rparr>"

definition withStore :: "daemonAccessResolver \<Rightarrow> (policyStore \<Rightarrow> access_error + 'a) \<Rightarrow> access_error + 'a" where
  "withStore r fn =
     (case ar_open r of
        None \<Rightarrow> Inl (ErrIO ''session policy store unavailable'')
      | Some (Inl e) \<Rightarrow> Inl e
      | Some (Inr db) \<Rightarrow> fn db)"

definition inheritParentArchive :: "Session \<Rightarrow> (string \<Rightarrow> access_error + Session option) \<Rightarrow> access_error + Session" where
  "inheritParentArchive s lookup =
     (if \<not> IsRoot s \<and> \<not> ss_Archived s then
        (case lookup (ss_RootID s) of
           Inl e \<Rightarrow> Inl e
         | Inr parent \<Rightarrow> Inr (s\<lparr>ss_Archived := (case parent of None \<Rightarrow> False | Some p \<Rightarrow> ss_Archived p)\<rparr>))
      else Inr s)"

definition lookupPolicySession :: "Session \<Rightarrow> policyStore \<Rightarrow> string \<Rightarrow> access_error + Session option" where
  "lookupPolicySession con db sid =
     (if sid = [] then Inr None
      else if sid = consoleID then Inr (Some con)
      else (case ps_GetSession db sid of
          Inl e \<Rightarrow> Inl e
        | Inr None \<Rightarrow> Inr None
        | Inr (Some s) \<Rightarrow> map_sum id Some (inheritParentArchive s (ps_GetSession db))))"

definition policyResource :: "Session \<Rightarrow> Resource" where
  "policyResource s = \<lparr>rs_ID = ss_ID s, rs_RootID = ss_RootID s, rs_Role = Role s, rs_Scope = ss_Scope s,
     rs_Repo = ss_Repo s, rs_Archived = ss_Archived s\<rparr>"

text \<open>\<open>ctx\<close> is the error of the caller's context, if it has ended.\<close>

definition Lookup :: "access_error option \<Rightarrow> daemonAccessResolver \<Rightarrow> string \<Rightarrow> access_error + Resource option" where
  "Lookup ctx r sid =
     (case ctx of
        Some e \<Rightarrow> Inl e
      | None \<Rightarrow> withStore r (\<lambda>db. map_sum id (map_option policyResource) (lookupPolicySession (ar_console r) db sid)))"

definition containsString :: "string list \<Rightarrow> string \<Rightarrow> bool" where
  "containsString values want = list_ex (\<lambda>value. value = want) values"

definition RepoGranted :: "access_error option \<Rightarrow> daemonAccessResolver \<Rightarrow> string \<Rightarrow> string \<Rightarrow> access_error + bool" where
  "RepoGranted ctx r subjectID repo =
     (case ctx of
        Some e \<Rightarrow> Inl e
      | None \<Rightarrow> withStore r (\<lambda>db.
          (case lookupPolicySession (ar_console r) db subjectID of
             Inl e \<Rightarrow> Inl e
           | Inr None \<Rightarrow> Inr False
           | Inr (Some subject) \<Rightarrow>
               if ss_Archived subject then Inr False
               else (case ps_Repo db repo of
                   Inl e \<Rightarrow> Inl e
                 | Inr None \<Rightarrow> Inr False
                 | Inr (Some _) \<Rightarrow>
                     if Role subject = RoleCoordinator then
                       (case ps_Grants db (ss_ID subject) of
                          Inl e \<Rightarrow> Inl e
                        | Inr (grants, initialized) \<Rightarrow> Inr (initialized \<and> containsString grants repo))
                     else if Role subject = RoleRepo then Inr (ss_Repo subject = repo)
                     else if Role subject = RoleConsole then Inr True
                     else Inr False))))"

definition ProviderAllows :: "daemonAccessResolver \<Rightarrow> string \<Rightarrow> Request \<Rightarrow> access_error + bool" where
  "ProviderAllows r subject req = (case ar_providerAllows r of None \<Rightarrow> Inr False | Some allows \<Rightarrow> allows subject req)"

definition resolverOf :: "access_error option \<Rightarrow> daemonAccessResolver \<Rightarrow> Resolver" where
  "resolverOf ctx r = \<lparr>rv_Lookup = Lookup ctx r, rv_RepoGranted = RepoGranted ctx r, rv_ProviderAllows = ProviderAllows r\<rparr>"

section \<open>Projections\<close>

record AgentRow =
  aw_ID :: string
  aw_Agent :: string
  aw_Mode :: string
  aw_Repos :: string
  aw_Branch :: string
  aw_Dir :: string
  aw_Archived :: bool

record WorkgroupRow =
  ww_ID :: string
  ww_Scope :: string
  ww_Display :: string
  ww_Agents :: "AgentRow list"
  ww_Role :: string
  ww_Grants :: "string list"
  ww_Granted :: bool
  ww_GrantsAll :: bool
  ww_Agent :: string
  ww_Dir :: string

record RepoRow =
  rr_Name :: string
  rr_Source :: string
  rr_Granted :: "bool option"

definition policyVisible :: "Session \<Rightarrow> Session \<Rightarrow> bool" where
  "policyVisible subject target = InWorkgroupScope (policyResource subject) (policyResource target)"

definition normalizedWorkgroupRow :: "Session \<Rightarrow> WorkgroupRow" where
  "normalizedWorkgroupRow root =
     \<lparr>ww_ID = ss_ID root, ww_Scope = (if ss_Scope root = [] then ScopeWork else ss_Scope root), ww_Display = Display root,
      ww_Agents = [], ww_Role = Role root, ww_Grants = [], ww_Granted = False, ww_GrantsAll = False, ww_Agent = ss_Agent root,
      ww_Dir = []\<rparr>"

definition normalizedAgentRow :: "Session \<Rightarrow> AgentRow" where
  "normalizedAgentRow s = \<lparr>aw_ID = ss_ID s, aw_Agent = ss_Agent s, aw_Mode = ss_Mode s, aw_Repos = ss_Repo s, aw_Branch = [],
     aw_Dir = [], aw_Archived = ss_Archived s\<rparr>"

text \<open>One root: its row with the visible members, or None when neither it nor a member is visible.\<close>

definition scopedRow :: "policyStore \<Rightarrow> Session \<Rightarrow> Session \<Rightarrow> access_error + WorkgroupRow option" where
  "scopedRow db subject root =
     (case ps_Children db (ss_ID root) of
        Inl e \<Rightarrow> Inl e
      | Inr children \<Rightarrow>
          (case (if ss_ID root = ss_ID subject \<and> Role subject = RoleCoordinator then ps_Grants db (ss_ID root) else Inr ([], False)) of
             Inl e \<Rightarrow> Inl e
           | Inr (grants, initialized) \<Rightarrow>
               (let agents = map normalizedAgentRow (filter (policyVisible subject) children);
                    row = (normalizedWorkgroupRow root)\<lparr>ww_Grants := grants, ww_Granted := initialized, ww_Agents := agents\<rparr>
                in Inr (if policyVisible subject root \<or> agents \<noteq> [] then Some row else None))))"

fun scopedRowsLoop :: "policyStore \<Rightarrow> Session \<Rightarrow> Session list \<Rightarrow> access_error + WorkgroupRow list" where
  "scopedRowsLoop db subject [] = Inr []"
| "scopedRowsLoop db subject (root # roots) =
     (case scopedRow db subject root of
        Inl e \<Rightarrow> Inl e
      | Inr row \<Rightarrow>
          (case scopedRowsLoop db subject roots of
             Inl e \<Rightarrow> Inl e
           | Inr rows \<Rightarrow> Inr (case row of None \<Rightarrow> rows | Some w \<Rightarrow> w # rows)))"

definition splitRepoList :: "string \<Rightarrow> string list" where
  "splitRepoList value = filter (\<lambda>item. item \<noteq> []) (map TrimSpace (split_on CHR '','' value))"

text \<open>The caller's current row, or the denial every projection starts with.\<close>

definition activeSubject :: "Session \<Rightarrow> policyStore \<Rightarrow> Principal \<Rightarrow> access_error + Session" where
  "activeSubject con db pr =
     (case lookupPolicySession con db (p_SubjectID pr) of
        Inl e \<Rightarrow> Inl e
      | Inr None \<Rightarrow> Inl ErrDenied
      | Inr (Some subject) \<Rightarrow> if p_Kind pr \<noteq> SubjectSession \<or> ss_Archived subject then Inl ErrDenied else Inr subject)"

definition scopedSessionRows :: "access_error option \<Rightarrow> daemonAccessResolver \<Rightarrow> Principal \<Rightarrow> access_error + WorkgroupRow list" where
  "scopedSessionRows ctx r pr =
     (case ctx of
        Some e \<Rightarrow> Inl e
      | None \<Rightarrow> withStore r (\<lambda>db.
          (case activeSubject (ar_console r) db pr of
             Inl e \<Rightarrow> Inl e
           | Inr subject \<Rightarrow>
               (case ps_Roots db of Inl e \<Rightarrow> Inl e | Inr roots \<Rightarrow> scopedRowsLoop db subject roots))))"

definition repoRow :: "Session \<Rightarrow> string list \<times> bool \<Rightarrow> Repo \<Rightarrow> RepoRow option" where
  "repoRow subject grants repo =
     (let row = \<lparr>rr_Name = re_Name repo, rr_Source = [], rr_Granted = None\<rparr>
      in if Role subject = RoleConsole then Some row
         else if Role subject = RoleCoordinator then
           Some (row\<lparr>rr_Granted := Some (snd grants \<and> containsString (fst grants) (re_Name repo))\<rparr>)
         else if containsString (splitRepoList (ss_Repo subject)) (re_Name repo) then Some row else None)"

definition scopedRepoRows :: "access_error option \<Rightarrow> daemonAccessResolver \<Rightarrow> Principal \<Rightarrow> access_error + RepoRow list" where
  "scopedRepoRows ctx r pr =
     (case ctx of
        Some e \<Rightarrow> Inl e
      | None \<Rightarrow> withStore r (\<lambda>db.
          (case activeSubject (ar_console r) db pr of
             Inl e \<Rightarrow> Inl e
           | Inr subject \<Rightarrow>
               (case ps_Repos db of
                  Inl e \<Rightarrow> Inl e
                | Inr repos \<Rightarrow>
                    (case (if Role subject = RoleCoordinator then ps_Grants db (ss_ID subject) else Inr ([], False)) of
                       Inl e \<Rightarrow> Inl e
                     | Inr grants \<Rightarrow> Inr (List.map_filter (repoRow subject grants) repos))))))"

definition normalizeRestrictedSnapshot :: "'x Snapshot \<Rightarrow> 'x Snapshot" where
  "normalizeRestrictedSnapshot snap =
     snap\<lparr>sp_Sessions := map (\<lambda>s. s\<lparr>sn_Cwd := [], sn_Pid := 0, sn_CanAttach := False, sn_CanKill := False,
       sn_CanResume := False, sn_Status := sn_State s\<rparr>) (sp_Sessions snap)\<rparr>"

section \<open>The store behind it\<close>

text \<open>\<open>fault\<close> names the error of a query, if it fails.\<close>

definition storeView :: "(string \<Rightarrow> access_error option) \<Rightarrow> DB \<Rightarrow> policyStore" where
  "storeView fault d =
     \<lparr>ps_GetSession = (\<lambda>sid. case fault ''GetSession'' of Some e \<Rightarrow> Inl e | None \<Rightarrow> Inr (GetSession d sid)),
          ps_Repo = (\<lambda>name. case fault ''Repo'' of Some e \<Rightarrow> Inl e | None \<Rightarrow> Inr (RepoNamed d name)),
          ps_Repos = (case fault ''Repos'' of Some e \<Rightarrow> Inl e | None \<Rightarrow> Inr (Repos d)),
          ps_Roots = (case fault ''Roots'' of Some e \<Rightarrow> Inl e | None \<Rightarrow> Inr (Roots d)),
          ps_Children = (\<lambda>rid. case fault ''Children'' of Some e \<Rightarrow> Inl e | None \<Rightarrow> Inr (Children d rid)),
          ps_Grants = (\<lambda>cid. case fault ''Grants'' of Some e \<Rightarrow> Inl e | None \<Rightarrow> Inr (CoordinatorRepoGrants d cid))\<rparr>"

definition daemonResolver ::
  "(string \<Rightarrow> access_error option) \<Rightarrow> (string \<Rightarrow> Request \<Rightarrow> access_error + bool) option \<Rightarrow> string \<Rightarrow> string \<Rightarrow> DB \<Rightarrow> daemonAccessResolver" where
  "daemonResolver fault provider kind dir d =
     \<lparr>ar_open = Some (case fault ''Open'' of Some e \<Rightarrow> Inl e | None \<Rightarrow> Inr (storeView fault d)), ar_providerAllows = provider,
      ar_console = consoleSession kind dir\<rparr>"

lemma storeView_sel:
  "ps_GetSession (storeView fault d) sid = (case fault ''GetSession'' of Some e \<Rightarrow> Inl e | None \<Rightarrow> Inr (GetSession d sid))"
  "ps_Repo (storeView fault d) name = (case fault ''Repo'' of Some e \<Rightarrow> Inl e | None \<Rightarrow> Inr (RepoNamed d name))"
  "ps_Repos (storeView fault d) = (case fault ''Repos'' of Some e \<Rightarrow> Inl e | None \<Rightarrow> Inr (Repos d))"
  "ps_Roots (storeView fault d) = (case fault ''Roots'' of Some e \<Rightarrow> Inl e | None \<Rightarrow> Inr (Roots d))"
  "ps_Children (storeView fault d) sid = (case fault ''Children'' of Some e \<Rightarrow> Inl e | None \<Rightarrow> Inr (Children d sid))"
  "ps_Grants (storeView fault d) sid = (case fault ''Grants'' of Some e \<Rightarrow> Inl e | None \<Rightarrow> Inr (CoordinatorRepoGrants d sid))"
  by (simp_all add: storeView_def)

section \<open>The store's resolver keeps the contract\<close>

definition ceiling :: "DB \<Rightarrow> string \<Rightarrow> string \<Rightarrow> bool" where
  "ceiling d sid repo \<longleftrightarrow> RepoNamed d repo \<noteq> None \<and>
     (sid = consoleID \<or>
      (\<exists>s. GetSession d sid = Some s \<and>
         (Role s = RoleConsole \<or> Role s = RoleRepo \<and> ss_Repo s = repo \<or>
          Role s = RoleCoordinator \<and> snd (CoordinatorRepoGrants d sid) \<and> repo \<in> set (fst (CoordinatorRepoGrants d sid)))))"

lemma GetSession_id: "store_inv d \<Longrightarrow> GetSession d sid = Some s \<Longrightarrow> ss_ID s = sid"
  using row_id by (auto simp: GetSession_def)

lemma Role_archived [simp]: "Role (s\<lparr>ss_Archived := b\<rparr>) = Role s"
  by (simp add: Role_def IsRoot_def)

lemma archived_same [simp]: "\<not> ss_Archived s \<Longrightarrow> s\<lparr>ss_Archived := False\<rparr> = s"
  by (cases s) simp

lemma archived_self [simp]: "s\<lparr>ss_Archived := ss_Archived s\<rparr> = s"
  by (cases s) simp

lemma map_sum_Inr: "map_sum id f x = Inr y \<longleftrightarrow> (\<exists>z. x = Inr z \<and> y = f z)"
  by (cases x) auto

text \<open>Archived itself, or a member of an archived workgroup.\<close>

definition fenced :: "DB \<Rightarrow> Session \<Rightarrow> bool" where
  "fenced d s \<longleftrightarrow> ss_Archived s \<or>
     \<not> IsRoot s \<and> (case GetSession d (ss_RootID s) of None \<Rightarrow> False | Some parent \<Rightarrow> ss_Archived parent)"

text \<open>What a lookup finds: the console, or a stored row with its parent's archive flag.\<close>

lemma lookup_Some:
  assumes "lookupPolicySession con (storeView fault d) sid = Inr (Some s)" and "sid \<noteq> consoleID"
  obtains row b where "sid \<noteq> []" "GetSession d sid = Some row" "s = row\<lparr>ss_Archived := b\<rparr>" "b = fenced d row"
proof -
  from assms obtain row where row: "sid \<noteq> []" "GetSession d sid = Some row" "inheritParentArchive row (ps_GetSession (storeView fault d)) = Inr s"
    by (auto simp: lookupPolicySession_def storeView_sel map_sum_Inr split: if_splits option.splits)
  show ?thesis
  proof (cases "\<not> IsRoot row \<and> \<not> ss_Archived row")
    case True
    then have eq: "s = row\<lparr>ss_Archived := (case GetSession d (ss_RootID row) of None \<Rightarrow> False | Some p \<Rightarrow> ss_Archived p)\<rparr>"
      using row(3) by (auto simp: inheritParentArchive_def storeView_sel split: option.splits)
    show ?thesis by (rule that [OF row(1,2) eq]) (use True in \<open>simp add: fenced_def\<close>)
  next
    case False
    then have "s = row" using row(3) by (auto simp: inheritParentArchive_def)
    then show ?thesis by (intro that [OF row(1,2), of "ss_Archived row"]) (use False in \<open>auto simp: fenced_def\<close>)
  qed
qed

lemma resolver_lookup:
  assumes "rv_Lookup (resolverOf ctx (daemonResolver fault provider kind dir d)) sid = Inr (Some r)"
  obtains s where "lookupPolicySession (consoleSession kind dir) (storeView fault d) sid = Inr (Some s)" "r = policyResource s"
proof -
  from assms obtain z where "lookupPolicySession (consoleSession kind dir) (storeView fault d) sid = Inr z" "Some r = map_option policyResource z"
    by (auto simp: resolverOf_def Lookup_def withStore_def daemonResolver_def map_sum_Inr split: option.splits)
  then show ?thesis using that by (cases z) auto
qed

lemma resolver_id:
  assumes "store_inv d" and "rv_Lookup (resolverOf ctx (daemonResolver fault provider kind dir d)) sid = Inr (Some r)"
  shows "rs_ID r = sid"
proof -
  obtain s where s: "lookupPolicySession (consoleSession kind dir) (storeView fault d) sid = Inr (Some s)" "r = policyResource s"
    using assms(2) by (rule resolver_lookup)
  show ?thesis
  proof (cases "sid = consoleID")
    case True
    then show ?thesis using s by (auto simp: lookupPolicySession_def policyResource_def consoleSession_def)
  next
    case False
    with s(1) obtain row b where "GetSession d sid = Some row" "s = row\<lparr>ss_Archived := b\<rparr>"
      by (rule lookup_Some)
    then have "ss_ID s = sid" using GetSession_id [OF assms(1)] by simp
    then show ?thesis by (simp add: s(2) policyResource_def)
  qed
qed

lemma resolver_granted:
  assumes "store_inv d" and "rv_RepoGranted (resolverOf ctx (daemonResolver fault provider kind dir d)) sid repo = Inr True"
  shows "ceiling d sid repo"
proof -
  from assms(2) obtain s where s: "lookupPolicySession (consoleSession kind dir) (storeView fault d) sid = Inr (Some s)"
    and repo: "RepoNamed d repo \<noteq> None"
    and role: "Role s = RoleCoordinator \<and> snd (CoordinatorRepoGrants d (ss_ID s)) \<and> repo \<in> set (fst (CoordinatorRepoGrants d (ss_ID s))) \<or>
      Role s = RoleRepo \<and> ss_Repo s = repo \<or> Role s = RoleConsole"
    by (auto simp: resolverOf_def RepoGranted_def withStore_def daemonResolver_def storeView_sel containsString_def list_ex_iff
        split: option.splits sum.splits if_splits prod.splits)
  show ?thesis
  proof (cases "sid = consoleID")
    case True
    then show ?thesis using repo by (simp add: ceiling_def)
  next
    case False
    with s obtain row b where row: "GetSession d sid = Some row" "s = row\<lparr>ss_Archived := b\<rparr>"
      by (rule lookup_Some)
    then have "Role s = Role row" "ss_ID s = sid" "ss_Repo s = ss_Repo row"
      using GetSession_id [OF assms(1)] by simp_all
    then show ?thesis using repo role row(1) by (auto simp: ceiling_def)
  qed
qed

interpretation daemon: session_resolver "resolverOf ctx (daemonResolver fault provider kind dir (foldl applyStore emptyStore ops))"
    "ceiling (foldl applyStore emptyStore ops)" for ctx fault provider kind dir ops
  by unfold_locales (rule resolver_id resolver_granted, rule reached_inv, assumption)+

section \<open>Confinement\<close>

lemma no_console_role: "Role s \<noteq> RoleConsole \<longleftrightarrow> ss_Mode s \<noteq> ModeConsole"
  by (auto simp: Role_def)

lemma resolver_row:
  assumes "rv_Lookup (resolverOf ctx (daemonResolver fault provider kind dir d)) sid = Inr (Some r)" and "sid \<noteq> consoleID"
  obtains row where "sid \<noteq> []" "GetSession d sid = Some row" "rs_Role r = Role row" "rs_RootID r = ss_RootID row" "rs_Repo r = ss_Repo row" "rs_Archived r = fenced d row"
proof -
  obtain s where s: "lookupPolicySession (consoleSession kind dir) (storeView fault d) sid = Inr (Some s)" "r = policyResource s"
    using assms(1) by (rule resolver_lookup)
  obtain row b where row: "sid \<noteq> []" "GetSession d sid = Some row" "s = row\<lparr>ss_Archived := b\<rparr>" "b = fenced d row"
    using s(1) assms(2) by (rule lookup_Some)
  show ?thesis by (rule that [OF row(1,2)]) (use row(3,4) s(2) in \<open>simp_all add: policyResource_def\<close>)
qed

text \<open>
  C26. A session is confined to its own scope, whatever the history of the store and whichever
  queries fail. If the policy lets a session other than the console act, then either it is a
  repository home creating a workgroup for its own repository only, or the request names a stored
  session that is not archived (nor is its parent) and is the caller itself or, for a coordinator, a
  current member of its workgroup; an agent is added only by the coordinator to itself, and every
  repository named is tracked and within the coordinator's grants.
\<close>

theorem caller_confined:
  fixes ops :: "storeOp list" and p :: Principal
  defines "d \<equiv> foldl applyStore emptyStore ops" and "me \<equiv> p_SubjectID p"
  assumes "Authorize (Some (resolverOf ctx (daemonResolver fault provider kind dir d))) p req = None"
    and "p_Kind p = SubjectSession" and "rq_Route req = RouteAction"
    and "GetSession d me = Some s" and "me \<noteq> consoleID" and "ss_Mode s \<noteq> ModeConsole"
  shows "rq_Verb req = ActionNewWorkgroup \<and> Role s = RoleRepo \<and> rq_ID req = [] \<and> splitList (field (rq_Fields req) ''repos'') = [ss_Repo s] \<or>
    (\<exists>t. GetSession d (rq_ID req) = Some t \<and> \<not> fenced d t \<and>
      (rq_ID req = me \<or> Role s = RoleCoordinator \<and> ss_RootID t = me) \<and>
      rq_Verb req \<in> {ActionStart, ActionRename, ActionSteer, ActionSetArchived, ActionAddAgent} \<and>
      (rq_Verb req = ActionAddAgent \<longrightarrow> rq_ID req = me \<and> Role s = RoleCoordinator \<and>
         (\<forall>repo \<in> set (splitList (field (rq_Fields req) ''repos'')). ceiling d me repo)))"
proof -
  let ?R = "resolverOf ctx (daemonResolver fault provider kind dir d)"
  obtain r where r: "rv_Lookup ?R me = Inr (Some r)" "\<not> rs_Archived r"
    using assms(3,4) Authorize_spec unfolding me_def by blast
  obtain row where row: "me \<noteq> []" "GetSession d me = Some row" "rs_Role r = Role row" "rs_RootID r = ss_RootID row" "rs_Repo r = ss_Repo row"
    using r(1) assms(7) by (rule resolver_row)
  then have s: "rs_Role r = Role s" "rs_Repo r = ss_Repo s" using assms(6) by simp_all
  have "rs_Role r \<noteq> RoleConsole" using s(1) assms(8) no_console_role by metis
  note confined = daemon.confined [of p ctx fault provider kind dir ops req r, folded d_def me_def, OF assms(4,3,5) r(1) this]
  show ?thesis
  proof (cases "rq_Verb req = ActionNewWorkgroup \<and> rs_Role r = RoleRepo \<and> rq_ID req = [] \<and> splitList (field (rq_Fields req) ''repos'') = [rs_Repo r]")
    case True
    then show ?thesis using s by simp
  next
    case False
    then obtain t where t: "rq_ID req = me \<and> t = r \<or> rv_Lookup ?R (rq_ID req) = Inr (Some t)" "\<not> rs_Archived t"
      "rq_ID req = me \<or> rs_Role r = RoleCoordinator \<and> rs_RootID t = me"
      "rq_Verb req \<in> {ActionStart, ActionRename, ActionSteer, ActionSetArchived, ActionAddAgent}"
      "rq_Verb req = ActionAddAgent \<longrightarrow> rq_ID req = me \<and> rs_Role r = RoleCoordinator \<and>
         (\<forall>repo \<in> set (splitList (field (rq_Fields req) ''repos'')). ceiling d me repo)"
      using confined by blast
    have look: "rv_Lookup ?R (rq_ID req) = Inr (Some t)" using t(1) r(1) by auto
    have "rq_ID req \<noteq> consoleID"
    proof
      assume con: "rq_ID req = consoleID"
      obtain c where "lookupPolicySession (consoleSession kind dir) (storeView fault d) consoleID = Inr (Some c)" "t = policyResource c"
        using look unfolding con by (rule resolver_lookup)
      then have "rs_RootID t = []" by (auto simp: lookupPolicySession_def consoleSession_def policyResource_def)
      then show False using t(3) con assms(7) row(1) by auto
    qed
    with look obtain target where target: "GetSession d (rq_ID req) = Some target" "rs_RootID t = ss_RootID target" "rs_Archived t = fenced d target"
      by (rule resolver_row)
    show ?thesis using target t s by (intro disjI2 exI [of _ target]) auto
  qed
qed

definition sampleOps :: "storeOp list" where
  "sampleOps = [OPutRepo None (sampleRepo ''api''), OPutSession None None ''i'' (sampleSession ''w'' []),
     OPutSession None None ''j'' (sampleSession ''m'' ''w''), OSetGrants None ''w'' [''api'']]"

definition sampleStore :: DB where "sampleStore = foldl applyStore emptyStore sampleOps"

definition noFault :: "string \<Rightarrow> access_error option" where "noFault q = None"

definition sessionPrincipal :: "string \<Rightarrow> Principal" where
  "sessionPrincipal sid = \<lparr>p_KeyID = ''k'', p_SubjectID = sid, p_Kind = SubjectSession, p_Generation = 1\<rparr>"

lemma sampleNames:
  "normalizedGrantRepos [''api''] = [''api'']" "splitList ''api'' = [''api'']" "TrimSpace ''w'' = ''w''" "TrimSpace ''m'' = ''m''" "TrimSpace [] = []"
  by (simp_all add: normalizedGrantRepos_def splitList_def TrimSpace_plain plain_char_def)

lemma sampleStore_eq:
  "sampleStore = \<lparr>db_repos = [(''api'', sampleRepo ''api'')],
     db_sessions = [(''w'', sampleSession ''w'' [], ''i''), (''m'', sampleSession ''m'' ''w'', ''j'')], db_grantState = [(''w'', False)],
     db_grants = [(''w'', ''api'')], db_grantsMigrated = True, db_prs = []\<rparr>"
  by (simp add: sampleStore_def sampleOps_def emptyStore_def PutRepo_def exec_def putRepoRow_def PutSession_def putSessionRow_def
      SetCoordinatorRepoGrants_def setCoordinatorGrants_def writeTx_def setGrantsTx_def GetSession_def RepoNamed_def sampleNames
      sampleRepo_def [of "''api''", THEN arg_cong, of re_Name, simplified] sampleSession_def [THEN arg_cong, of ss_ID, simplified]
      sampleSession_def [THEN arg_cong, of ss_RootID, simplified] sampleSession_def [THEN arg_cong, of ss_Scope, simplified])

definition addRequest :: Request where
  "addRequest = \<lparr>rq_Route = RouteAction, rq_Verb = ActionAddAgent, rq_ID = ''w'', rq_Target = [], rq_Tab = 0, rq_Fields = [(''repos'', ''api'')]\<rparr>"

lemma sampleRoles: "Role (sampleSession ''w'' []) = RoleCoordinator" "Role (sampleSession ''m'' ''w'') = RoleAgent"
  "IsRoot (sampleSession ''w'' [])" "\<not> IsRoot (sampleSession ''m'' ''w'')" "\<not> ss_Archived (sampleSession a b)" "ss_ID (sampleSession a b) = a"
  "ss_RootID (sampleSession a b) = b"
  by (simp_all add: Role_def IsRoot_def sampleSession_def)

lemma sampleLookup:
  "GetSession sampleStore ''w'' = Some (sampleSession ''w'' [])" "GetSession sampleStore ''m'' = Some (sampleSession ''m'' ''w'')"
  "CoordinatorRepoGrants sampleStore ''w'' = ([''api''], True)" "RepoNamed sampleStore ''api'' = Some (sampleRepo ''api'')"
  by (simp_all add: sampleStore_eq GetSession_def CoordinatorRepoGrants_def coordinatorGrantState_def RepoNamed_def)

lemma sampleAdd_allowed:
  "Authorize (Some (resolverOf None (daemonResolver noFault None ''claude'' ''/c'' sampleStore))) (sessionPrincipal ''w'') addRequest = None"
  by (simp add: Authorize_def sessionPrincipal_def SubjectHost_def SubjectProvider_def SubjectSession_def addRequest_def RuleFor_add
      resolverOf_def Lookup_def withStore_def daemonResolver_def noFault_def lookupPolicySession_def storeView_sel sampleLookup
      inheritParentArchive_def sampleRoles policyResource_def knownRole_def authorizeScope_def sampleNames authorizeTarget_def narrowed_def
      InWorkgroupScope_def Let_def allowAddAgent_def authorizeAddAgent_def addAgentFields_def RepoGranted_def containsString_def)

theorem caller_confined_witness:
  "Authorize (Some (resolverOf None (daemonResolver noFault None ''claude'' ''/c'' sampleStore))) (sessionPrincipal ''w'') addRequest = None \<and>
   ceiling sampleStore ''w'' ''api''"
proof -
  note allowed = sampleAdd_allowed
  have "p_SubjectID (sessionPrincipal ''w'') = ''w''" "p_Kind (sessionPrincipal ''w'') = SubjectSession" "rq_Route addRequest = RouteAction"
    by (simp_all add: sessionPrincipal_def addRequest_def)
  moreover have "GetSession (foldl applyStore emptyStore sampleOps) (p_SubjectID (sessionPrincipal ''w'')) = Some (sampleSession ''w'' [])"
    using sampleLookup(1) by (simp add: sampleStore_def sessionPrincipal_def)
  moreover have "ss_Mode (sampleSession ''w'' []) \<noteq> ModeConsole" by (simp add: sampleSession_def)
  ultimately have "ceiling (foldl applyStore emptyStore sampleOps) ''w'' ''api''"
    using caller_confined [of None noFault None "''claude''" "''/c''" sampleOps "sessionPrincipal ''w''" addRequest "sampleSession ''w'' []"] allowed
    by (simp add: addRequest_def sampleNames sampleStore_def)
  with allowed show ?thesis by (simp add: sampleStore_def)
qed

section \<open>An archived workgroup is fenced\<close>

lemma fenced_lookup:
  assumes "GetSession d sid = Some s" and "fenced d s" and "sid \<noteq> consoleID"
    and "lookupPolicySession con (storeView fault d) sid = Inr (Some r)"
  shows "ss_Archived r"
proof -
  obtain row b where "GetSession d sid = Some row" "r = row\<lparr>ss_Archived := b\<rparr>" "b = fenced d row"
    using assms(4,3) by (rule lookup_Some)
  then show ?thesis using assms(1,2) by simp
qed

text \<open>
  C27. Archiving a workgroup shuts its members out at once, and archiving a session shuts out that
  session: while a session is archived or its parent is, every request of it is refused, and so is
  every projection (the session rows, the repositories, the snapshot), without touching its own row.
\<close>

theorem archived_is_shut_out:
  fixes p :: Principal
  defines "me \<equiv> p_SubjectID p"
  assumes "GetSession d me = Some s" and "fenced d s" and "me \<noteq> consoleID" and "p_Kind p = SubjectSession"
  shows "Authorize (Some (resolverOf ctx (daemonResolver fault provider kind dir d))) p req \<noteq> None \<and>
    isl (FilterSnapshot (Some (resolverOf ctx (daemonResolver fault provider kind dir d))) p snap) \<and>
    isl (scopedSessionRows ctx (daemonResolver fault provider kind dir d) p) \<and>
    isl (scopedRepoRows ctx (daemonResolver fault provider kind dir d) p)"
proof -
  let ?r = "daemonResolver fault provider kind dir d"
  have shut: "rs_Archived x" if look: "rv_Lookup (resolverOf ctx ?r) me = Inr (Some x)" for x
  proof -
    obtain c where "lookupPolicySession (consoleSession kind dir) (storeView fault d) me = Inr (Some c)" "x = policyResource c"
      using look by (rule resolver_lookup)
    then show ?thesis using fenced_lookup [OF assms(2-4)] by (simp add: policyResource_def)
  qed
  have "isl (activeSubject (consoleSession kind dir) (storeView fault d) p)"
    using fenced_lookup [OF assms(2-4)] by (auto simp: activeSubject_def me_def split: sum.split option.split)
  then obtain e where inactive: "activeSubject (consoleSession kind dir) (storeView fault d) p = Inl e" by (auto simp: isl_def)
  have kinds: "p_Kind p \<noteq> SubjectHost" "p_Kind p \<noteq> SubjectProvider"
    using assms(5) by (simp_all add: SubjectHost_def SubjectProvider_def SubjectSession_def)
  have "Authorize (Some (resolverOf ctx ?r)) p req \<noteq> None"
    using Authorize_spec [OF assms(5)] shut unfolding me_def by blast
  moreover have "isl (FilterSnapshot (Some (resolverOf ctx ?r)) p snap)"
    using kinds assms(5) shut by (auto simp: FilterSnapshot_def me_def split: sum.split option.split)
  moreover have "isl (scopedSessionRows ctx ?r p)" "isl (scopedRepoRows ctx ?r p)"
    using inactive by (auto simp: scopedSessionRows_def scopedRepoRows_def withStore_def daemonResolver_def split: option.split sum.split)
  ultimately show ?thesis by blast
qed

theorem archived_is_shut_out_witness:
  "Authorize (Some (resolverOf None (daemonResolver noFault None ''claude'' ''/c'' (fst (SetArchivedFlag None ''w'' True 9 sampleStore)))))
     (sessionPrincipal ''m'') addRequest \<noteq> None"
proof -
  have "GetSession (fst (SetArchivedFlag None ''w'' True 9 sampleStore)) (p_SubjectID (sessionPrincipal ''m'')) = Some (sampleSession ''m'' ''w'')"
    "fenced (fst (SetArchivedFlag None ''w'' True 9 sampleStore)) (sampleSession ''m'' ''w'')"
    "p_SubjectID (sessionPrincipal ''m'') \<noteq> consoleID" "p_Kind (sessionPrincipal ''m'') = SubjectSession"
    by (simp_all add: sampleStore_eq SetArchivedFlag_def exec_def updateRow_def GetSession_def fenced_def sampleRoles sessionPrincipal_def)
  then show ?thesis using archived_is_shut_out by blast
qed

section \<open>What a session sees\<close>

lemma ids_of_rows: "store_inv d \<Longrightarrow> map ss_ID (allRows d) = map fst (db_sessions d)"
  by (auto simp: store_inv_def rowsFiled_def allRows_def)

lemma in_allRows: "store_inv d \<Longrightarrow> s \<in> set (allRows d) \<longleftrightarrow> GetSession d (ss_ID s) = Some s"
proof -
  assume inv: "store_inv d"
  then have wf: "gwf (db_sessions d)" by (simp add: store_inv_def keysUnique_def)
  have "s \<in> set (allRows d) \<longleftrightarrow> (\<exists>sid inc. (sid, s, inc) \<in> set (db_sessions d))"
    by (force simp: allRows_def image_iff)
  also have "\<dots> \<longleftrightarrow> (\<exists>inc. (ss_ID s, s, inc) \<in> set (db_sessions d))"
    using inv by (auto simp: store_inv_def rowsFiled_def)
  also have "\<dots> \<longleftrightarrow> GetSession d (ss_ID s) = Some s"
    by (auto simp: GetSession_def gwf_map_of [OF wf])
  finally show ?thesis .
qed

text \<open>The row of one root, with no query failing.\<close>

definition pureRow :: "DB \<Rightarrow> Session \<Rightarrow> Session \<Rightarrow> WorkgroupRow option" where
  "pureRow d s root =
     (let agents = filter (policyVisible s) (Children d (ss_ID root));
          grants = (if ss_ID root = ss_ID s \<and> Role s = RoleCoordinator then CoordinatorRepoGrants d (ss_ID root) else ([], False))
      in if policyVisible s root \<or> agents \<noteq> []
         then Some ((normalizedWorkgroupRow root)\<lparr>ww_Grants := fst grants, ww_Granted := snd grants, ww_Agents := map normalizedAgentRow agents\<rparr>)
         else None)"

lemma scopedRow_Inr: "scopedRow (storeView fault d) s root = Inr w \<Longrightarrow> w = pureRow d s root"
  by (auto simp: scopedRow_def pureRow_def storeView_sel Let_def split: option.splits if_splits prod.splits)

lemma scopedRowsLoop_Inr: "scopedRowsLoop (storeView fault d) s roots = Inr rows \<Longrightarrow> rows = List.map_filter (pureRow d s) roots"
  by (induction roots arbitrary: rows) (auto dest!: scopedRow_Inr simp: map_filter_simps split: sum.splits option.splits)

lemma scopedRow_ok: "scopedRow (storeView noFault d) s root = Inr (pureRow d s root)"
  by (simp add: scopedRow_def pureRow_def storeView_sel noFault_def Let_def split: prod.split)

lemma scopedRowsLoop_ok: "\<exists>rows. scopedRowsLoop (storeView noFault d) s roots = Inr rows"
  by (induction roots) (auto simp: scopedRow_ok split: option.split)

lemma map_filter_one:
  assumes "distinct (map key xs)" and "\<And>x. x \<in> set xs \<Longrightarrow> key x \<noteq> k \<Longrightarrow> f x = None"
  shows "List.map_filter f xs = (case find (\<lambda>x. key x = k) xs of None \<Rightarrow> [] | Some x \<Rightarrow> case f x of None \<Rightarrow> [] | Some y \<Rightarrow> [y])"
  using assms
proof (induction xs)
  case (Cons x xs)
  have none: "List.map_filter f xs = []" if "key x = k"
  proof -
    have "f y = None" if "y \<in> set xs" for y using Cons.prems that \<open>key x = k\<close> by (metis distinct.simps(2) image_eqI list.set_intros(2) list.set_map list.simps(9))
    then show ?thesis by (simp add: List.map_filter_def filter_empty_conv)
  qed
  show ?case
  proof (cases "key x = k")
    case True
    then show ?thesis using none by (simp add: map_filter_simps split: option.split)
  next
    case False
    then have "f x = None" using Cons.prems(2) by simp
    then show ?thesis using False Cons by (simp add: map_filter_simps)
  qed
qed (simp add: map_filter_simps)

lemma visible_iff:
  "ss_Mode s \<noteq> ModeConsole \<Longrightarrow> policyVisible s t \<longleftrightarrow> ss_ID t = ss_ID s \<or> Role s = RoleCoordinator \<and> ss_RootID t = ss_ID s"
  by (auto simp: policyVisible_def InWorkgroupScope_def policyResource_def Role_def)

definition ownRow :: "DB \<Rightarrow> Session \<Rightarrow> Session \<Rightarrow> WorkgroupRow" where
  "ownRow d s root =
     (let grants = (if Role s = RoleCoordinator then CoordinatorRepoGrants d (ss_ID s) else ([], False))
      in (normalizedWorkgroupRow root)\<lparr>ww_Grants := fst grants, ww_Granted := snd grants,
           ww_Agents := map normalizedAgentRow
             (if Role s = RoleCoordinator then Children d (ss_ID s) else filter (\<lambda>c. ss_ID c = ss_ID s) (Children d (ss_ID root)))\<rparr>)"

definition workgroupOf :: "Session \<Rightarrow> string" where "workgroupOf s = (if IsRoot s then ss_ID s else ss_RootID s)"

lemma Children_mem: "c \<in> set (Children d rid) \<longleftrightarrow> c \<in> set (allRows d) \<and> ss_RootID c = rid"
  by (auto simp: Children_def)

lemma pureRow_other:
  assumes inv: "store_inv d" and "GetSession d [] = None" and me: "GetSession d (ss_ID s) = Some s" and "ss_Mode s \<noteq> ModeConsole"
    and root: "root \<in> set (Roots d)" and other: "ss_ID root \<noteq> workgroupOf s"
  shows "pureRow d s root = None"
proof -
  have row: "GetSession d (ss_ID root) = Some root" "IsRoot root" using root in_allRows [OF inv] by (auto simp: Roots_def IsRoot_def)
  have ids: "ss_ID root \<noteq> []" "ss_ID s \<noteq> []" using row(1) me assms(2) by auto
  have coord: "Role s = RoleCoordinator \<longrightarrow> workgroupOf s = ss_ID s"
    by (auto simp: Role_def workgroupOf_def split: if_splits)
  have "\<not> policyVisible s c" if c: "c \<in> set (Children d (ss_ID root))" for c
  proof
    assume "policyVisible s c"
    then consider "ss_ID c = ss_ID s" | "Role s = RoleCoordinator" "ss_RootID c = ss_ID s" using visible_iff [OF assms(4)] by auto
    then show False
    proof cases
      case 1
      moreover have "GetSession d (ss_ID c) = Some c" using in_allRows [OF inv] c Children_mem by blast
      ultimately have "c = s" using me by (metis option.inject)
      then have "ss_RootID s = ss_ID root" using c by (simp add: Children_mem)
      then show False using other ids(1) by (auto simp: workgroupOf_def IsRoot_def)
    next
      case 2
      then show False using c coord other by (simp add: Children_mem)
    qed
  qed
  moreover have "\<not> policyVisible s root"
  proof
    assume "policyVisible s root"
    then have "ss_ID root = ss_ID s \<or> ss_RootID root = ss_ID s" using visible_iff [OF assms(4)] by auto
    then have "ss_ID root = ss_ID s" using row(2) ids(2) by (auto simp: IsRoot_def)
    then have "root = s" using row(1) me by (metis option.inject)
    then show False using other row(2) by (simp add: workgroupOf_def)
  qed
  ultimately show ?thesis by (simp add: pureRow_def Let_def filter_empty_conv)
qed

lemma pureRow_own:
  assumes inv: "store_inv d" and me: "GetSession d (ss_ID s) = Some s" and "ss_Mode s \<noteq> ModeConsole"
    and row: "GetSession d (workgroupOf s) = Some root" and "IsRoot root"
  shows "pureRow d s root = Some (ownRow d s root)"
proof -
  have rid: "ss_ID root = workgroupOf s" using GetSession_id [OF inv row] .
  show ?thesis
  proof (cases "Role s = RoleCoordinator")
    case True
    then have "workgroupOf s = ss_ID s" by (auto simp: Role_def workgroupOf_def split: if_splits)
    then have eq: "root = s" using row me by (metis option.inject)
    have "filter (policyVisible s) (Children d (ss_ID s)) = Children d (ss_ID s)"
      using True by (auto simp: filter_id_conv visible_iff [OF assms(3)] Children_mem)
    then show ?thesis using True by (simp add: eq pureRow_def ownRow_def Let_def visible_iff [OF assms(3)])
  next
    case False
    then have vis: "policyVisible s = (\<lambda>t. ss_ID t = ss_ID s)" using visible_iff [OF assms(3)] by auto
    have "root = s \<or> s \<in> set (Children d (ss_ID root))"
      using in_allRows [OF inv, of s] me row rid by (auto simp: Children_mem workgroupOf_def split: if_splits)
    then have "policyVisible s root \<or> filter (policyVisible s) (Children d (ss_ID root)) \<noteq> []"
      by (auto simp: vis filter_empty_conv)
    then show ?thesis using False by (simp add: pureRow_def ownRow_def Let_def vis)
  qed
qed

lemma distinct_Roots: "store_inv d \<Longrightarrow> distinct (map ss_ID (Roots d))"
proof -
  assume inv: "store_inv d"
  then have "distinct (map ss_ID (allRows d))" by (simp add: ids_of_rows) (simp add: store_inv_def keysUnique_def)
  then show ?thesis by (auto simp: Roots_def distinct_map intro: inj_on_subset)
qed

lemma find_root:
  assumes "store_inv d"
  shows "find (\<lambda>r. ss_ID r = k) (Roots d) = (case GetSession d k of None \<Rightarrow> None | Some r \<Rightarrow> if IsRoot r then Some r else None)"
proof (cases "find (\<lambda>r. ss_ID r = k) (Roots d)")
  case None
  have "\<not> IsRoot r" if look: "GetSession d k = Some r" for r
  proof
    assume "IsRoot r"
    moreover have "ss_ID r = k" using GetSession_id [OF assms look] .
    ultimately have "r \<in> set (Roots d)" using in_allRows [OF assms, of r] look by (simp add: Roots_def IsRoot_def)
    then show False using None \<open>ss_ID r = k\<close> by (auto simp: find_None_iff)
  qed
  then show ?thesis using None by (simp split: option.split)
next
  case (Some r)
  then have r: "r \<in> set (Roots d)" "ss_ID r = k" by (auto simp: find_Some_iff)
  then have "r \<in> set (allRows d)" "IsRoot r" by (auto simp: Roots_def IsRoot_def)
  then have "GetSession d k = Some r" using in_allRows [OF assms] r(2) by blast
  with Some \<open>IsRoot r\<close> show ?thesis by simp
qed

lemma active_row:
  assumes "activeSubject con (storeView fault d) p = Inr r" and "p_SubjectID p \<noteq> consoleID" and "GetSession d (p_SubjectID p) = Some s"
  shows "r = s"
proof -
  have "lookupPolicySession con (storeView fault d) (p_SubjectID p) = Inr (Some r)" and live: "\<not> ss_Archived r"
    using assms(1) by (auto simp: activeSubject_def split: sum.splits option.splits if_splits)
  from this(1) assms(2) obtain row b where "GetSession d (p_SubjectID p) = Some row" "r = row\<lparr>ss_Archived := b\<rparr>" "b = fenced d row"
    by (rule lookup_Some)
  then show ?thesis using live assms(3) by (simp add: fenced_def)
qed

text \<open>
  C28. The session listing a restricted caller other than the console gets is exactly its own
  workgroup: one row, of the root the caller belongs to (itself, if it is a root), with all members
  and the grants if the caller is the coordinator and with the caller alone otherwise; no other
  workgroup, member, directory or branch appears, whatever else is in the store.
\<close>

theorem session_rows_own_workgroup:
  fixes ops :: "storeOp list" and p :: Principal
  defines "d \<equiv> foldl applyStore emptyStore ops" and "me \<equiv> p_SubjectID p"
  assumes "scopedSessionRows ctx (daemonResolver fault provider kind dir d) p = Inr rows"
    and "GetSession d me = Some s" and "GetSession d [] = None" and "me \<noteq> consoleID" and "ss_Mode s \<noteq> ModeConsole"
  shows "rows = (case GetSession d (workgroupOf s) of None \<Rightarrow> [] | Some root \<Rightarrow> if IsRoot root then [ownRow d s root] else []) \<and>
    (\<forall>w \<in> set rows. ww_Dir w = [] \<and> (\<forall>a \<in> set (ww_Agents w). aw_Dir a = [] \<and> aw_Branch a = []))"
proof -
  have inv: "store_inv d" unfolding d_def by (rule reached_inv)
  have sid: "ss_ID s = me" using GetSession_id [OF inv assms(4)] .
  obtain r where r: "activeSubject (consoleSession kind dir) (storeView fault d) p = Inr r" "scopedRowsLoop (storeView fault d) r (Roots d) = Inr rows"
    using assms(3) by (auto simp: scopedSessionRows_def withStore_def daemonResolver_def storeView_sel split: option.splits sum.splits)
  have "r = s" using active_row [OF r(1)] assms(4,6) unfolding me_def by blast
  then have rows: "rows = List.map_filter (pureRow d s) (Roots d)" using scopedRowsLoop_Inr r(2) by blast
  have own: "GetSession d (ss_ID s) = Some s" using assms(4) sid by simp
  have "rows = (case find (\<lambda>r. ss_ID r = workgroupOf s) (Roots d) of None \<Rightarrow> [] | Some x \<Rightarrow> case pureRow d s x of None \<Rightarrow> [] | Some y \<Rightarrow> [y])"
    unfolding rows using distinct_Roots [OF inv] pureRow_other [OF inv assms(5) own assms(7)] by (rule map_filter_one)
  then have eq: "rows = (case GetSession d (workgroupOf s) of None \<Rightarrow> [] | Some root \<Rightarrow> if IsRoot root then [ownRow d s root] else [])"
    using pureRow_own [OF inv own assms(7)] by (simp add: find_root [OF inv] split: option.split)
  moreover have "ww_Dir (ownRow d s root) = []" "\<forall>a \<in> set (ww_Agents (ownRow d s root)). aw_Dir a = [] \<and> aw_Branch a = []" for root
    by (auto simp: ownRow_def Let_def normalizedWorkgroupRow_def normalizedAgentRow_def)
  ultimately show ?thesis by (auto split: option.split)
qed

theorem session_rows_own_workgroup_witness:
  "\<exists>w. scopedSessionRows None (daemonResolver noFault None ''claude'' ''/c'' sampleStore) (sessionPrincipal ''m'') = Inr [w] \<and>
     ww_ID w = ''w'' \<and> map aw_ID (ww_Agents w) = [''m'']"
proof -
  have "\<exists>rows. scopedSessionRows None (daemonResolver noFault None ''claude'' ''/c'' (foldl applyStore emptyStore sampleOps)) (sessionPrincipal ''m'') = Inr rows"
    unfolding sampleStore_def [symmetric] using scopedRowsLoop_ok
    by (simp add: scopedSessionRows_def withStore_def daemonResolver_def activeSubject_def sessionPrincipal_def
        lookupPolicySession_def storeView_sel noFault_def [of "''Open''"] noFault_def [of "''GetSession''"] noFault_def [of "''Roots''"]
        sampleLookup inheritParentArchive_def sampleRoles)
  then obtain rows where run: "scopedSessionRows None (daemonResolver noFault None ''claude'' ''/c'' (foldl applyStore emptyStore sampleOps)) (sessionPrincipal ''m'') = Inr rows"
    by blast
  have "GetSession (foldl applyStore emptyStore sampleOps) (p_SubjectID (sessionPrincipal ''m'')) = Some (sampleSession ''m'' ''w'')"
    "GetSession (foldl applyStore emptyStore sampleOps) [] = None" "p_SubjectID (sessionPrincipal ''m'') \<noteq> consoleID"
    "ss_Mode (sampleSession ''m'' ''w'') \<noteq> ModeConsole"
    unfolding sampleStore_def [symmetric]
    by (simp_all add: sampleLookup sessionPrincipal_def sampleStore_eq GetSession_def sampleSession_def)
  from session_rows_own_workgroup [OF run this, unfolded sampleStore_def [symmetric]]
  have "rows = [ownRow sampleStore (sampleSession ''m'' ''w'') (sampleSession ''w'' [])]"
    by (simp add: workgroupOf_def sampleRoles sampleLookup)
  moreover have "ww_ID (ownRow sampleStore (sampleSession ''m'' ''w'') (sampleSession ''w'' [])) = ''w''"
    "map aw_ID (ww_Agents (ownRow sampleStore (sampleSession ''m'' ''w'') (sampleSession ''w'' []))) = [''m'']"
    by (simp_all add: ownRow_def Let_def normalizedWorkgroupRow_def sampleRoles Children_def allRows_def sampleStore_eq normalizedAgentRow_def)
  ultimately show ?thesis using run by (simp add: sampleStore_def)
qed

end
