(* ===== verification/Session_Operation.thy ===== *)
theory Session_Operation
  imports Session_Policy Go_Json
begin

text \<open>
  The restricted RPC vocabulary (\<^verbatim>\<open>internal/daemon/session_operation.go\<close>): validation of a request
  into the one action that will run, and the checks of \<^verbatim>\<open>session_dispatch.go\<close> that compose it with
  the policy. A validation error keeps the fixed part of its message.
\<close>

section \<open>Actions\<close>

record Action =
  ac_Action :: string
  ac_ID :: string
  ac_Target :: string
  ac_Query :: string
  ac_Fields :: Fields

definition controlActions :: "string list" where
  "controlActions = [ActionRefresh, ActionStart, ActionRestart, ActionAuthReload, ActionSteer, ActionRename, ActionMove, ActionArchive,
     ActionSetArchived, ActionDelete, ActionKill, ActionAddRepo, ActionRmRepo, ActionAgentSetRepos, ActionCoordinatorSetRepos,
     ActionAddAgent, ActionNewWorkgroup, ActionCreateWorkspace]"

definition KnownAction :: "string \<Rightarrow> bool" where
  "KnownAction action = list_ex (\<lambda>a. a = action) controlActions"

section \<open>Field checks\<close>

type_synonym check = "access_error option"

definition validateFields :: "Fields \<Rightarrow> string list \<Rightarrow> check" where
  "validateFields fs allowed = (if list_all (\<lambda>(key, v). key \<in> set allowed) fs then None else Some (ErrIO ''unknown field''))"

definition requireField :: "Fields \<Rightarrow> string \<Rightarrow> check" where
  "requireField fs key = (if map_of fs key = None then Some (ErrIO ''missing field'') else None)"

definition requireNonemptyField :: "Fields \<Rightarrow> string \<Rightarrow> check" where
  "requireNonemptyField fs key = (if TrimSpace (field fs key) = [] then Some (ErrIO ''field is required'') else None)"

definition requiredBool :: "Fields \<Rightarrow> string \<Rightarrow> check" where
  "requiredBool fs key =
     (if field fs key \<noteq> ''true'' \<and> field fs key \<noteq> ''false'' then Some (ErrIO ''field must be true or false'') else None)"

definition optionalBool :: "Fields \<Rightarrow> string \<Rightarrow> check" where
  "optionalBool fs key = (if map_of fs key = None then None else requiredBool fs key)"

fun joinValidation :: "check list \<Rightarrow> check" where
  "joinValidation [] = None"
| "joinValidation (c # cs) = (case c of Some e \<Rightarrow> Some e | None \<Rightarrow> joinValidation cs)"

definition validateCreationMode :: "Fields \<Rightarrow> check" where
  "validateCreationMode fs =
     (case map_of fs ''mode'' of
        None \<Rightarrow> None
      | Some mode \<Rightarrow> if mode = ModeTask \<or> mode = ModeInteractive then None else Some (ErrIO ''field mode must be task or interactive''))"

definition validateSessionSteer :: "Fields \<Rightarrow> check" where
  "validateSessionSteer fs =
     (let verb = field fs SteerVerb
      in if verb = SteerPrompt \<or> verb = SteerInterject then
           joinValidation [validateFields fs [SteerVerb, SteerText], requireNonemptyField fs SteerText]
         else if verb = SteerStop then validateFields fs [SteerVerb]
         else if verb = SteerPermission then
           (case joinValidation [validateFields fs [SteerVerb, SteerDecision, SteerRequestID, SteerReason, RuntimeGenerationField],
                  requireNonemptyField fs SteerRequestID, requireNonemptyField fs RuntimeGenerationField] of
              Some e \<Rightarrow> Some e
            | None \<Rightarrow>
                if field fs SteerDecision \<noteq> SteerAllow \<and> field fs SteerDecision \<noteq> SteerDeny
                then Some (ErrIO ''field decision must be allow or deny'') else None)
         else Some (ErrIO ''unknown steer verb''))"

section \<open>Cursors\<close>

definition decodeDiscoveryCursor :: "string \<Rightarrow> access_error + string" where
  "decodeDiscoveryCursor cursor =
     (if cursor = [] then Inr []
      else if length cursor > 16 * 2 ^ 10 then Inl (ErrIO ''discovery cursor too large'')
      else (case b64url_decode cursor of
          None \<Rightarrow> Inl (ErrIO ''invalid discovery cursor'')
        | Some key \<Rightarrow>
            if b64url_encode key \<noteq> cursor \<or> count_list key CHR 0x00 \<noteq> 1 then Inl (ErrIO ''invalid discovery cursor'') else Inr key))"

definition errEventQueryInvalid :: access_error where "errEventQueryInvalid = ErrIO ''invalid runtime event query''"
definition errEventCursorInvalid :: access_error where "errEventCursorInvalid = ErrIO ''invalid runtime event cursor''"
definition eventCursorEncodedLength :: nat where "eventCursorEncodedLength = 43"

text \<open>\<^verbatim>\<open>strconv.ParseInt(s, 10, 64)\<close>: an optional sign, then digits, within the signed range.\<close>

definition parse_int64 :: "string \<Rightarrow> int option" where
  "parse_int64 s =
     (let neg = (take 1 s = ''-''); ds = (if neg \<or> take 1 s = ''+'' then drop 1 s else s)
      in case parse_uint 64 ds of
           None \<Rightarrow> None
         | Some n \<Rightarrow> if neg then (if n \<le> 2 ^ 63 then Some (- int n) else None) else if n < 2 ^ 63 then Some (int n) else None)"

definition parseSessionEventFields :: "Fields \<Rightarrow> access_error + string \<times> int" where
  "parseSessionEventFields fs =
     (if \<not> list_all (\<lambda>(key, v). key = ''cursor'' \<or> key = ''after_sequence'') fs then Inl errEventQueryInvalid
      else (case (map_of fs ''cursor'', map_of fs ''after_sequence'') of
          (Some _, Some _) \<Rightarrow> Inl errEventQueryInvalid
        | (Some cursorText, None) \<Rightarrow>
            if cursorText = [] \<or> TrimSpace cursorText \<noteq> cursorText \<or> length cursorText \<noteq> eventCursorEncodedLength
            then Inl errEventCursorInvalid
            else (case b64url_decode cursorText of
                None \<Rightarrow> Inl errEventCursorInvalid
              | Some decoded \<Rightarrow>
                  if length decoded \<noteq> 32 \<or> b64url_encode decoded \<noteq> cursorText then Inl errEventCursorInvalid
                  else Inr (cursorText, 0))
        | (None, None) \<Rightarrow> Inr ([], 0)
        | (None, Some afterText) \<Rightarrow>
            if afterText = [] \<or> TrimSpace afterText \<noteq> afterText then Inl errEventQueryInvalid
            else (case parse_int64 afterText of
                None \<Rightarrow> Inl errEventQueryInvalid
              | Some after \<Rightarrow> if after < 0 then Inl errEventQueryInvalid else Inr ([], after))))"

section \<open>Requests\<close>

definition validateSessionQuery :: "Request \<Rightarrow> check" where
  "validateSessionQuery req =
     (let verb = rq_Verb req; fs = rq_Fields req
      in if rq_Target req \<noteq> [] then Some (ErrIO ''query has unsupported target'')
         else if verb \<in> set [QueryVersion, QueryCodexControl, QueryRepos, QuerySessions, QuerySnapshot] then
           (if rq_ID req \<noteq> [] \<or> length fs \<noteq> 0 then Some (ErrIO ''query does not accept an id'') else None)
         else if verb = QueryAgentSessions then
           (if rq_ID req \<noteq> [] \<or> validateFields fs [''cursor''] \<noteq> None then Some (ErrIO ''agent discovery accepts only a continuation cursor'')
            else (case decodeDiscoveryCursor (field fs ''cursor'') of Inl e \<Rightarrow> Some e | Inr _ \<Rightarrow> None))
         else if verb = QueryRuntimeEvents then
           (if TrimSpace (rq_ID req) = [] then Some (ErrIO ''query requires an id'')
            else if validateFields fs [''cursor'', ''after_sequence''] \<noteq> None then Some errEventQueryInvalid
            else (case parseSessionEventFields fs of Inl e \<Rightarrow> Some e | Inr _ \<Rightarrow> None))
         else if verb = QueryRuntimePath \<or> verb = QueryRuntimeRecord then
           (if TrimSpace (rq_ID req) = [] \<or> length fs \<noteq> 0 then Some (ErrIO ''query requires an id'') else None)
         else Some (ErrIO ''unknown session RPC query''))"

definition noTarget :: "Request \<Rightarrow> check" where
  "noTarget req = (if rq_Target req \<noteq> [] then Some (ErrIO ''action does not accept target'') else None)"

definition requireID :: "Request \<Rightarrow> check" where
  "requireID req = (if TrimSpace (rq_ID req) = [] then Some (ErrIO ''action requires an id'') else None)"

definition noID :: "Request \<Rightarrow> check" where
  "noID req = (if rq_ID req \<noteq> [] then Some (ErrIO ''action does not accept an id'') else None)"

definition validateSetArchived :: "Request \<Rightarrow> check" where
  "validateSetArchived req =
     (let fs = rq_Fields req
      in case joinValidation [requireID req, noTarget req, validateFields fs [''archived'', ''force''], requireField fs ''archived'',
                optionalBool fs ''force''] of
           Some e \<Rightarrow> Some e
         | None \<Rightarrow>
             (case requiredBool fs ''archived'' of
                Some e \<Rightarrow> Some e
              | None \<Rightarrow> if field fs ''archived'' \<noteq> ''true'' then Some (ErrIO ''restoring an archived session requires authenticated host regrant'') else None))"

definition validateCreateWorkspace :: "Request \<Rightarrow> check" where
  "validateCreateWorkspace req =
     (let fs = rq_Fields req
      in case joinValidation [noID req, noTarget req, validateFields fs [''name'', ''prompt'', ''mode'', ''model'', ''agent'', ''repos'', ''defaultAgent'',
                ''coordinator'', ''coordinator_model''], validateCreationMode fs] of
           Some e \<Rightarrow> Some e
         | None \<Rightarrow>
             (case map_of fs ''defaultAgent'' of
                Some value \<Rightarrow> if value \<noteq> ''1'' then Some (ErrIO ''field defaultAgent must be 1'') else None
              | None \<Rightarrow> None))"

definition validateSessionAction :: "Request \<Rightarrow> check" where
  "validateSessionAction req =
     (let verb = rq_Verb req; fs = rq_Fields req
      in if \<not> KnownAction verb then Some (ErrIO ''unknown session RPC action'')
         else if verb = ActionRefresh then joinValidation [noID req, noTarget req, validateFields fs []]
         else if verb = ActionStart then joinValidation [requireID req, noTarget req, validateFields fs []]
         else if verb = ActionRestart then Some (ErrIO ''restarting a session requires the authenticated host'')
         else if verb = ActionAuthReload then
           (case joinValidation [noID req, noTarget req, validateFields fs [''force'']] of
              Some e \<Rightarrow> Some e | None \<Rightarrow> optionalBool fs ''force'')
         else if verb = ActionSteer then
           (case joinValidation [requireID req, noTarget req] of Some e \<Rightarrow> Some e | None \<Rightarrow> validateSessionSteer fs)
         else if verb = ActionRename then
           joinValidation [requireID req, noTarget req, validateFields fs [''name''], requireField fs ''name'']
         else if verb = ActionMove then joinValidation [requireID req, validateFields fs []]
         else if verb = ActionDelete \<or> verb = ActionKill then
           joinValidation [requireID req, noTarget req, validateFields fs [''force''], optionalBool fs ''force'']
         else if verb = ActionRmRepo then joinValidation [requireID req, noTarget req, validateFields fs []]
         else if verb = ActionArchive then Some (ErrIO ''toggle archive is host-only'')
         else if verb = ActionSetArchived then validateSetArchived req
         else if verb = ActionAgentSetRepos then
           joinValidation [requireID req, noTarget req, validateFields fs [''repos''], requireField fs ''repos'']
         else if verb = ActionCoordinatorSetRepos then Some (ErrIO ''coordinator grant changes require the authenticated host'')
         else if verb = ActionAddRepo then
           joinValidation [noID req, noTarget req, validateFields fs [''source''], requireNonemptyField fs ''source'']
         else if verb = ActionAddAgent then
           joinValidation [requireID req, noTarget req, validateFields fs [''agent'', ''prompt'', ''mode'', ''model'', ''repos''],
             validateCreationMode fs]
         else if verb = ''new-repo-agent'' then Some (ErrIO ''new-repo-agent was removed'')
         else if verb = ActionNewWorkgroup then
           joinValidation [noID req, noTarget req, validateFields fs [''name'', ''prompt'', ''mode'', ''model'', ''agent'', ''repos'', ''linear'',
             ''coordinator'', ''coordinator_model''], validateCreationMode fs]
         else if verb = ActionCreateWorkspace then validateCreateWorkspace req
         else Some (ErrIO ''unknown session RPC action''))"

definition canonicalSessionOperation :: "Request \<Rightarrow> access_error + Action" where
  "canonicalSessionOperation req =
     (if rq_Tab req \<noteq> 0 then Inl (ErrIO ''session RPC does not support streaming tabs'')
      else if rq_Route req = RouteQuery then
        (case validateSessionQuery req of
           Some e \<Rightarrow> Inl e
         | None \<Rightarrow> Inr \<lparr>ac_Action = ActionQuery, ac_ID = rq_ID req, ac_Target = [], ac_Query = rq_Verb req, ac_Fields = rq_Fields req\<rparr>)
      else if rq_Route req = RouteAction then
        (case validateSessionAction req of
           Some e \<Rightarrow> Inl e
         | None \<Rightarrow> Inr \<lparr>ac_Action = rq_Verb req, ac_ID = rq_ID req, ac_Target = rq_Target req, ac_Query = [], ac_Fields = rq_Fields req\<rparr>)
      else Inl (ErrIO ''unknown session RPC route''))"

section \<open>Admission\<close>

text \<open>The last step of \<^verbatim>\<open>sessionRuntime.authorize\<close>, for an operation that is no report or credential call.\<close>

definition authorizeOperation :: "Resolver option \<Rightarrow> Principal \<Rightarrow> Request \<Rightarrow> access_error option" where
  "authorizeOperation resolver pr req =
     (case canonicalSessionOperation req of Inl e \<Rightarrow> Some e | Inr _ \<Rightarrow> Authorize resolver pr req)"

definition finalAuthorize :: "access_error option \<Rightarrow> Resolver option \<Rightarrow> Principal \<Rightarrow> Request \<Rightarrow> access_error option" where
  "finalAuthorize valid resolver pr req = (case valid of Some e \<Rightarrow> Some e | None \<Rightarrow> Authorize resolver pr req)"

datatype admission = Admitted | Denied string | Failed string

text \<open>\<open>ctxEnded\<close>: the callback deadline expired while the dispatch waited for its admission.\<close>

definition admissionCheck :: "access_error option \<Rightarrow> bool \<Rightarrow> Resolver option \<Rightarrow> Principal \<Rightarrow> Request \<Rightarrow> admission" where
  "admissionCheck valid ctxEnded resolver pr req =
     (if valid \<noteq> None then Denied ''credential_invalid''
      else (case Authorize resolver pr req of
          None \<Rightarrow> Admitted
        | Some e \<Rightarrow>
            if ctxEnded then Failed ''deadline_exceeded''
            else (case e of ErrRepoNotGranted repo wg \<Rightarrow> Denied ''repo_not_granted'' | _ \<Rightarrow> Denied ''access_denied'')))"

definition selfCompletionShape :: "Principal \<Rightarrow> Action \<Rightarrow> bool" where
  "selfCompletionShape pr action \<longleftrightarrow> p_Kind pr = SubjectSession \<and> p_SubjectID pr = ac_ID action \<and>
     ac_Action action = ActionSetArchived \<and> field (ac_Fields action) ''archived'' = ''true''"

section \<open>What no session may do\<close>

lemma canonical_Inr:
  assumes "canonicalSessionOperation req = Inr a"
  shows "rq_Route req = RouteQuery \<and> validateSessionQuery req = None \<and> ac_Action a = ActionQuery \<and> ac_Query a = rq_Verb req \<and> ac_ID a = rq_ID req \<and> ac_Fields a = rq_Fields req \<or>
    rq_Route req = RouteAction \<and> validateSessionAction req = None \<and> ac_Action a = rq_Verb req \<and> ac_ID a = rq_ID req \<and> ac_Fields a = rq_Fields req"
  using assms by (auto simp: canonicalSessionOperation_def split: if_splits option.splits)

lemma archive_validated:
  "validateSessionAction req = None \<Longrightarrow> rq_Verb req = ActionSetArchived \<Longrightarrow> field (rq_Fields req) ''archived'' = ''true''"
  by (auto simp: validateSessionAction_def KnownAction_def controlActions_def validateSetArchived_def Let_def split: if_splits option.splits)

lemma steer_validated:
  "validateSessionAction req = None \<Longrightarrow> rq_Verb req = ActionSteer \<Longrightarrow> field (rq_Fields req) SteerVerb = SteerPermission \<Longrightarrow>
   field (rq_Fields req) SteerDecision \<in> {SteerAllow, SteerDeny}"
  by (auto simp: validateSessionAction_def KnownAction_def controlActions_def validateSessionSteer_def Let_def split: if_splits option.splits)

lemma permitted_query: "permitted R s req \<Longrightarrow> rq_Route req = RouteQuery \<Longrightarrow> rq_Verb req \<in> set openQueries \<union> {QueryRuntimeEvents}"
  by (auto simp: permitted_def mayAct_def)

lemma permitted_action:
  "permitted R s req \<Longrightarrow> rq_Route req = RouteAction \<Longrightarrow>
   rq_Verb req \<in> set consoleActions \<union> {ActionStart, ActionRename, ActionSteer, ActionSetArchived, ActionAddAgent}"
  by (auto simp: permitted_def mayAct_def consoleActions_def)

lemma permitted_answer:
  assumes "permitted R s req" and "rq_Route req = RouteAction" and "rq_Verb req = ActionSteer" and "field (rq_Fields req) SteerVerb = SteerPermission"
  shows "rq_ID req \<noteq> rs_ID s \<and> TrimSpace (field (rq_Fields req) SteerRequestID) \<noteq> [] \<and> TrimSpace (field (rq_Fields req) RuntimeGenerationField) \<noteq> []"
proof -
  obtain t where "targetOf R s req = Some t" "maySteer s t (rq_Fields req)"
    using assms by (auto simp: permitted_def mayAct_def consoleActions_def)
  then show ?thesis using assms(4) by (auto simp: maySteer_def targetOf_def split: if_splits)
qed

text \<open>
  C29. Whatever its role, the console included, a session that passes validation and policy runs one
  of a fixed set of operations with exactly the fields it sent. It never restores an archived session
  or toggles an archive, never restarts a session, changes a coordinator's grants, reloads or manages
  credentials, and never reads host paths or raw records; and it answers a permission prompt only for
  another session, with a decision, the request it answers and the runtime generation.
\<close>

theorem session_operations_bounded:
  fixes ops :: "storeOp list"
  defines "d \<equiv> foldl applyStore emptyStore ops"
  assumes "p_Kind p = SubjectSession" and "canonicalSessionOperation req = Inr a"
    and "authorizeOperation (Some (resolverOf ctx (daemonResolver fault provider kind dir d))) p req = None"
  shows "ac_ID a = rq_ID req \<and> ac_Fields a = rq_Fields req \<and>
    (ac_Action a = ActionQuery \<and> ac_Query a \<in> set openQueries \<union> {QueryRuntimeEvents} \<or>
     ac_Action a \<in> set consoleActions \<union> {ActionStart, ActionRename, ActionSteer, ActionSetArchived, ActionAddAgent} \<and>
       (ac_Action a = ActionSetArchived \<longrightarrow> field (ac_Fields a) ''archived'' = ''true'') \<and>
       (ac_Action a = ActionSteer \<and> field (ac_Fields a) SteerVerb = SteerPermission \<longrightarrow>
          ac_ID a \<noteq> p_SubjectID p \<and> field (ac_Fields a) SteerDecision \<in> {SteerAllow, SteerDeny} \<and>
          TrimSpace (field (ac_Fields a) SteerRequestID) \<noteq> [] \<and> TrimSpace (field (ac_Fields a) RuntimeGenerationField) \<noteq> []))"
proof -
  let ?R = "resolverOf ctx (daemonResolver fault provider kind dir d)"
  have "Authorize (Some ?R) p req = None" using assms(3,4) by (simp add: authorizeOperation_def)
  then obtain s where s: "rv_Lookup ?R (p_SubjectID p) = Inr (Some s)" "permitted ?R s req" using Authorize_spec [OF assms(2)] by blast
  have sid: "rs_ID s = p_SubjectID p" using s(1) unfolding d_def by (rule daemon.lookup_id)
  show ?thesis
  proof (cases "rq_Route req = RouteQuery")
    case True
    then show ?thesis using canonical_Inr [OF assms(3)] permitted_query [OF s(2)] by simp
  next
    case False
    then have act: "rq_Route req = RouteAction" "validateSessionAction req = None" "ac_Action a = rq_Verb req" "ac_ID a = rq_ID req" "ac_Fields a = rq_Fields req"
      using canonical_Inr [OF assms(3)] by auto
    then show ?thesis
      using permitted_action [OF s(2) act(1)] archive_validated [OF act(2)] steer_validated [OF act(2)] permitted_answer [OF s(2) act(1)] sid by simp
  qed
qed

definition archiveRequest :: Request where
  "archiveRequest = \<lparr>rq_Route = RouteAction, rq_Verb = ActionSetArchived, rq_ID = ''m'', rq_Target = [], rq_Tab = 0, rq_Fields = [(''archived'', ''true'')]\<rparr>"

lemma sampleArchive_canonical: "canonicalSessionOperation archiveRequest =
    Inr \<lparr>ac_Action = ActionSetArchived, ac_ID = ''m'', ac_Target = [], ac_Query = [], ac_Fields = [(''archived'', ''true'')]\<rparr>"
  by (simp add: canonicalSessionOperation_def archiveRequest_def validateSessionAction_def KnownAction_def controlActions_def
      validateSetArchived_def requireID_def noTarget_def validateFields_def requireField_def optionalBool_def requiredBool_def sampleNames Let_def)

lemma sampleArchive_allowed:
  "Authorize (Some (resolverOf None (daemonResolver noFault None ''claude'' ''/c'' sampleStore))) (sessionPrincipal ''w'') archiveRequest = None"
  by (simp add: Authorize_def sessionPrincipal_def SubjectHost_def SubjectProvider_def SubjectSession_def archiveRequest_def RuleFor_archive
      resolverOf_def Lookup_def withStore_def daemonResolver_def noFault_def lookupPolicySession_def storeView_sel sampleLookup
      inheritParentArchive_def sampleRoles policyResource_def knownRole_def authorizeScope_def sampleNames authorizeTarget_def narrowed_def
      InWorkgroupScope_def Let_def allowArchive_def)

theorem session_operations_bounded_witness:
  "\<exists>a. canonicalSessionOperation archiveRequest = Inr a \<and>
     authorizeOperation (Some (resolverOf None (daemonResolver noFault None ''claude'' ''/c'' sampleStore))) (sessionPrincipal ''w'') archiveRequest = None \<and>
     field (ac_Fields a) ''archived'' = ''true''"
proof -
  have allowed: "authorizeOperation (Some (resolverOf None (daemonResolver noFault None ''claude'' ''/c'' sampleStore))) (sessionPrincipal ''w'') archiveRequest = None"
    by (simp add: authorizeOperation_def sampleArchive_canonical sampleArchive_allowed)
  have "p_Kind (sessionPrincipal ''w'') = SubjectSession" by (simp add: sessionPrincipal_def)
  from session_operations_bounded [OF this sampleArchive_canonical allowed [unfolded sampleStore_def]]
  have "field [(''archived'', ''true'')] ''archived'' = ''true''" by (simp add: archiveRequest_def)
  with allowed sampleArchive_canonical show ?thesis by simp
qed

end
