(* ===== verification/Keyed_Locks.thy ===== *)
theory Keyed_Locks
  imports Amux_Prelude
begin

text \<open>
  The table of per-session locks (\<^verbatim>\<open>keyedLocks\<close> of
  \<^verbatim>\<open>internal/daemon/session_locks.go\<close>), with any number of callers interleaved.

  A \<^verbatim>\<open>*keyedLock\<close> is an index into \<open>ls_heap\<close>, the list of every lock ever allocated, so that
  a caller that keeps a pointer after the table dropped the key is told apart from one that holds
  the lock the table knows. Each block of \<^verbatim>\<open>lock\<close>, \<^verbatim>\<open>tryLock\<close> and their releases that
  runs under \<^verbatim>\<open>l.mu\<close> is one function and one step; taking and releasing the mutex of one
  key are steps of their own, so that callers interleave between them. The slices
  \<^verbatim>\<open>held\<close> and \<^verbatim>\<open>names\<close>, which \<^verbatim>\<open>lock\<close> fills in parallel, are one list of pairs.

  Shown here: the invariant that ties reference counts, the table and the holders together; that
  the table refines the obvious specification (a caller gets all its keys when nobody has any of
  them); and that the ascending order leaves no deadlock, with every run that starts no new call
  ending with all callers outside and an empty table.
\<close>

section \<open>The table\<close>

record keyedLock =
  kl_locked :: bool
  kl_refs :: int

record keyedLocks =
  ls_locks :: "(string, nat) gomap"
  ls_heap :: "keyedLock list"

definition newKeyedLock :: keyedLock where
  "newKeyedLock = \<lparr>kl_locked = False, kl_refs = 0\<rparr>"

definition noLocks :: keyedLocks where
  "noLocks = \<lparr>ls_locks = [], ls_heap = []\<rparr>"

definition setEntry :: "nat \<Rightarrow> (keyedLock \<Rightarrow> keyedLock) \<Rightarrow> keyedLocks \<Rightarrow> keyedLocks" where
  "setEntry e f l = l\<lparr>ls_heap := (ls_heap l)[e := f (ls_heap l ! e)]\<rparr>"

text \<open>Looking a key up, allocating its lock on first use, and counting the caller.\<close>

definition refEntry :: "keyedLocks \<Rightarrow> string \<Rightarrow> keyedLocks \<times> nat" where
  "refEntry l key = (
     let (l, entry) = (case map_of (ls_locks l) key of
         Some e \<Rightarrow> (l, e)
       | None \<Rightarrow> (l\<lparr>ls_locks := mput key (length (ls_heap l)) (ls_locks l),
                   ls_heap := ls_heap l @ [newKeyedLock]\<rparr>, length (ls_heap l)))
     in (setEntry entry (kl_refs_update (\<lambda>n. n + 1)) l, entry))"

fun refKeys :: "keyedLocks \<Rightarrow> string option \<Rightarrow> string list \<Rightarrow> (string \<times> nat) list
    \<Rightarrow> keyedLocks \<times> (string \<times> nat) list" where
  "refKeys l prev [] held = (l, held)"
| "refKeys l prev (key # keys) held =
     (if prev = Some key then refKeys l (Some key) keys held
      else let (l, entry) = refEntry l key
           in refKeys l (Some key) keys (held @ [(key, entry)]))"

definition lockRefs :: "keyedLocks \<Rightarrow> string list \<Rightarrow> keyedLocks \<times> (string \<times> nat) list" where
  "lockRefs l keys = refKeys l None (sort keys) []"

definition entryLocked :: "keyedLocks \<Rightarrow> nat \<Rightarrow> bool" where
  "entryLocked l e = kl_locked (ls_heap l ! e)"

definition lockEntry :: "nat \<Rightarrow> keyedLocks \<Rightarrow> keyedLocks" where
  "lockEntry e = setEntry e (kl_locked_update (\<lambda>_. True))"

definition unlockEntry :: "nat \<Rightarrow> keyedLocks \<Rightarrow> keyedLocks" where
  "unlockEntry e = setEntry e (kl_locked_update (\<lambda>_. False))"

definition dropEntry :: "string \<times> nat \<Rightarrow> keyedLocks \<Rightarrow> keyedLocks" where
  "dropEntry h l = (
     let l = setEntry (snd h) (kl_refs_update (\<lambda>n. n - 1)) l
     in if kl_refs (ls_heap l ! snd h) = 0 then l\<lparr>ls_locks := mdel (fst h) (ls_locks l)\<rparr> else l)"

definition dropRefs :: "(string \<times> nat) list \<Rightarrow> keyedLocks \<Rightarrow> keyedLocks" where
  "dropRefs held l = fold dropEntry held l"

section \<open>Interleaved callers\<close>

text \<open>
  Where one caller is: \<open>Acquiring held i\<close> has counted itself on every key and taken the first \<open>i\<close>;
  \<open>Inside\<close> has been given its release function; \<open>Unlocking held i\<close> still has the first \<open>i\<close> to
  unlock; \<open>Trying\<close> is \<^verbatim>\<open>tryLock\<close> between counting itself and \<^verbatim>\<open>TryLock\<close>.
\<close>

datatype place =
    Outside
  | Acquiring "(string \<times> nat) list" nat
  | Inside "(string \<times> nat) list"
  | Unlocking "(string \<times> nat) list" nat
  | Trying "string \<times> nat"

record lockSystem =
  sy_table :: keyedLocks
  sy_place :: "nat \<Rightarrow> place"

definition startLocks :: lockSystem where
  "startLocks = \<lparr>sy_table = noLocks, sy_place = (\<lambda>_. Outside)\<rparr>"

definition goTo :: "nat \<Rightarrow> place \<Rightarrow> keyedLocks \<Rightarrow> lockSystem \<Rightarrow> lockSystem" where
  "goTo t p l s = \<lparr>sy_table = l, sy_place = (sy_place s)(t := p)\<rparr>"

text \<open>A caller that is outside may call \<^verbatim>\<open>lock\<close> or \<^verbatim>\<open>tryLock\<close>.\<close>

inductive arrive :: "lockSystem \<Rightarrow> lockSystem \<Rightarrow> bool" where
  callLock: "sy_place s t = Outside \<Longrightarrow> lockRefs (sy_table s) keys = (l, held)
    \<Longrightarrow> arrive s (goTo t (Acquiring held 0) l s)"
| callTryLock: "sy_place s t = Outside \<Longrightarrow> refEntry (sy_table s) key = (l, e)
    \<Longrightarrow> arrive s (goTo t (Trying (key, e)) l s)"

text \<open>A caller that is under way goes on. Taking a mutex waits until it is free.\<close>

inductive advance :: "lockSystem \<Rightarrow> lockSystem \<Rightarrow> bool" where
  takeKey: "sy_place s t = Acquiring held i \<Longrightarrow> i < length held
    \<Longrightarrow> \<not> entryLocked (sy_table s) (snd (held ! i))
    \<Longrightarrow> advance s (goTo t (Acquiring held (Suc i)) (lockEntry (snd (held ! i)) (sy_table s)) s)"
| enter: "sy_place s t = Acquiring held (length held)
    \<Longrightarrow> advance s (goTo t (Inside held) (sy_table s) s)"
| release: "sy_place s t = Inside held
    \<Longrightarrow> advance s (goTo t (Unlocking held (length held)) (sy_table s) s)"
| unlockKey: "sy_place s t = Unlocking held (Suc i)
    \<Longrightarrow> advance s (goTo t (Unlocking held i) (unlockEntry (snd (held ! i)) (sy_table s)) s)"
| leave: "sy_place s t = Unlocking held 0
    \<Longrightarrow> advance s (goTo t Outside (dropRefs held (sy_table s)) s)"
| tryTakes: "sy_place s t = Trying h \<Longrightarrow> \<not> entryLocked (sy_table s) (snd h)
    \<Longrightarrow> advance s (goTo t (Inside [h]) (lockEntry (snd h) (sy_table s)) s)"
| tryFails: "sy_place s t = Trying h \<Longrightarrow> entryLocked (sy_table s) (snd h)
    \<Longrightarrow> advance s (goTo t (Unlocking [h] 0) (sy_table s) s)"

inductive lockReach :: "lockSystem \<Rightarrow> bool" where
  start: "lockReach startLocks"
| arrives: "lockReach s \<Longrightarrow> arrive s s' \<Longrightarrow> lockReach s'"
| advances: "lockReach s \<Longrightarrow> advance s s' \<Longrightarrow> lockReach s'"

section \<open>What the table holds for a key\<close>

definition keyRefs :: "keyedLocks \<Rightarrow> string \<Rightarrow> int" where
  "keyRefs l k = (case map_of (ls_locks l) k of None \<Rightarrow> 0 | Some e \<Rightarrow> kl_refs (ls_heap l ! e))"

definition keyLocked :: "keyedLocks \<Rightarrow> string \<Rightarrow> bool" where
  "keyLocked l k = (case map_of (ls_locks l) k of None \<Rightarrow> False | Some e \<Rightarrow> kl_locked (ls_heap l ! e))"

definition table_wf :: "keyedLocks \<Rightarrow> bool" where
  "table_wf l \<longleftrightarrow> (\<forall>k e. map_of (ls_locks l) k = Some e \<longrightarrow> e < length (ls_heap l) \<and> kl_refs (ls_heap l ! e) > 0)
     \<and> (\<forall>k k' e. map_of (ls_locks l) k = Some e \<longrightarrow> map_of (ls_locks l) k' = Some e \<longrightarrow> k = k')"

lemma table_wfI:
  assumes "\<And>k e. map_of (ls_locks l) k = Some e \<Longrightarrow> e < length (ls_heap l) \<and> kl_refs (ls_heap l ! e) > 0"
    and "\<And>k k' e. map_of (ls_locks l) k = Some e \<Longrightarrow> map_of (ls_locks l) k' = Some e \<Longrightarrow> k = k'"
  shows "table_wf l"
  using assms unfolding table_wf_def by blast

lemma table_wfD:
  assumes "table_wf l" "map_of (ls_locks l) k = Some e"
  shows "e < length (ls_heap l)" "kl_refs (ls_heap l ! e) > 0"
    "\<And>k'. map_of (ls_locks l) k' = Some e \<Longrightarrow> k' = k"
  using assms unfolding table_wf_def by blast+

lemma table_wf_noLocks: "table_wf noLocks"
  by (simp add: table_wf_def noLocks_def)

lemma setEntry_locks [simp]: "ls_locks (setEntry e f l) = ls_locks l"
  by (simp add: setEntry_def)

lemma setEntry_length [simp]: "length (ls_heap (setEntry e f l)) = length (ls_heap l)"
  by (simp add: setEntry_def)

lemma setEntry_nth:
  "e < length (ls_heap l) \<Longrightarrow>
     ls_heap (setEntry e f l) ! i = (if i = e then f (ls_heap l ! e) else ls_heap l ! i)"
  by (simp add: setEntry_def)

lemma keyRefs_nonneg: "table_wf l \<Longrightarrow> 0 \<le> keyRefs l k"
  unfolding table_wf_def keyRefs_def by (fastforce split: option.splits)

lemma in_table_iff: "table_wf l \<Longrightarrow> keyRefs l k > 0 \<longleftrightarrow> map_of (ls_locks l) k \<noteq> None"
  unfolding table_wf_def keyRefs_def by (auto split: option.splits)

lemma setEntry_lock_spec:
  assumes wf: "table_wf l" and k: "map_of (ls_locks l) k = Some e"
  shows "table_wf (setEntry e (kl_locked_update (\<lambda>_. b)) l)"
    and "keyRefs (setEntry e (kl_locked_update (\<lambda>_. b)) l) = keyRefs l"
    and "keyLocked (setEntry e (kl_locked_update (\<lambda>_. b)) l) = (keyLocked l)(k := b)"
proof -
  from wf k have e: "e < length (ls_heap l)" by (simp add: table_wf_def)
  show "table_wf (setEntry e (kl_locked_update (\<lambda>_. b)) l)"
    using wf e by (auto simp: table_wf_def setEntry_nth)
  show "keyRefs (setEntry e (kl_locked_update (\<lambda>_. b)) l) = keyRefs l"
    using e by (auto simp: keyRefs_def setEntry_nth split: option.splits)
  show "keyLocked (setEntry e (kl_locked_update (\<lambda>_. b)) l) = (keyLocked l)(k := b)"
  proof
    fix k'
    show "keyLocked (setEntry e (kl_locked_update (\<lambda>_. b)) l) k' = ((keyLocked l)(k := b)) k'"
      using wf k e unfolding table_wf_def
      by (cases "map_of (ls_locks l) k'") (auto simp: keyLocked_def setEntry_nth)
  qed
qed

lemma refEntry_known:
  assumes wf: "table_wf l" and k: "map_of (ls_locks l) k = Some e"
  shows "table_wf (setEntry e (kl_refs_update (\<lambda>n. n + 1)) l)"
    and "keyRefs (setEntry e (kl_refs_update (\<lambda>n. n + 1)) l) = (keyRefs l)(k := keyRefs l k + 1)"
    and "keyLocked (setEntry e (kl_refs_update (\<lambda>n. n + 1)) l) = keyLocked l"
proof -
  from wf k have e: "e < length (ls_heap l)" by (simp add: table_wf_def)
  show "table_wf (setEntry e (kl_refs_update (\<lambda>n. n + 1)) l)"
    by (rule table_wfI) (auto simp: setEntry_nth e dest: table_wfD [OF wf])
  show "keyRefs (setEntry e (kl_refs_update (\<lambda>n. n + 1)) l) = (keyRefs l)(k := keyRefs l k + 1)"
  proof
    fix k'
    show "keyRefs (setEntry e (kl_refs_update (\<lambda>n. n + 1)) l) k' = ((keyRefs l)(k := keyRefs l k + 1)) k'"
      using wf k e unfolding table_wf_def
      by (cases "map_of (ls_locks l) k'") (auto simp: keyRefs_def setEntry_nth)
  qed
  show "keyLocked (setEntry e (kl_refs_update (\<lambda>n. n + 1)) l) = keyLocked l"
    using e by (auto simp: fun_eq_iff keyLocked_def setEntry_nth split: option.splits)
qed

lemma refEntry_fresh:
  assumes wf: "table_wf l" and k: "map_of (ls_locks l) k = None"
    and l': "l' = \<lparr>ls_locks = mput k (length (ls_heap l)) (ls_locks l),
                 ls_heap = ls_heap l @ [\<lparr>kl_locked = False, kl_refs = 1\<rparr>]\<rparr>"
  shows "table_wf l'" and "keyRefs l' = (keyRefs l)(k := keyRefs l k + 1)"
    and "keyLocked l' = keyLocked l"
proof -
  have old: "e < length (ls_heap l)" if "map_of (ls_locks l) k' = Some e" for k' e
    using wf that by (simp add: table_wf_def)
  show "table_wf l'"
    by (rule table_wfI)
      (use old in \<open>auto simp: l' nth_append dest: table_wfD [OF wf] split: if_splits\<close>)
  show "keyRefs l' = (keyRefs l)(k := keyRefs l k + 1)"
    using k old unfolding l' by (auto simp: fun_eq_iff keyRefs_def nth_append split: option.splits)
  show "keyLocked l' = keyLocked l"
    using k old unfolding l' by (auto simp: fun_eq_iff keyLocked_def nth_append split: option.splits)
qed

lemma refEntry_spec:
  assumes wf: "table_wf l" and r: "refEntry l k = (l', e)"
  shows "table_wf l' \<and> keyRefs l' = (keyRefs l)(k := keyRefs l k + 1) \<and> keyLocked l' = keyLocked l
    \<and> map_of (ls_locks l') k = Some e \<and> map_of (ls_locks l) \<subseteq>\<^sub>m map_of (ls_locks l')"
proof (cases "map_of (ls_locks l) k")
  case None
  let ?l = "\<lparr>ls_locks = mput k (length (ls_heap l)) (ls_locks l),
               ls_heap = ls_heap l @ [\<lparr>kl_locked = False, kl_refs = 1\<rparr>]\<rparr>"
  from r None have l': "l' = ?l" and e: "e = length (ls_heap l)"
    by (auto simp: refEntry_def setEntry_def newKeyedLock_def)
  from None e show ?thesis
    using refEntry_fresh [OF wf None l'] by (simp add: l' map_le_def dom_def)
next
  case (Some d)
  with r have l': "l' = setEntry e (kl_refs_update (\<lambda>n. n + 1)) l" and e: "e = d"
    by (auto simp: refEntry_def)
  from Some e show ?thesis
    using refEntry_known [OF wf Some] by (simp add: l')
qed

text \<open>Dropping a reference that is counted, on a key that nobody has locked if it is the last.\<close>

lemma dropEntry_spec:
  assumes wf: "table_wf l" and k: "map_of (ls_locks l) k = Some e"
    and free: "keyRefs l k = 1 \<Longrightarrow> \<not> keyLocked l k"
  defines "l' \<equiv> dropEntry (k, e) l"
  shows "table_wf l' \<and> keyRefs l' = (keyRefs l)(k := keyRefs l k - 1) \<and> keyLocked l' = keyLocked l
    \<and> map_of (ls_locks l') = (if keyRefs l k = 1 then (map_of (ls_locks l))(k := None) else map_of (ls_locks l))"
proof -
  from wf k have e: "e < length (ls_heap l)" and pos: "kl_refs (ls_heap l ! e) > 0"
    and inj: "\<And>k'. map_of (ls_locks l) k' = Some e \<Longrightarrow> k' = k"
    by (auto simp: table_wf_def)
  have refs: "keyRefs l k = kl_refs (ls_heap l ! e)" using k by (simp add: keyRefs_def)
  have map: "map_of (ls_locks l') = (if keyRefs l k = 1 then (map_of (ls_locks l))(k := None) else map_of (ls_locks l))"
    using e by (auto simp: l'_def dropEntry_def Let_def setEntry_nth refs)
  have heap: "ls_heap l' ! d = (if d = e then (ls_heap l ! e)\<lparr>kl_refs := kl_refs (ls_heap l ! e) - 1\<rparr> else ls_heap l ! d)"
    and len: "length (ls_heap l') = length (ls_heap l)" for d
    using e by (auto simp: l'_def dropEntry_def Let_def setEntry_nth)
  have sub: "map_of (ls_locks l) k' = Some d" if "map_of (ls_locks l') k' = Some d" for k' d
    using that by (simp add: map split: if_splits)
  have one: "kl_refs (ls_heap l ! e) \<noteq> 1" if "map_of (ls_locks l') k = Some e"
    using that by (auto simp: map refs)
  have "table_wf l'"
  proof (rule table_wfI)
    fix k' d assume in': "map_of (ls_locks l') k' = Some d"
    note old = table_wfD [OF wf sub [OF in']]
    show "d < length (ls_heap l') \<and> 0 < kl_refs (ls_heap l' ! d)"
    proof (cases "d = e")
      case True
      with old(3) k have "k' = k" by blast
      with one in' True pos old(1) show ?thesis by (simp add: heap len)
    qed (use old in \<open>simp add: heap len\<close>)
  qed (meson table_wfD(3) [OF wf] sub)
  moreover have "keyRefs l' k' = ((keyRefs l)(k := keyRefs l k - 1)) k'" for k'
  proof (cases "map_of (ls_locks l) k'")
    case None
    with k show ?thesis by (auto simp: keyRefs_def map)
  next
    case (Some d)
    show ?thesis
    proof (cases "k' = k")
      case True
      with k have "keyRefs l' k' = kl_refs (ls_heap l ! e) - 1"
        by (cases "keyRefs l k = 1") (simp_all add: keyRefs_def map heap)
      with True refs show ?thesis by simp
    next
      case False
      with inj Some have "d \<noteq> e" by blast
      with False Some show ?thesis by (simp add: keyRefs_def map heap)
    qed
  qed
  moreover have "keyLocked l' k' = keyLocked l k'" for k'
    using k free by (cases "map_of (ls_locks l) k'") (auto simp: keyLocked_def map heap)
  ultimately show ?thesis using map by (simp add: fun_eq_iff)
qed

definition refsTaken :: "keyedLocks \<Rightarrow> (string \<times> nat) list \<Rightarrow> keyedLocks \<Rightarrow> bool" where
  "refsTaken l new l' \<longleftrightarrow> table_wf l'
     \<and> (\<forall>k. keyRefs l' k = keyRefs l k + of_bool (k \<in> fst ` set new))
     \<and> keyLocked l' = keyLocked l \<and> map_of (ls_locks l) \<subseteq>\<^sub>m map_of (ls_locks l')
     \<and> (\<forall>(k, e) \<in> set new. map_of (ls_locks l') k = Some e)"

lemma refsTaken_Nil: "table_wf l \<Longrightarrow> refsTaken l [] l"
  by (simp add: refsTaken_def)

lemma refsTaken_Cons:
  assumes wf: "table_wf l" and r: "refEntry l k = (l1, e)" and rest: "refsTaken l1 new l2"
    and k: "k \<notin> fst ` set new"
  shows "refsTaken l ((k, e) # new) l2"
  using refEntry_spec [OF wf r] rest k unfolding refsTaken_def
  by (auto intro: map_le_trans simp: map_le_def dom_def)

lemma refKeys_spec:
  assumes "table_wf l" "sorted keys" "\<And>p k. prev = Some p \<Longrightarrow> k \<in> set keys \<Longrightarrow> p \<le> k"
  shows "\<exists>l' new. refKeys l prev keys held = (l', held @ new) \<and> refsTaken l new l'
    \<and> sorted_wrt (<) (map fst new) \<and> fst ` set new = set keys - set_option prev"
  using assms
proof (induction keys arbitrary: l prev held)
  case Nil
  then show ?case by (simp add: refsTaken_Nil)
next
  case (Cons key keys)
  from Cons.prems(2) have srt: "sorted keys" and le: "\<And>k. k \<in> set keys \<Longrightarrow> key \<le> k" by auto
  show ?case
  proof (cases "prev = Some key")
    case True
    with Cons.IH [OF Cons.prems(1) srt, of "Some key" held] le show ?thesis by fastforce
  next
    case False
    obtain l1 e where r: "refEntry l key = (l1, e)" by fastforce
    have wf1: "table_wf l1" using refEntry_spec [OF Cons.prems(1) r] by simp
    obtain l' new where rec: "refKeys l1 (Some key) keys (held @ [(key, e)]) = (l', (held @ [(key, e)]) @ new)"
      and taken: "refsTaken l1 new l'" and inc: "sorted_wrt (<) (map fst new)"
      and keys: "fst ` set new = set keys - {key}"
      using Cons.IH [OF wf1 srt, of "Some key" "held @ [(key, e)]"] le by fastforce
    have above: "key < k" if "k \<in> fst ` set new" for k
      using that keys le by (auto simp: less_le)
    have "refsTaken l ((key, e) # new) l'"
      by (rule refsTaken_Cons [OF Cons.prems(1) r taken]) (simp add: keys)
    moreover have "sorted_wrt (<) (map fst ((key, e) # new))"
      using inc above by auto
    moreover have "fst ` set ((key, e) # new) = set (key # keys) - set_option prev"
    proof -
      have "p \<notin> set (key # keys)" if "prev = Some p" for p
        using that False Cons.prems(3) [OF that, of key] le by (auto simp: not_le dest: order.antisym)
      then show ?thesis using keys by (cases prev) auto
    qed
    moreover have "refKeys l prev (key # keys) held = (l', held @ (key, e) # new)"
      using False r rec by simp
    ultimately show ?thesis by blast
  qed
qed

lemma lockRefs_spec:
  assumes "table_wf l" "lockRefs l keys = (l', held)"
  shows "refsTaken l held l'" and "sorted_wrt (<) (map fst held)" and "fst ` set held = set keys"
  using refKeys_spec [OF assms(1) sorted_sort, of None keys "[]"] assms(2)
  by (auto simp: lockRefs_def)

lemma dropRefs_spec:
  assumes "table_wf l" "distinct (map fst held)"
    "\<And>k e. (k, e) \<in> set held \<Longrightarrow> map_of (ls_locks l) k = Some e \<and> (keyRefs l k = 1 \<longrightarrow> \<not> keyLocked l k)"
  shows "table_wf (dropRefs held l) \<and> keyLocked (dropRefs held l) = keyLocked l
    \<and> (\<forall>k. keyRefs (dropRefs held l) k = keyRefs l k - of_bool (k \<in> fst ` set held))
    \<and> (\<forall>k e. map_of (ls_locks l) k = Some e \<longrightarrow> (k \<in> fst ` set held \<longrightarrow> keyRefs l k \<noteq> 1)
          \<longrightarrow> map_of (ls_locks (dropRefs held l)) k = Some e)"
  using assms
proof (induction held arbitrary: l)
  case Nil
  then show ?case by (simp add: dropRefs_def)
next
  case (Cons h held)
  obtain k e where h: "h = (k, e)" by (cases h)
  from Cons.prems(3) h have k: "map_of (ls_locks l) k = Some e" "keyRefs l k = 1 \<Longrightarrow> \<not> keyLocked l k" by auto
  note d = dropEntry_spec [OF Cons.prems(1) k]
  have kn: "k \<notin> fst ` set held" and dis: "distinct (map fst held)" using Cons.prems(2) h by auto
  have "map_of (ls_locks (dropEntry h l)) k' = Some e' \<and>
      (keyRefs (dropEntry h l) k' = 1 \<longrightarrow> \<not> keyLocked (dropEntry h l) k')"
    if "(k', e') \<in> set held" for k' e'
    using Cons.prems(3) [of k' e'] that kn d h by force
  note ih = Cons.IH [OF _ dis this]
  have "table_wf (dropEntry h l)" using d h by simp
  from ih [OF this] d show ?case
    using kn h by (auto simp: dropRefs_def)
qed

section \<open>The invariant\<close>

fun placeHeld :: "place \<Rightarrow> (string \<times> nat) list" where
  "placeHeld Outside = []"
| "placeHeld (Acquiring held i) = held"
| "placeHeld (Inside held) = held"
| "placeHeld (Unlocking held i) = held"
| "placeHeld (Trying h) = [h]"

fun placeTaken :: "place \<Rightarrow> (string \<times> nat) list" where
  "placeTaken Outside = []"
| "placeTaken (Acquiring held i) = take i held"
| "placeTaken (Inside held) = held"
| "placeTaken (Unlocking held i) = take i held"
| "placeTaken (Trying h) = []"

fun placeFits :: "place \<Rightarrow> bool" where
  "placeFits (Acquiring held i) \<longleftrightarrow> i \<le> length held"
| "placeFits (Unlocking held i) \<longleftrightarrow> i \<le> length held"
| "placeFits _ \<longleftrightarrow> True"

definition countedKeys :: "place \<Rightarrow> string set" where
  "countedKeys p = fst ` set (placeHeld p)"

definition takenKeys :: "place \<Rightarrow> string set" where
  "takenKeys p = fst ` set (placeTaken p)"

definition placeOk :: "keyedLocks \<Rightarrow> place \<Rightarrow> bool" where
  "placeOk l p \<longleftrightarrow> sorted_wrt (<) (map fst (placeHeld p)) \<and> placeFits p
     \<and> (\<forall>(k, e) \<in> set (placeHeld p). map_of (ls_locks l) k = Some e)"

definition locks_inv :: "lockSystem \<Rightarrow> bool" where
  "locks_inv s \<longleftrightarrow> table_wf (sy_table s) \<and> finite {t. sy_place s t \<noteq> Outside}
     \<and> (\<forall>t. placeOk (sy_table s) (sy_place s t))
     \<and> (\<forall>k. keyRefs (sy_table s) k = int (card {t. k \<in> countedKeys (sy_place s t)}))
     \<and> (\<forall>k. keyLocked (sy_table s) k \<longleftrightarrow> (\<exists>t. k \<in> takenKeys (sy_place s t)))
     \<and> (\<forall>t u. t \<noteq> u \<longrightarrow> takenKeys (sy_place s t) \<inter> takenKeys (sy_place s u) = {})"

lemma countedKeys_simps [simp]:
  "countedKeys Outside = {}" "countedKeys (Acquiring held i) = fst ` set held"
  "countedKeys (Inside held) = fst ` set held" "countedKeys (Unlocking held i) = fst ` set held"
  "countedKeys (Trying h) = {fst h}"
  by (simp_all add: countedKeys_def)

lemma takenKeys_simps [simp]:
  "takenKeys Outside = {}" "takenKeys (Inside held) = fst ` set held" "takenKeys (Trying h) = {}"
  "takenKeys (Acquiring held 0) = {}" "takenKeys (Acquiring held (length held)) = fst ` set held"
  "takenKeys (Unlocking held 0) = {}" "takenKeys (Unlocking held (length held)) = fst ` set held"
  by (simp_all add: takenKeys_def)

lemma takenKeys_counted: "takenKeys p \<subseteq> countedKeys p"
  by (cases p) (auto simp: takenKeys_def countedKeys_def dest: in_set_takeD)

lemma takenKeys_Suc:
  "i < length held \<Longrightarrow> takenKeys (Acquiring held (Suc i)) = insert (fst (held ! i)) (takenKeys (Acquiring held i))"
  "i < length held \<Longrightarrow> takenKeys (Unlocking held (Suc i)) = insert (fst (held ! i)) (takenKeys (Unlocking held i))"
  by (simp_all add: takenKeys_def take_Suc_conv_app_nth)

lemma increasing_take:
  assumes "sorted_wrt (<) (map fst (held :: (string \<times> nat) list))" "i < length held" "k \<in> fst ` set (take i held)"
  shows "k < fst (held ! i)"
proof -
  from assms(3) obtain j where "j < i" "j < length held" "k = fst (held ! j)"
    by (auto simp: in_set_conv_nth)
  then show ?thesis using sorted_wrt_nth_less [OF assms(1), of j i] assms(2) by simp
qed

lemma finite_counted: "finite {t. sy_place s t \<noteq> Outside} \<Longrightarrow> finite {t. k \<in> countedKeys (sy_place s t)}"
  by (rule finite_subset [rotated]) auto

lemma card_upd:
  assumes "finite {t. Q (f t)}"
  shows "int (card {t. Q ((f(a := p)) t)}) = int (card {t. Q (f t)}) + of_bool (Q p) - of_bool (Q (f a))"
proof -
  have new: "{t. Q ((f(a := p)) t)} = (if Q p then insert a ({t. Q (f t)} - {a}) else {t. Q (f t)} - {a})"
    by auto
  have del: "int (card ({t. Q (f t)} - {a})) = int (card {t. Q (f t)}) - of_bool (Q (f a))"
  proof (cases "Q (f a)")
    case True
    then have "card {t. Q (f t)} > 0" using assms by (auto simp: card_gt_0_iff)
    with True assms show ?thesis by (simp add: card_Diff_singleton of_nat_diff)
  next
    case False
    then have "{t. Q (f t)} - {a} = {t. Q (f t)}" by auto
    with False show ?thesis by simp
  qed
  have "card (insert a ({t. Q (f t)} - {a})) = Suc (card ({t. Q (f t)} - {a}))"
    by (rule card_insert_disjoint) (use assms in auto)
  then show ?thesis unfolding new using del by (cases "Q p") auto
qed

lemma locks_inv_start: "locks_inv startLocks"
  using table_wf_noLocks
  by (simp add: locks_inv_def startLocks_def placeOk_def keyRefs_def keyLocked_def noLocks_def)

text \<open>
  One rule covers every step: it names the table's new counts and locked keys through the keys the
  caller gains or loses.
\<close>

lemma locks_inv_goTo:
  assumes inv: "locks_inv s"
    and wf: "table_wf l"
    and me: "placeOk l p"
    and others: "\<And>k e u. u \<noteq> t \<Longrightarrow> (k, e) \<in> set (placeHeld (sy_place s u)) \<Longrightarrow> map_of (ls_locks l) k = Some e"
    and refs: "\<And>k. keyRefs l k = keyRefs (sy_table s) k + of_bool (k \<in> countedKeys p) - of_bool (k \<in> countedKeys (sy_place s t))"
    and locked: "\<And>k. keyLocked l k \<longleftrightarrow> k \<in> takenKeys p \<or> keyLocked (sy_table s) k \<and> k \<notin> takenKeys (sy_place s t)"
    and free: "\<And>k. k \<in> takenKeys p \<Longrightarrow> k \<in> takenKeys (sy_place s t) \<or> \<not> keyLocked (sy_table s) k"
  shows "locks_inv (goTo t p l s)"
proof -
  from inv have fin: "finite {t. sy_place s t \<noteq> Outside}"
    and oks: "\<And>u. placeOk (sy_table s) (sy_place s u)"
    and cnt: "\<And>k. keyRefs (sy_table s) k = int (card {t. k \<in> countedKeys (sy_place s t)})"
    and lkd: "\<And>k. keyLocked (sy_table s) k \<longleftrightarrow> (\<exists>t. k \<in> takenKeys (sy_place s t))"
    and apart: "\<And>t u. t \<noteq> u \<Longrightarrow> takenKeys (sy_place s t) \<inter> takenKeys (sy_place s u) = {}"
    by (auto simp: locks_inv_def)
  have elsewhere: "keyLocked (sy_table s) k \<and> k \<notin> takenKeys (sy_place s t) \<longleftrightarrow>
      (\<exists>u. u \<noteq> t \<and> k \<in> takenKeys (sy_place s u))" for k
    unfolding lkd using apart [of _ t] by (metis disjoint_iff)
  let ?pl = "(sy_place s)(t := p)"
  have "{u. ?pl u \<noteq> Outside} \<subseteq> insert t {u. sy_place s u \<noteq> Outside}" by auto
  then have "finite {u. ?pl u \<noteq> Outside}" using fin by (meson finite_insert finite_subset)
  moreover have "placeOk l (?pl u)" for u
    using me oks [of u] others [of u] by (auto simp: placeOk_def)
  moreover have "keyRefs l k = int (card {u. k \<in> countedKeys (?pl u)})" for k
    using card_upd [where Q = "\<lambda>p. k \<in> countedKeys p", OF finite_counted [OF fin]] refs [of k] cnt [of k] by simp
  moreover have "keyLocked l k \<longleftrightarrow> (\<exists>u. k \<in> takenKeys (?pl u))" for k
    unfolding locked elsewhere by (auto split: if_splits)
  moreover have "takenKeys (?pl u) \<inter> takenKeys (?pl v) = {}" if "u \<noteq> v" for u v
  proof -
    have out: "takenKeys p \<inter> takenKeys (sy_place s w) = {}" if "w \<noteq> t" for w
      using that free lkd apart [of w t] by blast
    show ?thesis using that apart [of u v] out [of u] out [of v] by (auto split: if_splits)
  qed
  ultimately show ?thesis
    unfolding locks_inv_def goTo_def using wf by simp
qed

lemma locks_inv_D:
  assumes "locks_inv s"
  shows inv_wf: "table_wf (sy_table s)" and inv_finite: "finite {t. sy_place s t \<noteq> Outside}"
    and inv_place: "\<And>t. placeOk (sy_table s) (sy_place s t)"
    and inv_refs: "\<And>k. keyRefs (sy_table s) k = int (card {t. k \<in> countedKeys (sy_place s t)})"
    and inv_locked: "\<And>k. keyLocked (sy_table s) k \<longleftrightarrow> (\<exists>t. k \<in> takenKeys (sy_place s t))"
    and inv_apart: "\<And>t u. t \<noteq> u \<Longrightarrow> takenKeys (sy_place s t) \<inter> takenKeys (sy_place s u) = {}"
  using assms by (simp_all add: locks_inv_def)

lemma placeOk_D:
  assumes "placeOk l p"
  shows placeOk_inc: "sorted_wrt (<) (map fst (placeHeld p))" and placeOk_fits: "placeFits p"
    and placeOk_held: "\<And>k e. (k, e) \<in> set (placeHeld p) \<Longrightarrow> map_of (ls_locks l) k = Some e"
  using assms by (auto simp: placeOk_def)

lemma entryLocked_key: "map_of (ls_locks l) k = Some e \<Longrightarrow> entryLocked l e = keyLocked l k"
  by (simp add: entryLocked_def keyLocked_def)

lemma inv_held_entry:
  assumes "locks_inv s" "h \<in> set (placeHeld (sy_place s t))"
  shows "map_of (ls_locks (sy_table s)) (fst h) = Some (snd h)"
  using placeOk_held [OF inv_place [OF assms(1)], of "fst h" "snd h" t] assms(2) by simp

lemma arrive_inv:
  assumes inv: "locks_inv s" and out: "sy_place s t = Outside"
    and taken: "refsTaken (sy_table s) held l" and inc: "sorted_wrt (<) (map fst held)"
    and p: "placeHeld p = held" "placeTaken p = []" "placeFits p"
  shows "locks_inv (goTo t p l s)"
proof (rule locks_inv_goTo [OF inv])
  show "table_wf l" using taken by (simp add: refsTaken_def)
  show "placeOk l p" using taken inc p by (simp add: placeOk_def refsTaken_def)
  show "map_of (ls_locks l) k = Some e" if "(k, e) \<in> set (placeHeld (sy_place s u))" for k e u
    using placeOk_held [OF inv_place [OF inv] that] taken by (auto simp: refsTaken_def map_le_def dom_def)
  show "keyRefs l k = keyRefs (sy_table s) k + of_bool (k \<in> countedKeys p) - of_bool (k \<in> countedKeys (sy_place s t))" for k
    using taken out p by (simp add: refsTaken_def countedKeys_def)
  show "keyLocked l k \<longleftrightarrow> k \<in> takenKeys p \<or> keyLocked (sy_table s) k \<and> k \<notin> takenKeys (sy_place s t)" for k
    using taken out p by (simp add: refsTaken_def takenKeys_def)
  show "k \<in> takenKeys (sy_place s t) \<or> \<not> keyLocked (sy_table s) k" if "k \<in> takenKeys p" for k
    using that p by (simp add: takenKeys_def)
qed

text \<open>Locking or unlocking the key of one held lock, or neither.\<close>

lemma same_held_inv:
  assumes inv: "locks_inv s" and held: "placeHeld p = placeHeld (sy_place s t)" and fits: "placeFits p"
    and tab: "table_wf l" "keyRefs l = keyRefs (sy_table s)" "ls_locks l = ls_locks (sy_table s)"
    and locked: "\<And>k. keyLocked l k \<longleftrightarrow> k \<in> takenKeys p \<or> keyLocked (sy_table s) k \<and> k \<notin> takenKeys (sy_place s t)"
    and free: "\<And>k. k \<in> takenKeys p \<Longrightarrow> k \<in> takenKeys (sy_place s t) \<or> \<not> keyLocked (sy_table s) k"
  shows "locks_inv (goTo t p l s)"
proof (rule locks_inv_goTo [OF inv tab(1) _ _ _ locked free])
  show "placeOk l p" using inv_place [OF inv, of t] held fits tab(3) by (simp add: placeOk_def)
  show "map_of (ls_locks l) k = Some e" if "(k, e) \<in> set (placeHeld (sy_place s u))" for k e u
    using placeOk_held [OF inv_place [OF inv] that] tab(3) by simp
  show "keyRefs l k = keyRefs (sy_table s) k + of_bool (k \<in> countedKeys p) - of_bool (k \<in> countedKeys (sy_place s t))" for k
    using held tab(2) by (simp add: countedKeys_def)
qed

lemma lock_step_inv:
  assumes inv: "locks_inv s" and h: "h \<in> set (placeHeld (sy_place s t))"
    and held: "placeHeld p = placeHeld (sy_place s t)" and fits: "placeFits p"
    and free: "\<not> entryLocked (sy_table s) (snd h)"
    and taken: "takenKeys p = insert (fst h) (takenKeys (sy_place s t))"
  shows "locks_inv (goTo t p (lockEntry (snd h) (sy_table s)) s)"
proof -
  note e = inv_held_entry [OF inv h]
  note set = setEntry_lock_spec [OF inv_wf [OF inv] e, of True]
  have nl: "\<not> keyLocked (sy_table s) (fst h)" using free entryLocked_key [OF e] by simp
  show ?thesis unfolding lockEntry_def
  proof (rule same_held_inv [OF inv held fits set(1) set(2)])
    show "keyLocked (setEntry (snd h) (kl_locked_update (\<lambda>_. True)) (sy_table s)) k \<longleftrightarrow>
        k \<in> takenKeys p \<or> keyLocked (sy_table s) k \<and> k \<notin> takenKeys (sy_place s t)" for k
      using inv_locked [OF inv, of k] by (auto simp: set(3) taken)
    show "k \<in> takenKeys (sy_place s t) \<or> \<not> keyLocked (sy_table s) k" if "k \<in> takenKeys p" for k
      using that nl taken by auto
  qed simp
qed

lemma unlock_step_inv:
  assumes inv: "locks_inv s" and at: "sy_place s t = Unlocking held (Suc i)"
  shows "locks_inv (goTo t (Unlocking held i) (unlockEntry (snd (held ! i)) (sy_table s)) s)"
proof -
  have i: "i < length held" using placeOk_fits [OF inv_place [OF inv, of t]] at by simp
  then have h: "held ! i \<in> set (placeHeld (sy_place s t))" using at by simp
  note set = setEntry_lock_spec [OF inv_wf [OF inv] inv_held_entry [OF inv h], of False]
  have now: "takenKeys (sy_place s t) = insert (fst (held ! i)) (takenKeys (Unlocking held i))"
    using takenKeys_Suc(2) [OF i] at by simp
  have gone: "fst (held ! i) \<notin> takenKeys (Unlocking held i)"
    using increasing_take [OF placeOk_inc [OF inv_place [OF inv, of t]], of i "fst (held ! i)"] at i
    by (auto simp: takenKeys_def)
  show ?thesis unfolding unlockEntry_def
  proof (rule same_held_inv [OF inv _ _ set(1) set(2)])
    show "keyLocked (setEntry (snd (held ! i)) (kl_locked_update (\<lambda>_. False)) (sy_table s)) k \<longleftrightarrow>
        k \<in> takenKeys (Unlocking held i) \<or> keyLocked (sy_table s) k \<and> k \<notin> takenKeys (sy_place s t)" for k
      using inv_locked [OF inv, of k] now gone by (auto simp: set(3))
    show "k \<in> takenKeys (sy_place s t) \<or> \<not> keyLocked (sy_table s) k"
      if "k \<in> takenKeys (Unlocking held i)" for k
      using that now by simp
  qed (use at i in simp_all)
qed

lemma move_step_inv:
  assumes inv: "locks_inv s" and held: "placeHeld p = placeHeld (sy_place s t)" and fits: "placeFits p"
    and taken: "takenKeys p = takenKeys (sy_place s t)"
  shows "locks_inv (goTo t p (sy_table s) s)"
  by (rule same_held_inv [OF inv held fits inv_wf [OF inv]])
    (use taken inv_locked [OF inv] in auto)

lemma leave_step_inv:
  assumes inv: "locks_inv s" and at: "sy_place s t = Unlocking held 0"
  shows "locks_inv (goTo t Outside (dropRefs held (sy_table s)) s)"
proof -
  have dis: "distinct (map fst held)"
    using placeOk_inc [OF inv_place [OF inv, of t]] at strict_sorted_iff by fastforce
  have only: "u = t" if "keyRefs (sy_table s) k = 1" "k \<in> fst ` set held" "k \<in> countedKeys (sy_place s u)" for k u
  proof (rule ccontr)
    assume "u \<noteq> t"
    have "{u, t} \<subseteq> {t. k \<in> countedKeys (sy_place s t)}" using that at by simp
    then have "card {u, t} \<le> card {t. k \<in> countedKeys (sy_place s t)}"
      by (rule card_mono [OF finite_counted [OF inv_finite [OF inv]]])
    with \<open>u \<noteq> t\<close> inv_refs [OF inv, of k] that(1) show False by simp
  qed
  have "map_of (ls_locks (sy_table s)) k = Some e \<and> (keyRefs (sy_table s) k = 1 \<longrightarrow> \<not> keyLocked (sy_table s) k)"
    if "(k, e) \<in> set held" for k e
  proof
    show "map_of (ls_locks (sy_table s)) k = Some e"
      using placeOk_held [OF inv_place [OF inv, of t]] that at by simp
    show "keyRefs (sy_table s) k = 1 \<longrightarrow> \<not> keyLocked (sy_table s) k"
    proof (intro impI notI)
      assume one: "keyRefs (sy_table s) k = 1" and "keyLocked (sy_table s) k"
      then obtain u where u: "k \<in> takenKeys (sy_place s u)" using inv_locked [OF inv] by blast
      with one that have "u = t" by (intro only [of k]) (use takenKeys_counted in force)+
      with u at show False by simp
    qed
  qed
  note drop = dropRefs_spec [OF inv_wf [OF inv] dis this]
  show ?thesis
  proof (rule locks_inv_goTo [OF inv])
    show "table_wf (dropRefs held (sy_table s))" using drop by simp
    show "placeOk (dropRefs held (sy_table s)) Outside" by (simp add: placeOk_def)
    show "map_of (ls_locks (dropRefs held (sy_table s))) k = Some e"
      if "u \<noteq> t" "(k, e) \<in> set (placeHeld (sy_place s u))" for k e u
    proof -
      have "k \<in> countedKeys (sy_place s u)" using that(2) by (force simp: countedKeys_def)
      with only [of k u] that(1) have "k \<in> fst ` set held \<longrightarrow> keyRefs (sy_table s) k \<noteq> 1" by blast
      with placeOk_held [OF inv_place [OF inv] that(2)] drop show ?thesis by blast
    qed
  qed (use drop at in simp_all)
qed

lemma arrive_keeps:
  assumes inv: "locks_inv s" and st: "arrive s s'"
  shows "locks_inv s'"
  using st
proof cases
  case (callLock t keys l held)
  note r = lockRefs_spec [OF inv_wf [OF inv] callLock(3)]
  show ?thesis unfolding callLock(1)
    by (rule arrive_inv [OF inv callLock(2) r(1,2)]) simp_all
next
  case (callTryLock t key l e)
  note r = refEntry_spec [OF inv_wf [OF inv] callTryLock(3)]
  have "refsTaken (sy_table s) [(key, e)] l" using r by (simp add: refsTaken_def)
  then show ?thesis unfolding callTryLock(1)
    by (rule arrive_inv [OF inv callTryLock(2)]) simp_all
qed

lemma advance_keeps:
  assumes inv: "locks_inv s" and st: "advance s s'"
  shows "locks_inv s'"
  using st
proof cases
  case (takeKey t held i)
  then show ?thesis unfolding takeKey(1)
    by (intro lock_step_inv [OF inv]) (simp_all add: takenKeys_Suc)
next
  case (enter t held)
  then show ?thesis unfolding enter(1) by (intro move_step_inv [OF inv]) simp_all
next
  case (release t held)
  then show ?thesis unfolding release(1) by (intro move_step_inv [OF inv]) simp_all
next
  case (unlockKey t held i)
  then show ?thesis using unlock_step_inv [OF inv] by blast
next
  case (leave t held)
  then show ?thesis using leave_step_inv [OF inv] by blast
next
  case (tryTakes t h)
  then show ?thesis unfolding tryTakes(1) by (intro lock_step_inv [OF inv]) simp_all
next
  case (tryFails t h)
  then show ?thesis unfolding tryFails(1) by (intro move_step_inv [OF inv]) simp_all
qed

lemma lockReach_inv: "lockReach s \<Longrightarrow> locks_inv s"
  by (induction rule: lockReach.induct) (auto intro: locks_inv_start arrive_keeps advance_keeps)

section \<open>The specification it implements\<close>

text \<open>
  What the callers are promised: each has a set of keys; a caller with none may be given a set that
  nobody else has any key of, all at once, and gives its whole set back.
\<close>

inductive specStep :: "(nat \<Rightarrow> string set) \<Rightarrow> (nat \<Rightarrow> string set) \<Rightarrow> bool" where
  grant: "own t = {} \<Longrightarrow> (\<forall>u. own u \<inter> K = {}) \<Longrightarrow> specStep own (own(t := K))"
| giveBack: "specStep own (own(t := {}))"
| stay: "specStep own own"

fun insideKeys :: "place \<Rightarrow> string set" where
  "insideKeys (Inside held) = fst ` set held"
| "insideKeys _ = {}"

definition owned :: "lockSystem \<Rightarrow> nat \<Rightarrow> string set" where
  "owned s t = insideKeys (sy_place s t)"

lemma owned_goTo: "owned (goTo t p l s) = (owned s)(t := insideKeys p)"
  by (rule ext) (simp add: owned_def goTo_def)

lemma insideKeys_taken: "insideKeys p \<subseteq> takenKeys p"
  by (cases p) auto

lemma enter_granted:
  assumes inv: "locks_inv (goTo t (Inside held) l s)" and out: "owned s t = {}"
  shows "specStep (owned s) (owned (goTo t (Inside held) l s))"
proof -
  let ?s = "goTo t (Inside held) l s"
  have "owned s u \<inter> fst ` set held = {}" for u
  proof (cases "u = t")
    case False
    have "owned s u \<subseteq> takenKeys (sy_place ?s u)" "fst ` set held = takenKeys (sy_place ?s t)"
      using False insideKeys_taken by (auto simp: owned_def goTo_def)
    then show ?thesis using inv_apart [OF inv False] by blast
  qed (simp add: out)
  then show ?thesis unfolding owned_goTo insideKeys.simps by (intro specStep.grant out) blast
qed

lemma quiet_step:
  "insideKeys p = insideKeys (sy_place s t) \<Longrightarrow> specStep (owned s) (owned (goTo t p l s))"
proof -
  assume "insideKeys p = insideKeys (sy_place s t)"
  then have "owned (goTo t p l s) = owned s" by (simp add: owned_goTo fun_eq_iff) (simp add: owned_def)
  then show ?thesis by (simp add: specStep.stay)
qed

lemma advance_simulates:
  assumes inv: "locks_inv s" and st: "advance s s'"
  shows "specStep (owned s) (owned s')"
  using st
proof cases
  case (enter t held)
  then show ?thesis using enter_granted advance_keeps [OF inv st] by (simp add: owned_def)
next
  case (tryTakes t h)
  then show ?thesis using enter_granted advance_keeps [OF inv st] by (simp add: owned_def)
next
  case (release t held)
  then show ?thesis by (auto simp: owned_goTo intro: specStep.giveBack)
qed (auto intro: quiet_step)

lemma arrive_simulates: "arrive s s' \<Longrightarrow> specStep (owned s) (owned s')"
  by (erule arrive.cases) (auto intro: quiet_step)

section \<open>Progress\<close>

fun placeWork :: "place \<Rightarrow> nat" where
  "placeWork Outside = 0"
| "placeWork (Acquiring held i) = (length held - i) + length held + 3"
| "placeWork (Inside held) = length held + 2"
| "placeWork (Unlocking held i) = i + 1"
| "placeWork (Trying h) = 4"

definition lockWork :: "lockSystem \<Rightarrow> nat" where
  "lockWork s = (\<Sum>t | sy_place s t \<noteq> Outside. placeWork (sy_place s t))"

lemma lockWork_goTo:
  assumes inv: "locks_inv s" and less: "placeWork p < placeWork (sy_place s t)"
  shows "lockWork (goTo t p l s) < lockWork s"
proof -
  let ?A = "{u. sy_place s u \<noteq> Outside}"
  let ?pl = "(sy_place s)(t := p)"
  have fin: "finite ?A" by (rule inv_finite [OF inv])
  have t: "t \<in> ?A" using less by auto
  have "lockWork (goTo t p l s) = (\<Sum>u | ?pl u \<noteq> Outside. placeWork (?pl u))"
    by (simp add: lockWork_def goTo_def)
  also have "\<dots> = (\<Sum>u \<in> ?A. placeWork (?pl u))"
    by (rule sum.mono_neutral_left [OF fin]) (use t in auto)
  also have "\<dots> < (\<Sum>u \<in> ?A. placeWork (sy_place s u))"
    by (rule sum_strict_mono_ex1 [OF fin]) (use t less in \<open>auto simp: less_imp_le\<close>)
  finally show ?thesis by (simp add: lockWork_def)
qed

lemma advance_works:
  assumes inv: "locks_inv s" and st: "advance s s'"
  shows "lockWork s' < lockWork s"
  using st by cases (use lockWork_goTo [OF inv] in auto)

text \<open>A caller that cannot go on waits for a key that somebody else has taken.\<close>

lemma advance_or_waits:
  assumes "sy_place s t \<noteq> Outside" "placeFits (sy_place s t)"
  obtains s' where "advance s s'"
  | held i where "sy_place s t = Acquiring held i" "i < length held" "entryLocked (sy_table s) (snd (held ! i))"
proof (cases "sy_place s t")
  case Outside
  with assms show ?thesis by simp
next
  case (Acquiring held i)
  show ?thesis
  proof (cases "i < length held \<and> entryLocked (sy_table s) (snd (held ! i))")
    case True
    with Acquiring that(2) show ?thesis by blast
  next
    case False
    with Acquiring assms(2) have "i = length held \<or> i < length held \<and> \<not> entryLocked (sy_table s) (snd (held ! i))" by auto
    with Acquiring that(1) show ?thesis by (blast intro: advance.takeKey advance.enter)
  qed
next
  case (Inside held)
  with that(1) show ?thesis by (blast intro: advance.release)
next
  case (Unlocking held i)
  with that(1) show ?thesis by (cases i) (blast intro: advance.unlockKey advance.leave)+
next
  case (Trying h)
  with that(1) show ?thesis by (blast intro: advance.tryTakes advance.tryFails)
qed

text \<open>
  Were everybody waiting, the caller waiting for the greatest key would wait for one that a caller
  waiting for a greater key has.
\<close>

lemma somebody_advances:
  assumes inv: "locks_inv s" and busy: "sy_place s t0 \<noteq> Outside"
  shows "\<exists>s'. advance s s'"
proof (rule ccontr)
  assume stuck: "\<nexists>s'. advance s s'"
  define waits where "waits t k \<longleftrightarrow> (\<exists>held i. sy_place s t = Acquiring held i \<and> i < length held \<and> k = fst (held ! i))" for t k
  let ?A = "{t. sy_place s t \<noteq> Outside}"
  have waiting: "\<exists>k. waits t k \<and> keyLocked (sy_table s) k" if "t \<in> ?A" for t
  proof -
    have "sy_place s t \<noteq> Outside" using that by simp
    then obtain held i where at: "sy_place s t = Acquiring held i" "i < length held"
      and l: "entryLocked (sy_table s) (snd (held ! i))"
      using advance_or_waits [of s t] placeOk_fits [OF inv_place [OF inv]] stuck by metis
    have "held ! i \<in> set (placeHeld (sy_place s t))" using at by simp
    from entryLocked_key [OF inv_held_entry [OF inv this]] l have "keyLocked (sy_table s) (fst (held ! i))" by simp
    with at show ?thesis by (auto simp: waits_def)
  qed
  have greater: "\<exists>u \<in> ?A. \<exists>k'. waits u k' \<and> k < k'" if "keyLocked (sy_table s) k" for k
  proof -
    from that obtain u where u: "k \<in> takenKeys (sy_place s u)" using inv_locked [OF inv] by blast
    then have "u \<in> ?A" by auto
    from waiting [OF this] obtain held i where at: "sy_place s u = Acquiring held i" "i < length held"
      by (auto simp: waits_def)
    have "k < fst (held ! i)"
      using increasing_take [OF placeOk_inc [OF inv_place [OF inv, of u]]] at u by (auto simp: takenKeys_def)
    moreover have "waits u (fst (held ! i))" using at by (auto simp: waits_def)
    ultimately show ?thesis using \<open>u \<in> ?A\<close> by blast
  qed
  let ?K = "{k. \<exists>t \<in> ?A. waits t k}"
  have "?K \<subseteq> (\<Union>t \<in> ?A. countedKeys (sy_place s t))" by (force simp: waits_def)
  then have fin: "finite ?K"
    by (rule finite_subset) (use inv_finite [OF inv] in \<open>auto simp: countedKeys_def\<close>)
  have "?K \<noteq> {}" using waiting [of t0] busy by blast
  with fin have m: "Max ?K \<in> ?K" by (rule Max_in)
  then obtain t where t: "t \<in> ?A" "waits t (Max ?K)" by blast
  with waiting [OF t(1)] have "keyLocked (sy_table s) (Max ?K)" by (auto simp: waits_def)
  from greater [OF this] obtain k' where "k' \<in> ?K" "Max ?K < k'" by blast
  with Max_ge [OF fin] show False by (meson leD)
qed

lemma table_keys:
  assumes inv: "locks_inv s"
  shows "map_of (ls_locks (sy_table s)) k \<noteq> None \<longleftrightarrow> (\<exists>t. k \<in> countedKeys (sy_place s t))"
proof -
  have "keyRefs (sy_table s) k > 0 \<longleftrightarrow> {t. k \<in> countedKeys (sy_place s t)} \<noteq> {}"
    unfolding inv_refs [OF inv] using card_gt_0_iff finite_counted [OF inv_finite [OF inv]] by auto
  then show ?thesis using in_table_iff [OF inv_wf [OF inv]] by auto
qed

lemma unlock_locked:
  assumes inv: "locks_inv s" and at: "sy_place s t = Unlocking held (Suc i)"
  shows "entryLocked (sy_table s) (snd (held ! i))"
proof -
  have i: "i < length held" using placeOk_fits [OF inv_place [OF inv, of t]] at by simp
  then have h: "held ! i \<in> set (placeHeld (sy_place s t))" using at by simp
  have "fst (held ! i) \<in> takenKeys (sy_place s t)" using takenKeys_Suc(2) [OF i] at by simp
  then show ?thesis
    unfolding entryLocked_key [OF inv_held_entry [OF inv h]] using inv_locked [OF inv] by blast
qed

section \<open>Properties\<close>

text \<open>
  A run in which caller 0 is inside with the keys \<open>a\<close> and \<open>b\<close>, and caller 1 waits for \<open>b\<close>.
\<close>

definition twoCallers :: lockSystem where
  "twoCallers = (
     let s = goTo 0 (Acquiring [(''a'', 0), (''b'', 1)] 0) (fst (lockRefs noLocks [''b'', ''a'', ''b''])) startLocks;
         s = goTo 0 (Acquiring [(''a'', 0), (''b'', 1)] 1) (lockEntry 0 (sy_table s)) s;
         s = goTo 0 (Acquiring [(''a'', 0), (''b'', 1)] 2) (lockEntry 1 (sy_table s)) s;
         s = goTo 0 (Inside [(''a'', 0), (''b'', 1)]) (sy_table s) s
     in goTo 1 (Acquiring [(''b'', 1)] 0) (fst (lockRefs (sy_table s) [''b''])) s)"

lemma twoCallers_reached: "lockReach twoCallers"
proof -
  define h where "h = [(''a'', 0::nat), (''b'', 1)]"
  define l0 where "l0 = fst (lockRefs noLocks [''b'', ''a'', ''b''])"
  define s1 where "s1 = goTo 0 (Acquiring h 0) l0 startLocks"
  define s2 where "s2 = goTo 0 (Acquiring h (Suc 0)) (lockEntry (snd (h ! 0)) (sy_table s1)) s1"
  define s3 where "s3 = goTo 0 (Acquiring h (Suc (Suc 0))) (lockEntry (snd (h ! Suc 0)) (sy_table s2)) s2"
  define s4 where "s4 = goTo 0 (Inside h) (sy_table s3) s3"
  have l0: "lockRefs noLocks [''b'', ''a'', ''b''] = (l0, h)" unfolding l0_def h_def by code_simp
  have t0: "sy_table s1 = l0" "sy_table s2 = lockEntry 0 l0" "sy_table s3 = lockEntry 1 (lockEntry 0 l0)"
    "sy_table s4 = lockEntry 1 (lockEntry 0 l0)"
    by (simp_all add: s1_def s2_def s3_def s4_def goTo_def h_def)
  have free: "\<not> entryLocked l0 0" "\<not> entryLocked (lockEntry 0 l0) 1"
    unfolding l0_def by code_simp+
  have b: "lockRefs (sy_table s4) [''b''] = (fst (lockRefs (sy_table s4) [''b'']), [(''b'', 1)])"
    unfolding t0 l0_def by code_simp
  have "lockReach s1" unfolding s1_def
    by (rule lockReach.arrives [OF lockReach.start arrive.callLock]) (use l0 in \<open>simp_all add: startLocks_def\<close>)
  then have "lockReach s2" unfolding s2_def
    by (rule lockReach.advances [OF _ advance.takeKey]) (use free in \<open>simp_all add: t0 h_def s1_def goTo_def\<close>)
  then have "lockReach s3" unfolding s3_def
    by (rule lockReach.advances [OF _ advance.takeKey]) (use free in \<open>simp_all add: t0 h_def s2_def goTo_def\<close>)
  then have "lockReach s4" unfolding s4_def
    by (rule lockReach.advances [OF _ advance.enter]) (simp_all add: h_def s3_def goTo_def)
  then have "lockReach (goTo 1 (Acquiring [(''b'', 1)] 0) (fst (lockRefs (sy_table s4) [''b''])) s4)"
    by (rule lockReach.arrives [OF _ arrive.callLock [OF _ b]])
      (simp add: s4_def s3_def s2_def s1_def startLocks_def goTo_def)
  then show ?thesis
    by (simp add: twoCallers_def Let_def s1_def s2_def s3_def s4_def l0_def h_def numeral_2_eq_2)
qed

text \<open>
  C30. The lock table refines its specification. Every step of every interleaving of
  \<^verbatim>\<open>lock\<close>, \<^verbatim>\<open>tryLock\<close> and their releases, from the empty table, is a step of the
  specification, in which a caller receives all its keys at once and only when nobody else has any
  of them. So no two callers are inside with a common key. The table holds a key exactly while some
  caller is counted on it, and no release unlocks a mutex that is not locked (which would abort the
  process).
\<close>

theorem keyed_locks_refine:
  assumes "lockReach s"
  shows "(arrive s s' \<or> advance s s' \<longrightarrow> specStep (owned s) (owned s'))
    \<and> (\<forall>t u. t \<noteq> u \<longrightarrow> owned s t \<inter> owned s u = {})
    \<and> (\<forall>k. map_of (ls_locks (sy_table s)) k \<noteq> None \<longleftrightarrow> (\<exists>t. k \<in> countedKeys (sy_place s t)))
    \<and> (\<forall>t held i. sy_place s t = Unlocking held (Suc i) \<longrightarrow> entryLocked (sy_table s) (snd (held ! i)))"
proof -
  note inv = lockReach_inv [OF assms]
  have "owned s t \<inter> owned s u = {}" if "t \<noteq> u" for t u
    using inv_apart [OF inv that] insideKeys_taken unfolding owned_def by fast
  then show ?thesis
    using advance_simulates [OF inv] arrive_simulates table_keys [OF inv] unlock_locked [OF inv] by blast
qed

theorem keyed_locks_refine_witness:
  "lockReach twoCallers \<and> owned twoCallers 0 \<inter> owned twoCallers 1 = {} \<and> owned twoCallers 0 = {''a'', ''b''}
    \<and> map_of (ls_locks (sy_table twoCallers)) ''c'' = None"
proof -
  have o: "owned twoCallers 0 = {''a'', ''b''}"
    by (simp add: twoCallers_def Let_def owned_def goTo_def)
  have c: "\<not> (\<exists>t. ''c'' \<in> countedKeys (sy_place twoCallers t))"
    by (simp add: twoCallers_def Let_def goTo_def startLocks_def)
  note r = keyed_locks_refine [OF twoCallers_reached]
  from r have "owned twoCallers 0 \<inter> owned twoCallers 1 = {}" by (meson zero_neq_one)
  moreover from r c have "map_of (ls_locks (sy_table twoCallers)) ''c'' = None" by blast
  ultimately show ?thesis using twoCallers_reached o by blast
qed

text \<open>
  C31. No deadlock and no leak. Because each call takes its keys in ascending order, some caller
  can always go on while any is under way, whatever the interleaving so far; every such step uses
  up some of a finite amount of work, so a run in which no new call arrives ends, and it ends with
  every caller outside and the table empty.
\<close>

theorem keyed_locks_progress:
  assumes "lockReach s"
  shows "((\<exists>s'. advance s s') \<or> (\<forall>t. sy_place s t = Outside) \<and> ls_locks (sy_table s) = [])
    \<and> (\<forall>s'. advance s s' \<longrightarrow> lockWork s' < lockWork s)"
proof -
  note inv = lockReach_inv [OF assms]
  have "ls_locks (sy_table s) = []" if "\<forall>t. sy_place s t = Outside"
  proof -
    have "map_of (ls_locks (sy_table s)) k = None" for k
      using table_keys [OF inv, of k] that by simp
    then show ?thesis by (metis ext map_of_eq_empty_iff)
  qed
  then show ?thesis using somebody_advances [OF inv] advance_works [OF inv] by blast
qed

theorem keyed_locks_progress_witness:
  "lockReach twoCallers \<and> (\<exists>s'. advance twoCallers s' \<and> lockWork s' < lockWork twoCallers)"
proof -
  have "sy_place twoCallers 0 \<noteq> Outside"
    by (simp add: twoCallers_def Let_def goTo_def)
  with keyed_locks_progress [OF twoCallers_reached] have "\<exists>s'. advance twoCallers s'" by blast
  with keyed_locks_progress [OF twoCallers_reached] twoCallers_reached show ?thesis by blast
qed

end
