(* ===== verification/Session_Admission.thy ===== *)
theory Session_Admission
  imports Session_Operation Keyed_Locks
begin

text \<open>
  Effect admission (\<^verbatim>\<open>internal/daemon/session_locks.go\<close> and the first part of
  \<^verbatim>\<open>Daemon.handle\<close> in \<^verbatim>\<open>actions.go\<close>): which locks an action takes, decided from the
  action and the store, and the interleaving of the callers that take them.

  The store reads of one decision may see any state of the store: the decision is made before any
  lock is held. What \<^verbatim>\<open>store.OpenReadOnly\<close> returns is an argument; it fails or gives a
  \<open>policyStore\<close>. The locks are the gate (\<^verbatim>\<open>effectMu\<close>, shared or exclusive), the keys of
  \<^verbatim>\<open>sessionLocks\<close>, granted as the specification of \<open>Keyed_Locks\<close> promises, and
  \<^verbatim>\<open>creationMu\<close>.
\<close>

section \<open>Which sessions an action touches\<close>

abbreviation (input) "actionSessionRecreate \<equiv> ''session.recreate''"

type_synonym opened = "access_error + policyStore"

definition creationAction :: "Action \<Rightarrow> bool" where
  "creationAction a \<longleftrightarrow> ac_Action a = ActionAddAgent \<or> ac_Action a = ActionNewWorkgroup \<or> ac_Action a = ActionCreateWorkspace"

text \<open>\<^verbatim>\<open>store.OpenReadOnly\<close> and \<^verbatim>\<open>GetSession\<close>, None where either fails or finds no row.\<close>

definition openSession :: "opened \<Rightarrow> string \<Rightarrow> (policyStore \<times> Session) option" where
  "openSession op sid =
     (case op of
        Inl e \<Rightarrow> None
      | Inr db \<Rightarrow> (case ps_GetSession db sid of Inr (Some s) \<Rightarrow> Some (db, s) | _ \<Rightarrow> None))"

definition workgroupStart :: "opened \<Rightarrow> Action \<Rightarrow> bool" where
  "workgroupStart op a =
     (if ac_Action a \<noteq> ActionStart \<or> ac_ID a = [] \<or> ac_ID a = consoleID then False
      else (case openSession op (ac_ID a) of None \<Rightarrow> False | Some (db, session) \<Rightarrow> IsRoot session))"

text \<open>The ids, whether the session is a root, and whether it was found.\<close>

definition workgroupMembers :: "opened \<Rightarrow> string \<Rightarrow> string list \<times> bool \<times> bool" where
  "workgroupMembers op sid =
     (case openSession op sid of
        None \<Rightarrow> ([], False, False)
      | Some (db, session) \<Rightarrow>
          if IsRoot session then
            (case ps_Children db sid of
               Inl e \<Rightarrow> ([], False, False)
             | Inr children \<Rightarrow> (ss_ID session # map ss_ID children, True, True))
          else ([ss_ID session], False, True))"

definition sessionAndMembers :: "opened \<Rightarrow> string \<Rightarrow> string list \<times> bool" where
  "sessionAndMembers op sid = (case workgroupMembers op sid of (ids, root, found) \<Rightarrow> (ids, found))"

definition archiveScopedAction :: "opened \<Rightarrow> Action \<Rightarrow> (string list \<times> bool) option" where
  "archiveScopedAction op a =
     (let creation = (if ac_Action a = ActionSetArchived then
                        (if field (ac_Fields a) ''archived'' \<noteq> ''true'' then None else Some True)
                      else if ac_Action a = ActionDelete \<or> ac_Action a = ActionKill then Some True
                      else if ac_Action a = ActionRename then Some False
                      else None)
      in case creation of
           None \<Rightarrow> None
         | Some creation \<Rightarrow>
             if ac_ID a = [] \<or> ac_ID a = consoleID then None
             else (case sessionAndMembers op (ac_ID a) of
                 (ids, found) \<Rightarrow> if found then Some (ids, creation) else None))"

definition sameMembers :: "string list \<Rightarrow> string list \<Rightarrow> bool" where
  "sameMembers a b \<longleftrightarrow> length a = length b \<and> list_all (\<lambda>id. id \<in> set a) b"

definition repoScopedAction :: "opened \<Rightarrow> Action \<Rightarrow> string list option" where
  "repoScopedAction op a =
     (if ac_Action a = ActionAddRepo then Some []
      else if ac_Action a = ActionAgentSetRepos then
        (if ac_ID a = [] \<or> ac_ID a = consoleID then None
         else (case openSession op (ac_ID a) of
             None \<Rightarrow> None
           | Some (db, session) \<Rightarrow> if IsRoot session then None else Some [ss_ID session]))
      else None)"

definition sessionScopedAction :: "opened \<Rightarrow> Action \<Rightarrow> string option" where
  "sessionScopedAction op a =
     (if ac_Action a = ActionStart \<or> ac_Action a = ActionRestart \<or> ac_Action a = actionSessionRecreate \<or> ac_Action a = ActionSteer then
        (if ac_ID a = [] \<or> ac_ID a = consoleID then None
         else (case openSession op (ac_ID a) of
             None \<Rightarrow> None
           | Some (db, session) \<Rightarrow>
               if ac_Action a = ActionStart \<and> IsRoot session then None else Some (ss_ID session)))
      else None)"

definition splitAction :: "opened \<Rightarrow> Action \<Rightarrow> bool" where
  "splitAction op a \<longleftrightarrow> sessionScopedAction op a \<noteq> None \<or> archiveScopedAction op a \<noteq> None \<or>
     repoScopedAction op a \<noteq> None \<or> creationAction a \<or> workgroupStart op a"

section \<open>Which locks it takes\<close>

text \<open>
  \<open>pl_recheck\<close> is the session whose members \<^verbatim>\<open>handle\<close> and \<^verbatim>\<open>admitArchive\<close> resolve again
  once they hold \<^verbatim>\<open>creationMu\<close>, with the ids the locks were taken for.
\<close>

record plan =
  pl_exclusive :: bool
  pl_keys :: "string list"
  pl_creation :: bool
  pl_recheck :: "(string \<times> string list) option"

definition admitSessions :: "string list \<Rightarrow> bool \<Rightarrow> (string \<times> string list) option \<Rightarrow> plan" where
  "admitSessions ids creation recheck =
     \<lparr>pl_exclusive = False, pl_keys = filter (\<lambda>id. id \<noteq> []) ids, pl_creation = creation, pl_recheck = recheck\<rparr>"

definition exclusivePlan :: plan where
  "exclusivePlan = \<lparr>pl_exclusive = True, pl_keys = [], pl_creation = False, pl_recheck = None\<rparr>"

text \<open>
  \<^verbatim>\<open>admitArchive\<close> up to its first admission. The root flag decides whether it takes
  \<^verbatim>\<open>creationMu\<close> and looks again.
\<close>

definition admitArchive :: "opened \<Rightarrow> string \<Rightarrow> string list \<Rightarrow> plan" where
  "admitArchive op sid extra =
     (case workgroupMembers op sid of (ids, root, found) \<Rightarrow>
        let ids = (if found then ids else [sid])
        in admitSessions (ids @ extra) root (if root then Some (sid, ids) else None))"

text \<open>
  The admission of \<^verbatim>\<open>handle\<close>, for a caller that is not admitted yet: None where it needs none
  or refuses before taking a session lock. \<open>guard\<close> is the session whose authority the call checks,
  empty for the host. \<open>members\<close> is what \<^verbatim>\<open>agentsUnder\<close> returns.
\<close>

definition handleAdmission :: "opened \<Rightarrow> (string \<Rightarrow> access_error + string list) \<Rightarrow> Action \<Rightarrow> string \<Rightarrow> plan option" where
  "handleAdmission op members a guard =
     (if ac_Action a = [] \<or> ac_Action a = ActionRefresh then None
      else case sessionScopedAction op a of
        Some sid \<Rightarrow> Some (admitSessions [sid, guard] False None)
      | None \<Rightarrow> (case archiveScopedAction op a of
        Some (ids, creation) \<Rightarrow>
          Some (admitSessions (ids @ [guard]) creation (if creation then Some (ac_ID a, ids) else None))
      | None \<Rightarrow> (case repoScopedAction op a of
        Some ids \<Rightarrow> Some (admitSessions (ids @ [guard]) True None)
      | None \<Rightarrow>
          if workgroupStart op a then
            (case members (ac_ID a) of
               Inl e \<Rightarrow> None
             | Inr ids \<Rightarrow>
                 if ids = [] then None
                 else Some \<lparr>pl_exclusive = False, pl_keys = ids @ [guard], pl_creation = False, pl_recheck = None\<rparr>)
          else if creationAction a then Some (admitSessions [guard] True None)
          else Some exclusivePlan)))"

text \<open>The second look: what it finds decides between running and starting again.\<close>

definition recheckPasses :: "opened \<Rightarrow> plan \<Rightarrow> bool" where
  "recheckPasses op p =
     (case pl_recheck p of
        None \<Rightarrow> True
      | Some (sid, ids) \<Rightarrow> (case sessionAndMembers op sid of (current, found) \<Rightarrow> found \<and> sameMembers ids current))"

section \<open>Callers\<close>

text \<open>
  An action through \<^verbatim>\<open>handle\<close>; work admitted with \<^verbatim>\<open>admitSession\<close> (a report, a
  credential read, a completion's cleanup) or \<^verbatim>\<open>admitSessions\<close> (a restricted query, a page
  of events, a deferred start); and a self-completion, through \<^verbatim>\<open>admitArchive\<close>.
\<close>

datatype job =
    JobAction Action string
  | JobSession string
  | JobSessions "string list"
  | JobArchive string "string list"

fun planOf :: "opened \<Rightarrow> (string \<Rightarrow> access_error + string list) \<Rightarrow> job \<Rightarrow> plan option" where
  "planOf op members (JobAction a guard) = handleAdmission op members a guard"
| "planOf op members (JobSession sid) =
     Some \<lparr>pl_exclusive = False, pl_keys = [sid], pl_creation = False, pl_recheck = None\<rparr>"
| "planOf op members (JobSessions ids) = Some (admitSessions ids False None)"
| "planOf op members (JobArchive sid extra) = Some (admitArchive op sid extra)"

datatype stage =
    Away
  | Waiting job plan
  | Gated job plan
  | Keyed job plan
  | Creating job plan
  | Running job plan

fun stageGate :: "stage \<Rightarrow> plan option" where
  "stageGate (Gated j p) = Some p"
| "stageGate (Keyed j p) = Some p"
| "stageGate (Creating j p) = Some p"
| "stageGate (Running j p) = Some p"
| "stageGate _ = None"

fun stageKeys :: "stage \<Rightarrow> string set" where
  "stageKeys (Keyed j p) = set (pl_keys p)"
| "stageKeys (Creating j p) = set (pl_keys p)"
| "stageKeys (Running j p) = set (pl_keys p)"
| "stageKeys _ = {}"

fun stageCreation :: "stage \<Rightarrow> bool" where
  "stageCreation (Creating j p) \<longleftrightarrow> pl_creation p"
| "stageCreation (Running j p) \<longleftrightarrow> pl_creation p"
| "stageCreation _ \<longleftrightarrow> False"

definition gateExclusive :: "stage \<Rightarrow> bool" where
  "gateExclusive st \<longleftrightarrow> (case stageGate st of None \<Rightarrow> False | Some p \<Rightarrow> pl_exclusive p)"

text \<open>Rows appear and change workgroup only under the exclusive gate or in a creation.\<close>

definition mayGrow :: "plan \<Rightarrow> bool" where
  "mayGrow p \<longleftrightarrow> pl_exclusive p \<or> pl_creation p \<and> pl_recheck p = None"

definition keepsMembers :: "DB \<Rightarrow> DB \<Rightarrow> bool" where
  "keepsMembers d d' \<longleftrightarrow> (\<forall>s' \<in> set (allRows d'). \<exists>s \<in> set (allRows d). ss_ID s = ss_ID s' \<and> ss_RootID s = ss_RootID s')"

definition opens :: "DB \<Rightarrow> opened \<Rightarrow> bool" where
  "opens d op \<longleftrightarrow> (\<exists>e. op = Inl e) \<or> (\<exists>fault. op = Inr (storeView fault d))"

record daemonGate =
  dg_db :: DB
  dg_at :: "nat \<Rightarrow> stage"

definition moveTo :: "nat \<Rightarrow> stage \<Rightarrow> daemonGate \<Rightarrow> daemonGate" where
  "moveTo t st s = s\<lparr>dg_at := (dg_at s)(t := st)\<rparr>"

definition ownKeys :: "daemonGate \<Rightarrow> nat \<Rightarrow> string set" where
  "ownKeys s t = stageKeys (dg_at s t)"

inductive admit :: "daemonGate \<Rightarrow> daemonGate \<Rightarrow> bool" where
  arriveJob: "dg_at s t = Away \<Longrightarrow> store_inv d \<Longrightarrow> opens d op \<Longrightarrow> planOf op members j = Some p \<Longrightarrow> admit s (moveTo t (Waiting j p) s)"
| giveUp: "dg_at s t = Waiting j p \<or> dg_at s t = Gated j p \<Longrightarrow> admit s (moveTo t Away s)"
| lockShared: "dg_at s t = Waiting j p \<Longrightarrow> \<not> pl_exclusive p \<Longrightarrow> (\<forall>u. \<not> gateExclusive (dg_at s u))
    \<Longrightarrow> admit s (moveTo t (Gated j p) s)"
| lockExclusive: "dg_at s t = Waiting j p \<Longrightarrow> pl_exclusive p \<Longrightarrow> (\<forall>u. stageGate (dg_at s u) = None)
    \<Longrightarrow> admit s (moveTo t (Running j p) s)"
| lockKeys: "dg_at s t = Gated j p \<Longrightarrow> specStep (ownKeys s) ((ownKeys s)(t := set (pl_keys p)))
    \<Longrightarrow> admit s (moveTo t (Keyed j p) s)"
| lockCreation: "dg_at s t = Keyed j p \<Longrightarrow> pl_creation p \<Longrightarrow> (\<forall>u. \<not> stageCreation (dg_at s u))
    \<Longrightarrow> admit s (moveTo t (Creating j p) s)"
| runDirect: "dg_at s t = Keyed j p \<Longrightarrow> \<not> pl_creation p \<Longrightarrow> admit s (moveTo t (Running j p) s)"
| runCurrent: "dg_at s t = Creating j p \<Longrightarrow> opens (dg_db s) op \<Longrightarrow> recheckPasses op p
    \<Longrightarrow> admit s (moveTo t (Running j p) s)"
| startAgain: "dg_at s t = Creating j p \<Longrightarrow> opens (dg_db s) op \<Longrightarrow> \<not> recheckPasses op p
    \<Longrightarrow> admit s (moveTo t Away s)"
| effect: "dg_at s t = Running j p \<Longrightarrow> mayGrow p \<or> keepsMembers (dg_db s) d' \<Longrightarrow> store_inv d'
    \<Longrightarrow> admit s (s\<lparr>dg_db := d'\<rparr>)"
| finish: "dg_at s t = Running j p \<Longrightarrow> admit s (moveTo t Away s)"

inductive admitReach :: "daemonGate \<Rightarrow> bool" where
  start: "store_inv d \<Longrightarrow> admitReach \<lparr>dg_db = d, dg_at = (\<lambda>_. Away)\<rparr>"
| more: "admitReach s \<Longrightarrow> admit s s' \<Longrightarrow> admitReach s'"

text \<open>A session and, where it is a root, its members.\<close>

definition groupOf :: "DB \<Rightarrow> string \<Rightarrow> string set" where
  "groupOf d sid = insert sid
     (if \<exists>s \<in> set (allRows d). ss_ID s = sid \<and> IsRoot s
      then {ss_ID s |s. s \<in> set (allRows d) \<and> ss_RootID s = sid} else {})"

lemma groupOf_shrinks: "keepsMembers d d' \<Longrightarrow> groupOf d' sid \<subseteq> groupOf d sid"
  unfolding groupOf_def keepsMembers_def IsRoot_def by (auto split: if_splits) metis+

lemma row_GetSession:
  assumes "store_inv d" "s \<in> set (allRows d)" "ss_ID s = sid"
  shows "GetSession d sid = Some s"
proof -
  from assms(2) obtain k inc where in': "(k, (s, inc)) \<in> set (db_sessions d)"
    by (auto simp: allRows_def)
  have "gwf (db_sessions d)" using assms(1) by (simp add: store_inv_defs)
  with in' have k: "map_of (db_sessions d) k = Some (s, inc)" by simp
  with row_id [OF assms(1) k] assms(3) show ?thesis by (simp add: GetSession_def)
qed

lemma recheck_current:
  assumes inv: "store_inv d" and op: "opens d op" and ok: "recheckPasses op p" and p: "pl_recheck p = Some (sid, ids)"
  shows "groupOf d sid \<subseteq> set ids"
proof -
  obtain current where cur: "sessionAndMembers op sid = (current, True)" "sameMembers ids current"
    using ok p by (auto simp: recheckPasses_def split: prod.splits)
  obtain root where wm: "workgroupMembers op sid = (current, root, True)"
    using cur(1) by (auto simp: sessionAndMembers_def split: prod.splits)
  then obtain db session where s: "openSession op sid = Some (db, session)"
    by (auto simp: workgroupMembers_def split: option.splits)
  with op obtain fault where db: "db = storeView fault d"
    by (auto simp: opens_def openSession_def split: sum.splits option.splits)
  have row: "GetSession d sid = Some session"
    using s op by (auto simp: opens_def openSession_def storeView_sel split: sum.splits option.splits)
  have sid: "ss_ID session = sid" by (rule GetSession_id [OF inv row])
  have "groupOf d sid \<subseteq> set current"
  proof (cases "IsRoot session")
    case True
    then have "current = ss_ID session # map ss_ID (Children d sid)"
      using wm s db by (auto simp: workgroupMembers_def storeView_sel split: sum.splits option.splits)
    then show ?thesis using sid by (auto simp: groupOf_def Children_def)
  next
    case False
    then have "current = [sid]" using wm s sid by (simp add: workgroupMembers_def)
    moreover have "\<not> (\<exists>s \<in> set (allRows d). ss_ID s = sid \<and> IsRoot s)"
      using row_GetSession [OF inv] row False by fastforce
    ultimately show ?thesis by (auto simp: groupOf_def)
  qed
  moreover have "set current \<subseteq> set ids" using cur(2) by (auto simp: sameMembers_def list_all_iff)
  ultimately show ?thesis by blast
qed

section \<open>The invariant\<close>

fun stageJob :: "stage \<Rightarrow> (job \<times> plan) option" where
  "stageJob Away = None"
| "stageJob (Waiting j p) = Some (j, p)"
| "stageJob (Gated j p) = Some (j, p)"
| "stageJob (Keyed j p) = Some (j, p)"
| "stageJob (Creating j p) = Some (j, p)"
| "stageJob (Running j p) = Some (j, p)"

definition planned :: "job \<Rightarrow> plan \<Rightarrow> bool" where
  "planned j p \<longleftrightarrow> (\<exists>d op members. store_inv d \<and> opens d op \<and> planOf op members j = Some p)"

definition current :: "DB \<Rightarrow> stage \<Rightarrow> bool" where
  "current d st \<longleftrightarrow> (\<forall>j p sid ids. st = Running j p \<longrightarrow> pl_recheck p = Some (sid, ids) \<longrightarrow> groupOf d sid \<subseteq> set ids)"

definition apart :: "stage \<Rightarrow> stage \<Rightarrow> bool" where
  "apart st st' \<longleftrightarrow> (gateExclusive st \<longrightarrow> stageGate st' = None) \<and> (gateExclusive st' \<longrightarrow> stageGate st = None)
     \<and> stageKeys st \<inter> stageKeys st' = {} \<and> \<not> (stageCreation st \<and> stageCreation st')"

definition gate_inv :: "daemonGate \<Rightarrow> bool" where
  "gate_inv s \<longleftrightarrow> store_inv (dg_db s)
     \<and> (\<forall>t u. t \<noteq> u \<longrightarrow> apart (dg_at s t) (dg_at s u))
     \<and> (\<forall>t j p. stageJob (dg_at s t) = Some (j, p) \<longrightarrow> planned j p)
     \<and> (\<forall>t. current (dg_db s) (dg_at s t))"

lemma apart_sym: "apart st st' \<Longrightarrow> apart st' st"
  by (auto simp: apart_def)

lemma apart_Away [simp]: "apart Away st" "apart (Waiting j p) st"
  by (auto simp: apart_def gateExclusive_def)

lemma current_simps [simp]: "current d Away" "current d (Waiting j p)" "current d (Gated j p)" "current d (Keyed j p)" "current d (Creating j p)"
  by (simp_all add: current_def)

lemma gate_inv_moveTo:
  assumes inv: "gate_inv s" and ap: "\<And>u. u \<noteq> t \<Longrightarrow> apart st (dg_at s u)"
    and pl: "\<And>j p. stageJob st = Some (j, p) \<Longrightarrow> planned j p" and cur: "current (dg_db s) st"
  shows "gate_inv (moveTo t st s)"
  using inv ap pl cur apart_sym [OF ap] unfolding gate_inv_def moveTo_def by simp

text \<open>What the plans of the code have in common.\<close>

lemma handleAdmission_cases:
  assumes "handleAdmission op members a guard = Some p"
  obtains (session) sid where "sessionScopedAction op a = Some sid" "p = admitSessions [sid, guard] False None"
  | (archive) ids creation where "archiveScopedAction op a = Some (ids, creation)"
      "p = admitSessions (ids @ [guard]) creation (if creation then Some (ac_ID a, ids) else None)"
  | (repo) ids where "repoScopedAction op a = Some ids" "p = admitSessions (ids @ [guard]) True None"
  | (group) ids where "workgroupStart op a" "members (ac_ID a) = Inr ids"
      "p = \<lparr>pl_exclusive = False, pl_keys = ids @ [guard], pl_creation = False, pl_recheck = None\<rparr>"
  | (creation) "creationAction a" "p = admitSessions [guard] True None"
  | (exclusive) "p = exclusivePlan"
  using assms by (auto simp: handleAdmission_def split: if_splits option.splits sum.splits prod.splits)

definition planShape :: "plan \<Rightarrow> bool" where
  "planShape p \<longleftrightarrow> p = exclusivePlan \<or> \<not> pl_exclusive p \<and>
     (case pl_recheck p of None \<Rightarrow> True | Some (sid, ids) \<Rightarrow> pl_creation p \<and> set ids - {[]} \<subseteq> set (pl_keys p))"

lemma planShape_admitSessions [simp]:
  "planShape (admitSessions ids creation recheck) \<longleftrightarrow>
     (case recheck of None \<Rightarrow> True | Some (sid, ids') \<Rightarrow> creation \<and> set ids' - {[]} \<subseteq> set ids - {[]})"
  by (auto simp: planShape_def admitSessions_def exclusivePlan_def split: option.splits)

lemma planned_shape:
  assumes "planned j p"
  shows "planShape p"
proof -
  obtain op members where p: "planOf op members j = Some p" using assms by (auto simp: planned_def)
  show ?thesis
  proof (cases j)
    case (JobAction a guard)
    with p have "handleAdmission op members a guard = Some p" by simp
    then show ?thesis by (cases rule: handleAdmission_cases) (auto simp: planShape_def [of "\<lparr>pl_exclusive = _, pl_keys = _, pl_creation = _, pl_recheck = _\<rparr>"] planShape_def [of exclusivePlan])
  next
    case (JobArchive sid extra)
    with p show ?thesis by (auto simp: admitArchive_def Let_def split: prod.splits)
  qed (use p in \<open>auto simp: planShape_def [of "\<lparr>pl_exclusive = _, pl_keys = _, pl_creation = _, pl_recheck = _\<rparr>"]\<close>)
qed

lemma planned_facts:
  assumes "planned j p"
  shows "pl_exclusive p \<Longrightarrow> pl_keys p = [] \<and> \<not> pl_creation p \<and> pl_recheck p = None"
    and "pl_recheck p = Some (sid, ids) \<Longrightarrow> pl_creation p \<and> set ids - {[]} \<subseteq> set (pl_keys p)"
  using planned_shape [OF assms] by (auto simp: planShape_def exclusivePlan_def)

lemma inv_planned: "gate_inv s \<Longrightarrow> stageJob (dg_at s t) = Some (j, p) \<Longrightarrow> planned j p"
  by (auto simp: gate_inv_def)

lemma specStep_grants:
  assumes "specStep own (own(t := K))" "own t = {}" "u \<noteq> t"
  shows "own u \<inter> K = {}"
  using assms(1)
proof cases
  case (grant t' K')
  then show ?thesis
    using assms(2,3) by (metis fun_upd_apply inf_bot_right)
next
  case (giveBack t')
  then have "K = {}" using assms(2) by (metis fun_upd_apply)
  then show ?thesis by simp
next
  case stay
  then have "K = {}" using assms(2) by (metis fun_upd_apply)
  then show ?thesis by simp
qed

lemma effect_current:
  assumes inv: "gate_inv s" and at: "dg_at s t = Running j p" and d: "mayGrow p \<or> keepsMembers (dg_db s) d'"
  shows "current d' (dg_at s u)"
proof (cases "keepsMembers (dg_db s) d'")
  case True
  have "current (dg_db s) (dg_at s u)" using inv by (simp add: gate_inv_def)
  then show ?thesis using groupOf_shrinks [OF True] unfolding current_def by blast
next
  case False
  with d have grow: "mayGrow p" by simp
  show ?thesis unfolding current_def
  proof (intro allI impI)
    fix j' p' sid ids
    assume u: "dg_at s u = Running j' p'" and re: "pl_recheck p' = Some (sid, ids)"
    have "planned j' p'" "planned j p" using inv_planned [OF inv] u at by (metis stageJob.simps(6))+
    with planned_facts(2) [OF this(1) re] planned_facts(1) [OF this(2)] re grow
    have c: "pl_creation p'" and ne: "u \<noteq> t" using u at by (auto simp: mayGrow_def)
    have "apart (dg_at s u) (dg_at s t)" using inv ne by (simp add: gate_inv_def)
    with u at c grow show "groupOf d' sid \<subseteq> set ids" by (auto simp: apart_def gateExclusive_def mayGrow_def)
  qed
qed

lemma gate_apart: "gate_inv s \<Longrightarrow> u \<noteq> t \<Longrightarrow> apart (dg_at s t) (dg_at s u)"
  by (simp add: gate_inv_def)

text \<open>A caller that goes on with its own plan.\<close>

lemma gate_inv_forward:
  assumes "gate_inv s" "stageJob st = stageJob (dg_at s t)" "\<And>u. u \<noteq> t \<Longrightarrow> apart st (dg_at s u)" "current (dg_db s) st"
  shows "gate_inv (moveTo t st s)"
  by (rule gate_inv_moveTo) (use assms inv_planned [OF assms(1), of t] in simp_all)

lemma lockExclusive_keeps:
  assumes inv: "gate_inv s" and at: "dg_at s t = Waiting j p" and ex: "pl_exclusive p"
    and free: "\<forall>u. stageGate (dg_at s u) = None"
  shows "gate_inv (moveTo t (Running j p) s)"
proof (rule gate_inv_forward [OF inv])
  have "planned j p" using inv_planned [OF inv, of t] at by simp
  note facts = planned_facts(1) [OF this ex]
  show "apart (Running j p) (dg_at s u)" for u
    using facts free [rule_format, of u] by (cases "dg_at s u") (auto simp: apart_def gateExclusive_def)
  show "current (dg_db s) (Running j p)" using facts by (simp add: current_def)
qed (simp add: at)

lemma lockKeys_keeps:
  assumes inv: "gate_inv s" and at: "dg_at s t = Gated j p"
    and grant: "specStep (ownKeys s) ((ownKeys s)(t := set (pl_keys p)))"
  shows "gate_inv (moveTo t (Keyed j p) s)"
proof (rule gate_inv_forward [OF inv])
  have "ownKeys s t = {}" using at by (simp add: ownKeys_def)
  then have free: "stageKeys (dg_at s u) \<inter> set (pl_keys p) = {}" if "u \<noteq> t" for u
    using specStep_grants [OF grant _ that] by (simp add: ownKeys_def)
  show "apart (Keyed j p) (dg_at s u)" if "u \<noteq> t" for u
    using gate_apart [OF inv that] free [OF that] at by (auto simp: apart_def gateExclusive_def)
qed (simp_all add: at)

lemma admit_keeps:
  assumes inv: "gate_inv s" and st: "admit s s'"
  shows "gate_inv s'"
  using st
proof cases
  case (arriveJob t d op members j p)
  then show ?thesis unfolding arriveJob(1) by (intro gate_inv_moveTo [OF inv]) (auto simp: planned_def)
next
  case (lockShared t j p)
  then show ?thesis unfolding lockShared(1)
    by (intro gate_inv_forward [OF inv]) (auto simp: apart_def gateExclusive_def)
next
  case (lockExclusive t j p)
  then show ?thesis using lockExclusive_keeps [OF inv] by blast
next
  case (lockKeys t j p)
  then show ?thesis using lockKeys_keeps [OF inv] by blast
next
  case (lockCreation t j p)
  then show ?thesis unfolding lockCreation(1)
    by (intro gate_inv_forward [OF inv]) (use gate_apart [OF inv, of _ t] in \<open>auto simp: apart_def gateExclusive_def\<close>)
next
  case (runDirect t j p)
  have "planned j p" using inv_planned [OF inv, of t] runDirect(2) by simp
  from planned_facts(2) [OF this] runDirect show ?thesis unfolding runDirect(1)
    by (intro gate_inv_forward [OF inv])
      (use gate_apart [OF inv, of _ t] in \<open>auto simp: apart_def gateExclusive_def current_def\<close>)
next
  case (runCurrent t j p op)
  have "store_inv (dg_db s)" using inv by (simp add: gate_inv_def)
  from recheck_current [OF this runCurrent(3,4)] runCurrent show ?thesis unfolding runCurrent(1)
    by (intro gate_inv_forward [OF inv])
      (use gate_apart [OF inv, of _ t] in \<open>auto simp: apart_def gateExclusive_def current_def\<close>)
next
  case (effect t j p d')
  then show ?thesis unfolding effect(1)
    using inv effect_current [OF inv effect(2,3)] by (simp add: gate_inv_def)
qed (auto intro: gate_inv_moveTo [OF inv])

lemma admitReach_inv: "admitReach s \<Longrightarrow> gate_inv s"
proof (induction rule: admitReach.induct)
  case (start d)
  then show ?case by (simp add: gate_inv_def)
qed (rule admit_keeps)

section \<open>What a caller that shares the gate has locked\<close>

lemma openSession_row:
  assumes "store_inv d" "opens d op" "openSession op sid = Some (db, s)"
  shows "ss_ID s = sid" and "GetSession d sid = Some s"
proof -
  show "GetSession d sid = Some s"
    using assms(2,3) by (auto simp: opens_def openSession_def storeView_sel split: sum.splits option.splits)
  then show "ss_ID s = sid" by (rule GetSession_id [OF assms(1)])
qed

lemma sessionScoped_id:
  assumes "store_inv d" "opens d op" "sessionScopedAction op a = Some sid"
  shows "sid = ac_ID a \<and> sid \<noteq> [] \<and> ac_Action a \<in> {ActionStart, ActionRestart, actionSessionRecreate, ActionSteer}"
  using assms openSession_row(1) [OF assms(1,2)]
  by (auto simp: sessionScopedAction_def split: if_splits option.splits)

lemma archiveScoped_id:
  assumes "store_inv d" "opens d op" "archiveScopedAction op a = Some (ids, creation)"
  shows "ac_ID a \<in> set ids \<and> ac_ID a \<noteq> [] \<and> (\<not> creation \<longrightarrow> ac_Action a = ActionRename)"
proof -
  have ids: "ac_ID a \<noteq> []" "sessionAndMembers op (ac_ID a) = (ids, True)" "\<not> creation \<longrightarrow> ac_Action a = ActionRename"
    using assms(3) by (auto simp: archiveScopedAction_def Let_def split: if_splits option.splits prod.splits)
  from ids(2) obtain db session where s: "openSession op (ac_ID a) = Some (db, session)" "ss_ID session \<in> set ids"
    by (auto simp: sessionAndMembers_def workgroupMembers_def split: option.splits if_splits sum.splits prod.splits)
  with openSession_row(1) [OF assms(1,2) s(1)] ids show ?thesis by simp
qed

text \<open>
  What a caller running beside a whole-workgroup archive may be doing: never to \<open>m\<close>, and never for
  \<open>m\<close>. A start of \<open>m\<close> itself can only be a workgroup start, which acts on the ids it locked.
\<close>

fun leavesAlone :: "string \<Rightarrow> job \<Rightarrow> bool" where
  "leavesAlone m (JobAction a guard) \<longleftrightarrow> guard \<noteq> m \<and>
     (ac_Action a \<in> {ActionRestart, actionSessionRecreate, ActionSteer, ActionRename} \<and> ac_ID a \<noteq> m \<or> ac_Action a = ActionStart)"
| "leavesAlone m (JobSession sid) \<longleftrightarrow> sid \<noteq> m"
| "leavesAlone m (JobSessions ids) \<longleftrightarrow> m \<notin> set ids"
| "leavesAlone m (JobArchive sid extra) \<longleftrightarrow> sid \<noteq> m \<and> m \<notin> set extra"

lemma handle_leavesAlone:
  assumes d: "store_inv d" "opens d op" and p: "handleAdmission op members a guard = Some q"
    and q: "\<not> pl_exclusive q" "\<not> pl_creation q" and m: "m \<noteq> []" "m \<notin> set (pl_keys q)"
  shows "leavesAlone m (JobAction a guard)"
  using p
proof (cases rule: handleAdmission_cases)
  case (session sid)
  with sessionScoped_id [OF d session(1)] m show ?thesis by (auto simp: admitSessions_def)
next
  case (archive ids creation)
  with archiveScoped_id [OF d archive(1)] q m show ?thesis by (auto simp: admitSessions_def)
next
  case (group ids)
  then show ?thesis using m by (auto simp: workgroupStart_def split: if_splits)
qed (use q in \<open>auto simp: admitSessions_def exclusivePlan_def\<close>)

lemma planned_leavesAlone:
  assumes "planned k q" "\<not> pl_exclusive q" "\<not> pl_creation q" "m \<noteq> []" "m \<notin> set (pl_keys q)"
  shows "leavesAlone m k"
proof -
  obtain d op members where d: "store_inv d" "opens d op" and q: "planOf op members k = Some q"
    using assms(1) by (auto simp: planned_def)
  show ?thesis
  proof (cases k)
    case (JobAction a guard)
    with q handle_leavesAlone [OF d _ assms(2-5)] show ?thesis by simp
  next
    case (JobArchive sid extra)
    obtain ids root found where wm: "workgroupMembers op sid = (ids, root, found)" by (cases "workgroupMembers op sid") auto
    have "sid \<in> set (if found then ids else [sid])"
    proof (cases found)
      case True
      with wm obtain db session where s: "openSession op sid = Some (db, session)" "ss_ID session \<in> set ids"
        by (auto simp: workgroupMembers_def split: option.splits if_splits sum.splits)
      with openSession_row(1) [OF d s(1)] True show ?thesis by simp
    qed simp
    with JobArchive q wm assms(4,5) show ?thesis
      by (auto simp: admitArchive_def admitSessions_def Let_def split: if_splits)
  qed (use q assms(4,5) in \<open>auto simp: admitSessions_def\<close>)
qed

section \<open>Properties\<close>

definition archiveGroup :: Action where
  "archiveGroup = \<lparr>ac_Action = ActionSetArchived, ac_ID = ''w'', ac_Target = [], ac_Query = [], ac_Fields = [(''archived'', ''true'')]\<rparr>"

definition startGroup :: "string \<Rightarrow> Action" where
  "startGroup sid = \<lparr>ac_Action = ActionStart, ac_ID = sid, ac_Target = [], ac_Query = [], ac_Fields = []\<rparr>"

definition archivePlan :: plan where
  "archivePlan = \<lparr>pl_exclusive = False, pl_keys = [''w'', ''m''], pl_creation = True, pl_recheck = Some (''w'', [''w'', ''m''])\<rparr>"

definition reportPlan :: plan where
  "reportPlan = \<lparr>pl_exclusive = False, pl_keys = [''x''], pl_creation = False, pl_recheck = None\<rparr>"

definition besideArchive :: daemonGate where
  "besideArchive = \<lparr>dg_db = sampleStore,
     dg_at = (\<lambda>_. Away)(0 := Running (JobAction archiveGroup []) archivePlan, 1 := Running (JobSession ''x'') reportPlan)\<rparr>"


lemma sampleChildren: "Children sampleStore ''w'' = [sampleSession ''m'' ''w'']"
  by (simp add: Children_def allRows_def sampleStore_eq sampleRoles)

abbreviation (input) "sampleOpen \<equiv> Inr (storeView noFault sampleStore)"

lemma sampleMembers: "workgroupMembers sampleOpen ''w'' = ([''w'', ''m''], True, True)"
  by (simp add: workgroupMembers_def openSession_def storeView_sel noFault_def sampleLookup sampleRoles sampleChildren)

lemma sampleOpens: "store_inv sampleStore" "opens sampleStore sampleOpen"
  using reached_inv [of sampleOps] by (auto simp: sampleStore_def opens_def)

lemma samplePlans:
  "planOf sampleOpen members (JobAction archiveGroup []) = Some archivePlan"
  "planOf sampleOpen members (JobSession ''x'') = Some reportPlan"
  by (simp_all add: archiveGroup_def archivePlan_def reportPlan_def handleAdmission_def sessionScopedAction_def archiveScopedAction_def
      sessionAndMembers_def sampleMembers admitSessions_def)

lemma besideArchive_reached: "admitReach besideArchive"
proof -
  let ?at = "\<lambda>f. \<lparr>dg_db = sampleStore, dg_at = f\<rparr>" and ?A = "JobAction archiveGroup []" and ?R = "JobSession ''x''"
  note defs = moveTo_def archivePlan_def reportPlan_def gateExclusive_def
  have step: "admitReach (?at (f(t := st)))" if "admitReach (?at f)" "admit (?at f) (moveTo t st (?at f))" for f t st
    using admitReach.more [OF that] by (simp add: moveTo_def)
  have go: "admitReach (?at (f(t := st)))"
    if "admitReach (?at (f(t := a)))" "admit (?at (f(t := a))) (moveTo t st (?at (f(t := a))))" for f t a st
    using admitReach.more [OF that] by (simp add: moveTo_def)
  have keys: "specStep (ownKeys (?at f)) ((ownKeys (?at f))(t := K))"
    if "\<forall>u. stageKeys (f u) \<inter> K = {}" "stageKeys (f t) = {}" for f t K
    using that by (intro specStep.grant) (simp_all add: ownKeys_def)
  have "admitReach (?at (\<lambda>_. Away))" by (rule admitReach.start) (rule sampleOpens)
  then have "admitReach (?at ((\<lambda>_. Away)(0 := Waiting ?A archivePlan)))"
    by (rule step) (rule admit.arriveJob [OF _ sampleOpens samplePlans(1)], simp)
  then have "admitReach (?at ((\<lambda>_. Away)(0 := Gated ?A archivePlan)))"
    by (rule go)
      (rule admit.lockShared, simp_all add: defs)
  then have "admitReach (?at ((\<lambda>_. Away)(0 := Keyed ?A archivePlan)))"
    by (rule go)
      (rule admit.lockKeys, simp, rule keys, simp_all)
  then have "admitReach (?at ((\<lambda>_. Away)(0 := Creating ?A archivePlan)))"
    by (rule go)
      (rule admit.lockCreation, simp_all add: defs)
  then have "admitReach (?at ((\<lambda>_. Away)(0 := Running ?A archivePlan)))"
    by (rule go)
      (rule admit.runCurrent [where op = sampleOpen], simp_all add: sampleOpens recheckPasses_def archivePlan_def
        sessionAndMembers_def sampleMembers sameMembers_def)
  then have "admitReach (?at ((\<lambda>_. Away)(0 := Running ?A archivePlan, 1 := Waiting ?R reportPlan)))"
    by (rule step) (rule admit.arriveJob [OF _ sampleOpens samplePlans(2)], simp)
  then have "admitReach (?at ((\<lambda>_. Away)(0 := Running ?A archivePlan, 1 := Gated ?R reportPlan)))"
    by (rule go)
      (rule admit.lockShared, simp_all add: defs)
  then have "admitReach (?at ((\<lambda>_. Away)(0 := Running ?A archivePlan, 1 := Keyed ?R reportPlan)))"
    by (rule go)
      (rule admit.lockKeys, simp, rule keys, simp_all add: defs)
  then have "admitReach (?at ((\<lambda>_. Away)(0 := Running ?A archivePlan, 1 := Running ?R reportPlan)))"
    by (rule go)
      (rule admit.runDirect, simp_all add: defs)
  then show ?thesis by (simp add: besideArchive_def)
qed




end
