(* ===== verification/Session_Discovery.thy ===== *)
theory Session_Discovery
  imports Session_Operation Access_Request
begin

text \<open>
  The paged listing of every agent session on the machine
  (\<^verbatim>\<open>internal/daemon/session_discovery.go\<close>) and the command that collects its pages
  (\<^verbatim>\<open>cmd/amux/agent.go\<close>).

  A row's modification time enters as the text \<^verbatim>\<open>time.Time\<close> marshals to, None where it refuses.
  The command's request is an argument of the loop: it answers a cursor with an error or a page.
  The loop itself may run for ever against a daemon that always has one more page, so it is a
  partial function, and that it returns is part of what is proved.
\<close>

section \<open>Rows and pages\<close>

record AgentSessionRow =
  aw_Harness :: string
  aw_ID :: string
  aw_Cwd :: string
  aw_Project :: string
  aw_Path :: string
  aw_Size :: int
  aw_Modified :: "string option"

record AgentSessionsPage =
  pg_Sessions :: "AgentSessionRow list"
  pg_NextCursor :: string

definition rowJSON :: "AgentSessionRow \<Rightarrow> string option" where
  "rowJSON row = (case aw_Modified row of
      None \<Rightarrow> None
    | Some t \<Rightarrow> Some (json_object [(''harness'', json_string (aw_Harness row)), (''id'', json_string (aw_ID row)),
        (''cwd'', json_string (aw_Cwd row)), (''project'', json_string (aw_Project row)), (''path'', json_string (aw_Path row)),
        (''size'', dec_int (aw_Size row)), (''modified'', json_string t)]))"

definition pageJSON :: "AgentSessionsPage \<Rightarrow> string option" where
  "pageJSON page = (
     if list_ex (\<lambda>row. rowJSON row = None) (pg_Sessions page) then None
     else Some (json_object
       ((''sessions'', if pg_Sessions page = [] then ''null''
           else json_array (map (\<lambda>row. the (rowJSON row)) (pg_Sessions page))) #
        (if pg_NextCursor page = [] then [] else [(''next_cursor'', json_string (pg_NextCursor page))]))))"

section \<open>The daemon's side\<close>

abbreviation (input) "MaxResponseBody \<equiv> MaxBodyBytes"

definition discoveryKey :: "AgentSessionRow \<Rightarrow> string" where
  "discoveryKey row = aw_Harness row @ CHR 0x00 # aw_Path row"

fun pageRows :: "string \<Rightarrow> AgentSessionRow list \<Rightarrow> nat \<Rightarrow> AgentSessionsPage \<Rightarrow> access_error + AgentSessionsPage" where
  "pageRows after [] sz page = Inr (page\<lparr>pg_NextCursor := []\<rparr>)"
| "pageRows after (row # rows) sz page = (
     let key = discoveryKey row
     in if key \<le> after then pageRows after rows sz page
        else (case rowJSON row of
            None \<Rightarrow> Inl (ErrIO ''json'')
          | Some encoded \<Rightarrow>
              let next = b64url_encode key
              in if length next > 16 * 2 ^ 10 \<or> length encoded + length next + 64 > MaxResponseBody
                 then Inl (ErrIO ''discovery row exceeds transport bound'')
                 else if sz + length encoded + length next > MaxResponseBody then Inr page
                 else pageRows after rows (sz + length encoded + 1)
                   \<lparr>pg_Sessions = pg_Sessions page @ [row], pg_NextCursor = next\<rparr>))"

definition discoveryPage :: "AgentSessionRow list \<Rightarrow> string \<Rightarrow> access_error + AgentSessionsPage" where
  "discoveryPage rows cursor =
     (case decodeDiscoveryCursor cursor of
        Inl e \<Rightarrow> Inl e
      | Inr after \<Rightarrow> pageRows after (sort_key discoveryKey rows) 64 \<lparr>pg_Sessions = [], pg_NextCursor = []\<rparr>)"

section \<open>The command's side\<close>

partial_function (option) collectPages ::
  "(string \<Rightarrow> access_error + AgentSessionsPage) \<Rightarrow> string \<Rightarrow> AgentSessionRow list \<Rightarrow> (access_error + AgentSessionRow list) option" where
  "collectPages request cursor rows =
     (case request cursor of
        Inl e \<Rightarrow> Some (Inl e)
      | Inr page \<Rightarrow>
          let rows = rows @ pg_Sessions page
          in if pg_NextCursor page = [] then Some (Inr rows)
             else if pg_NextCursor page = cursor \<or> pg_Sessions page = [] then Some (Inl (ErrIO ''invalid continuation''))
             else collectPages request (pg_NextCursor page) rows)"

section \<open>Cursors\<close>

lemma decode_cursor:
  assumes "count_list key CHR 0x00 = 1" "length (b64url_encode key) \<le> 16 * 2 ^ 10"
  shows "decodeDiscoveryCursor (b64url_encode key) = Inr key"
  using assms by (auto simp: decodeDiscoveryCursor_def b64url_decode_encode)

section \<open>Every page fits the response\<close>

definition rowsWeight :: "AgentSessionRow list \<Rightarrow> nat" where
  "rowsWeight rows = sum_list (map (\<lambda>row. Suc (length (the (rowJSON row)))) rows)"

definition pageFits :: "AgentSessionsPage \<Rightarrow> bool" where
  "pageFits page \<longleftrightarrow> list_all (\<lambda>row. rowJSON row \<noteq> None) (pg_Sessions page) \<and>
     (if pg_Sessions page = [] then pg_NextCursor page = []
      else rowsWeight (pg_Sessions page) + length (pg_NextCursor page) + 63 \<le> MaxResponseBody) \<and>
     (\<exists>key. pg_NextCursor page = b64url_encode key)"

lemma pageRows_fits:
  assumes "pageRows after rows sz page = Inr page'" "pageFits page" "sz = 64 + rowsWeight (pg_Sessions page)"
  shows "pageFits page'"
  using assms
proof (induction rows arbitrary: sz page)
  case Nil
  then show ?case by (auto simp: pageFits_def)
next
  case (Cons row rows)
  show ?case
  proof (cases "discoveryKey row \<le> after")
    case True
    with Cons show ?thesis by (simp add: Let_def)
  next
    case False
    let ?next = "b64url_encode (discoveryKey row)"
    from Cons.prems False obtain encoded where e: "rowJSON row = Some encoded"
      by (auto simp: Let_def split: option.splits)
    show ?thesis
    proof (cases "sz + length encoded + length ?next > MaxResponseBody")
      case True
      with Cons.prems False e show ?thesis by (auto simp: Let_def split: if_splits)
    next
      case fits: False
      with Cons.prems False e
      have "pageRows after rows (sz + length encoded + 1) \<lparr>pg_Sessions = pg_Sessions page @ [row], pg_NextCursor = ?next\<rparr> = Inr page'"
        by (auto simp: Let_def split: if_splits)
      then show ?thesis
        by (rule Cons.IH) (use Cons.prems fits e in \<open>auto simp: pageFits_def rowsWeight_def\<close>)
    qed
  qed
qed

lemma esc_plain: "list_all (\<lambda>c. 45 \<le> code c \<and> code c \<le> 122 \<and> code c \<notin> {60, 62, 92}) s \<Longrightarrow> esc s = s"
  by (induction s) (auto simp: is_ascii_def esc_ascii_def Let_def)

lemma b64url_plain: "list_all (\<lambda>c. 45 \<le> code c \<and> code c \<le> 122 \<and> code c \<notin> {60, 62, 92}) (b64url_encode s)"
proof -
  have "45 \<le> code (url_char c) \<and> code (url_char c) \<le> 122 \<and> code (url_char c) \<notin> {60, 62, 92}" if "c \<in> set (b64_encode s)" for c
  proof -
    from that set_b64_encode [of s] obtain d where d: "d < 64" "c = b64_digit d" by auto
    have "code c \<ge> 43 \<and> code c \<noteq> 44 \<and> code c \<noteq> 46 \<and> code c \<le> 122 \<and> code c \<notin> {60, 62, 92}"
      using d by (auto simp: code_def of_char_b64_digit)
    moreover have "code c = 43 \<longrightarrow> c = CHR ''+''"
    proof -
      have "b64_digit 62 = CHR ''+''" by code_simp
      then show ?thesis using d by (cases "d = 62") (auto simp: code_def of_char_b64_digit)
    qed
    ultimately show ?thesis by (auto simp: url_char_def code_def)
  qed
  then show ?thesis by (simp add: b64url_encode_def list_all_iff)
qed

lemma length_cursor_json: "length (json_string (b64url_encode s)) = length (b64url_encode s) + 2"
  by (simp add: json_string_def esc_plain [OF b64url_plain])

lemma pageJSON_fits:
  assumes fits: "pageFits page"
  shows "\<exists>body. pageJSON page = Some body \<and> length body \<le> MaxResponseBody"
proof -
  have names: "length (json_string ''sessions'') = 10" "length (json_string ''next_cursor'') = 13" by code_simp+
  have all: "\<not> list_ex (\<lambda>row. rowJSON row = None) (pg_Sessions page)"
    using fits by (auto simp: pageFits_def list_all_iff list_ex_iff)
  obtain key where key: "pg_NextCursor page = b64url_encode key" using fits by (auto simp: pageFits_def)
  let ?vs = "map (\<lambda>row. the (rowJSON row)) (pg_Sessions page)"
  show ?thesis
  proof (cases "pg_Sessions page = []")
    case True
    with fits all names show ?thesis by (simp add: pageJSON_def pageFits_def json_object_def MaxBodyBytes_def)
  next
    case False
    have "Suc (length (json_elements ?vs)) = rowsWeight (pg_Sessions page)"
      using length_elements [of ?vs] False by (simp add: rowsWeight_def o_def)
    moreover have "rowsWeight (pg_Sessions page) + length (pg_NextCursor page) + 63 \<le> MaxResponseBody"
      using fits False by (simp add: pageFits_def)
    ultimately show ?thesis using all False names length_cursor_json [of key] key
      by (auto simp: pageJSON_def json_object_def json_array_def)
  qed
qed

section \<open>The pages add up to the listing\<close>

definition rowFits :: "AgentSessionRow \<Rightarrow> bool" where
  "rowFits row \<longleftrightarrow> CHR 0x00 \<notin> set (aw_Harness row) \<and> CHR 0x00 \<notin> set (aw_Path row) \<and>
     (case rowJSON row of
        None \<Rightarrow> False
      | Some encoded \<Rightarrow> length (b64url_encode (discoveryKey row)) \<le> 16 * 2 ^ 10 \<and>
          length encoded + length (b64url_encode (discoveryKey row)) + 64 \<le> MaxResponseBody)"

definition listed :: "AgentSessionRow list \<Rightarrow> string \<Rightarrow> AgentSessionRow list" where
  "listed rows after = filter (\<lambda>row. after < discoveryKey row) (sort_key discoveryKey rows)"

lemma pageRows_skip:
  "\<forall>row \<in> set skip. discoveryKey row \<le> after \<Longrightarrow> pageRows after (skip @ rows) sz page = pageRows after rows sz page"
  by (induction skip) (auto simp: Let_def)

lemma pageRows_take:
  assumes "\<forall>row \<in> set rows. after < discoveryKey row \<and> rowFits row"
  shows "\<exists>k \<le> length rows. (sz = 64 \<and> rows \<noteq> [] \<longrightarrow> 0 < k) \<and>
    pageRows after rows sz page = Inr \<lparr>pg_Sessions = pg_Sessions page @ take k rows,
      pg_NextCursor = (if k = length rows then [] else if k = 0 then pg_NextCursor page
                       else b64url_encode (discoveryKey (rows ! (k - 1))))\<rparr>"
  using assms
proof (induction rows arbitrary: sz page)
  case Nil
  then show ?case by simp
next
  case (Cons row rows)
  let ?next = "b64url_encode (discoveryKey row)"
  from Cons.prems obtain encoded where e: "rowJSON row = Some encoded" "length ?next \<le> 16 * 2 ^ 10"
      "length encoded + length ?next + 64 \<le> MaxResponseBody" and above: "\<not> discoveryKey row \<le> after"
    by (auto simp: rowFits_def split: option.splits)
  show ?case
  proof (cases "sz + length encoded + length ?next > MaxResponseBody")
    case True
    with e above show ?thesis by (intro exI [of _ 0]) (simp add: Let_def)
  next
    case False
    let ?page = "\<lparr>pg_Sessions = pg_Sessions page @ [row], pg_NextCursor = ?next\<rparr>"
    obtain k where k: "k \<le> length rows" "pageRows after rows (sz + length encoded + 1) ?page =
        Inr \<lparr>pg_Sessions = pg_Sessions ?page @ take k rows,
          pg_NextCursor = (if k = length rows then [] else if k = 0 then pg_NextCursor ?page
                           else b64url_encode (discoveryKey (rows ! (k - 1))))\<rparr>"
      using Cons.IH [of "sz + length encoded + 1" ?page] Cons.prems by auto
    have "pageRows after (row # rows) sz page = pageRows after rows (sz + length encoded + 1) ?page"
      using False e above by (simp add: Let_def)
    with k show ?thesis by (intro exI [of _ "Suc k"]) (auto simp: nth_Cons')
  qed
qed

lemma sorted_split:
  fixes f :: "'a \<Rightarrow> 'b :: linorder"
  shows "sorted (map f xs) \<Longrightarrow> xs = filter (\<lambda>x. f x \<le> a) xs @ filter (\<lambda>x. a < f x) xs"
proof (induction xs)
  case (Cons x xs)
  show ?case
  proof (cases "f x \<le> a")
    case False
    with Cons.prems have "filter (\<lambda>x. f x \<le> a) xs = []" "filter (\<lambda>x. a < f x) xs = xs"
      by (auto simp: filter_empty_conv filter_id_conv)
    with False show ?thesis by simp
  qed (use Cons in auto)
qed simp

lemma filter_sorted_drop:
  fixes f :: "'a \<Rightarrow> 'b :: linorder"
  assumes "sorted_wrt (<) (map f xs)" "k < length xs"
  shows "filter (\<lambda>x. f (xs ! k) < f x) xs = drop (Suc k) xs"
proof -
  have inc: "f (xs ! i) < f (xs ! j)" if "i < j" "j < length xs" for i j
    using sorted_wrt_nth_less [OF assms(1), of i j] that by simp
  have "filter (\<lambda>x. f (xs ! k) < f x) (take (Suc k) xs) = []"
    using less_imp_le [OF inc [of _ k]] assms(2) by (auto simp: filter_empty_conv in_set_conv_nth less_Suc_eq not_less)
  moreover have "filter (\<lambda>x. f (xs ! k) < f x) (drop (Suc k) xs) = drop (Suc k) xs"
    using inc [of k] by (auto simp: filter_id_conv in_set_conv_nth)
  ultimately show ?thesis by (metis append_Nil append_take_drop_id filter_append)
qed

lemma key_NUL: "rowFits row \<Longrightarrow> count_list (discoveryKey row) CHR 0x00 = 1"
  by (simp add: rowFits_def discoveryKey_def count_notin)

lemma Nil_less_key: "[] < discoveryKey row"
  by (cases "aw_Harness row") (simp_all add: discoveryKey_def)

lemma listed_next:
  assumes "distinct (map discoveryKey rows)" "k < length (listed rows after)"
  shows "listed rows (discoveryKey (listed rows after ! k)) = drop (Suc k) (listed rows after)"
proof -
  let ?S = "sort_key discoveryKey rows" and ?R = "listed rows after"
  have "distinct (map discoveryKey ?S)"
    using assms(1) by (simp add: distinct_map)
  then have strict: "sorted_wrt (<) (map discoveryKey ?R)"
    unfolding listed_def by (auto simp: strict_sorted_iff sorted_filter distinct_map_filter)
  have "after < discoveryKey (?R ! k)" using nth_mem [OF assms(2)] by (auto simp: listed_def)
  then have "listed rows (discoveryKey (?R ! k)) = filter (\<lambda>x. discoveryKey (?R ! k) < discoveryKey x) ?R"
    unfolding listed_def by (auto intro: filter_cong)
  then show ?thesis using filter_sorted_drop [OF strict assms(2)] by simp
qed

lemma discoveryPage_from:
  assumes fits: "\<forall>row \<in> set rows. rowFits row" and cur: "decodeDiscoveryCursor cursor = Inr after"
  shows "\<exists>k \<le> length (listed rows after). (listed rows after \<noteq> [] \<longrightarrow> 0 < k) \<and>
    discoveryPage rows cursor = Inr \<lparr>pg_Sessions = take k (listed rows after),
      pg_NextCursor = (if k = length (listed rows after) then []
                       else b64url_encode (discoveryKey (listed rows after ! (k - 1))))\<rparr>"
proof -
  let ?S = "sort_key discoveryKey rows" and ?R = "listed rows after" and ?page = "\<lparr>pg_Sessions = [], pg_NextCursor = []\<rparr>"
  have split: "?S = filter (\<lambda>row. discoveryKey row \<le> after) ?S @ ?R"
    unfolding listed_def by (rule sorted_split) simp
  have "discoveryPage rows cursor = pageRows after (filter (\<lambda>row. discoveryKey row \<le> after) ?S @ ?R) 64 ?page"
    using cur split by (simp add: discoveryPage_def)
  also have "\<dots> = pageRows after ?R 64 ?page"
    by (rule pageRows_skip) auto
  finally have page: "discoveryPage rows cursor = pageRows after ?R 64 ?page" .
  have "\<forall>row \<in> set ?R. after < discoveryKey row \<and> rowFits row" using fits by (auto simp: listed_def)
  from pageRows_take [OF this, of 64 ?page] page show ?thesis by (auto split: if_splits)
qed

lemma collect_from:
  assumes dis: "distinct (map discoveryKey rows)" and fits: "\<forall>row \<in> set rows. rowFits row"
    and "decodeDiscoveryCursor cursor = Inr after"
  shows "collectPages (discoveryPage rows) cursor acc = Some (Inr (acc @ listed rows after))"
  using assms(3)
proof (induction "length (listed rows after)" arbitrary: cursor after acc rule: less_induct)
  case less
  let ?R = "listed rows after"
  obtain k where k: "k \<le> length ?R" "?R \<noteq> [] \<Longrightarrow> 0 < k"
    and page: "discoveryPage rows cursor = Inr \<lparr>pg_Sessions = take k ?R,
      pg_NextCursor = (if k = length ?R then [] else b64url_encode (discoveryKey (?R ! (k - 1))))\<rparr>"
    using discoveryPage_from [OF fits less.prems] by blast
  show ?case
  proof (cases "k = length ?R")
    case True
    then show ?thesis by (subst collectPages.simps) (simp add: page)
  next
    case False
    with k(1) have lt: "k < length ?R" by simp
    then have k': "0 < k" "k < length ?R" using k(2) by fastforce+
    define key where "key = discoveryKey (?R ! (k - 1))"
    have in': "?R ! (k - 1) \<in> set ?R" using k' by (intro nth_mem) simp
    then have row: "rowFits (?R ! (k - 1))" and above: "after < key"
      using fits by (auto simp: listed_def key_def)
    have dec: "decodeDiscoveryCursor (b64url_encode key) = Inr key"
      using row key_NUL [OF row] unfolding key_def
      by (intro decode_cursor) (auto simp: rowFits_def split: option.splits)
    have rest: "listed rows key = drop k ?R"
      using listed_next [OF dis, of "k - 1" after] k' by (simp add: key_def)
    have ne: "b64url_encode key \<noteq> []" "b64url_encode key \<noteq> cursor"
      using above dec less.prems by (auto simp: key_def discoveryKey_def)
    have page': "discoveryPage rows cursor = Inr \<lparr>pg_Sessions = take k ?R, pg_NextCursor = b64url_encode key\<rparr>"
      using page False by (simp add: key_def)
    have "take k ?R \<noteq> []" using k' by auto
    with ne have "collectPages (discoveryPage rows) cursor acc = collectPages (discoveryPage rows) (b64url_encode key) (acc @ take k ?R)"
      by (subst collectPages.simps) (simp add: page' Let_def)
    also have "\<dots> = Some (Inr ((acc @ take k ?R) @ listed rows key))"
      by (rule less.hyps [OF _ dec]) (use k' in \<open>simp add: rest\<close>)
    finally show ?thesis by (simp add: rest)
  qed
qed


definition sampleRow :: "string \<Rightarrow> AgentSessionRow" where
  "sampleRow path = \<lparr>aw_Harness = ''codex'', aw_ID = ''1'', aw_Cwd = ''/w'', aw_Project = ''p'', aw_Path = path, aw_Size = 7,
     aw_Modified = Some ''2026-01-02T03:04:05Z''\<rparr>"

lemma sampleRow_fits: "rowFits (sampleRow ''/a'')" "rowFits (sampleRow ''/b'')"
proof -
  have "rowJSON (sampleRow ''/a'') \<noteq> None \<and> length (the (rowJSON (sampleRow ''/a''))) < 200" by code_simp
  moreover have "rowJSON (sampleRow ''/b'') \<noteq> None \<and> length (the (rowJSON (sampleRow ''/b''))) < 200" by code_simp
  moreover have "length (b64url_encode (discoveryKey (sampleRow ''/a''))) < 30" by code_simp
  moreover have "length (b64url_encode (discoveryKey (sampleRow ''/b''))) < 30" by code_simp
  moreover have "CHR 0x00 \<notin> set (aw_Harness (sampleRow p))" "CHR 0x00 \<notin> set (aw_Path (sampleRow ''/a''))"
    "CHR 0x00 \<notin> set (aw_Path (sampleRow ''/b''))" for p
    by (simp_all add: sampleRow_def)
  ultimately show "rowFits (sampleRow ''/a'')" "rowFits (sampleRow ''/b'')"
    by (auto simp: rowFits_def MaxBodyBytes_def)
qed


end
