(* ===== verification/Direct_Store.thy ===== *)
theory Direct_Store
  imports Go_Json
begin

text \<open>
  The registry of the direct server (\<^verbatim>\<open>internal/direct/store.go\<close>): its records, the versions of
  its file, and the checks of \<^verbatim>\<open>authority.go\<close> and \<^verbatim>\<open>cloud.go\<close> that need no state.

  Times are seconds since the epoch and lifetimes are nanoseconds, both unbounded. SHA-256 in
  hexadecimal is the argument \<open>H\<close> of the definitions that hash a token. What a write of the
  registry does is its argument \<open>commitOutcome\<close>: saved; not committed; or renamed into place with
  the directory entry unsynced, when a crash may or may not keep it.
\<close>

section \<open>Records\<close>

record ResourceScope =
  sc_Kind :: string
  sc_Workgroups :: "string list"

record idemRecord =
  im_BodyHash :: string
  im_State :: string
  im_Boot :: string
  im_OK :: bool
  im_Code :: string
  im_Error :: string
  im_NewID :: string
  im_RootID :: string
  im_Affected :: "string list"
  im_At :: int
  im_CreationID :: string
  im_Verb :: string
  im_Async :: bool
  im_DispatchedAt :: int
  im_EndedAt :: int
  im_NewIncarnation :: string
  im_RootIncarnation :: string

abbreviation (input) idemAdmitted :: string where "idemAdmitted \<equiv> ''admitted''"
abbreviation (input) idemDone :: string where "idemDone \<equiv> ''done''"
abbreviation (input) idemUnknown :: string where "idemUnknown \<equiv> ''ambiguous''"

record grantRecord =
  gr_ClientID :: string
  gr_Label :: string
  gr_ClientKind :: string
  gr_Perms :: "string list"
  gr_Resource :: ResourceScope
  gr_IdentityGeneration :: string
  gr_CreatedAt :: int
  gr_AbsoluteExpiry :: int
  gr_IdleTTL :: int
  gr_LastRefreshAt :: int
  gr_RefreshHash :: string
  gr_UsedRefresh :: "string list"
  gr_RevokedAt :: int
  gr_RevokeReason :: string
  gr_Idem :: "(string, idemRecord) gomap"
  gr_Spent :: "(string, string) gomap"
  gr_Origin :: string
  gr_CloudRequester :: string

record codeRecord =
  co_Label :: string
  co_Perms :: "string list"
  co_Resource :: ResourceScope
  co_CreatedAt :: int
  co_ExpiresAt :: int
  co_ConsumedAt :: int
  co_ClientID :: string
  co_Origin :: string
  co_Challenge :: string
  co_PolicyGen :: nat
  co_Requester :: string
  co_ProviderID :: string
  co_IssueKey :: string
  co_Ticket :: bool

record cloudPolicy =
  cp_Enabled :: bool
  cp_Generation :: nat
  cp_Perms :: "string list"
  cp_Resource :: ResourceScope
  cp_OwnerPin :: string
  cp_ProviderPin :: string
  cp_MaxOutstanding :: int
  cp_MaxPerHour :: int
  cp_Issued :: "int list"
  cp_ChangedAt :: int
  cp_DisableReason :: string

record cloudIssue =
  ci_ReqHash :: string
  ci_CodeHash :: string
  ci_Code :: string
  ci_CreatedAt :: int
  ci_ExpiresAt :: int

record storeState =
  st_V :: int
  st_IdentityGeneration :: string
  st_Codes :: "(string, codeRecord) gomap"
  st_Grants :: "(string, grantRecord) gomap"
  st_Cloud :: "cloudPolicy option"
  st_CloudIssues :: "(string, cloudIssue) gomap"

datatype commitOutcome = Saved | NotCommitted | AmbiguousCommit bool

datatype direct_error =
    AuthInvalid
  | AuthExpired
  | AuthRevoked
  | Denied
  | InvalidCode
  | NoSuchRecord
  | Degraded
  | Closed
  | NoCapacity
  | CommitFailed commitOutcome
  | BadRequest string
  | CloudRefused string
  | Refused string

section \<open>Loading\<close>

definition stateVersion :: int where "stateVersion = 3"
definition stateVersionV2 :: int where "stateVersionV2 = 2"
definition stateVersionS1 :: int where "stateVersionS1 = 1"

definition emptyState :: storeState where
  "emptyState = \<lparr>st_V = stateVersion, st_IdentityGeneration = [], st_Codes = [], st_Grants = [], st_Cloud = None, st_CloudIssues = []\<rparr>"

text \<open>
  \<open>file\<close> is None where \<^verbatim>\<open>grants.json\<close> does not exist, and otherwise the decoded content. The
  answer says whether the file must be migrated.
\<close>

definition loadState :: "storeState option \<Rightarrow> direct_error + storeState \<times> bool" where
  "loadState content =
     (case content of
        None \<Rightarrow> Inr (emptyState, False)
      | Some st \<Rightarrow>
          if st_V st \<noteq> stateVersion \<and> list_ex (\<lambda>(k, g). gr_Spent g \<noteq> []) (st_Grants st)
          then Inl (Refused ''older file carries version 3 spent keys'')
          else if st_V st = stateVersion then Inr (st, False)
          else if st_V st = stateVersionV2 then Inr (st, True)
          else if st_V st = stateVersionS1 then
            (if st_Cloud st \<noteq> None \<or> st_CloudIssues st \<noteq> [] \<or>
                list_ex (\<lambda>(k, c). co_Origin c \<noteq> [] \<or> co_Challenge c \<noteq> []) (st_Codes st)
             then Inl (Refused ''version 1 file carries version 2 cloud data'') else Inr (st, True))
          else Inl (Refused ''unsupported version''))"

text \<open>An async creation that was admitted and never dispatched did not run; \<^verbatim>\<open>normalizeUndispatched\<close> says so.\<close>

abbreviation (input) "CodeUnavailable \<equiv> ''unavailable''"

definition undispatchedError :: string where
  "undispatchedError = ''the server stopped before the creation was sent; it did not run''"

definition undispatched :: "idemRecord \<Rightarrow> bool" where
  "undispatched r \<longleftrightarrow> im_State r = idemAdmitted \<and> im_Async r \<and> im_DispatchedAt r = 0"

definition settleUndispatched :: "int \<Rightarrow> idemRecord \<Rightarrow> idemRecord" where
  "settleUndispatched now r =
     (if undispatched r
      then r\<lparr>im_State := idemDone, im_OK := False, im_Code := CodeUnavailable, im_Error := undispatchedError, im_EndedAt := now\<rparr>
      else r)"

definition normalizeUndispatched :: "int \<Rightarrow> storeState \<Rightarrow> storeState \<times> bool" where
  "normalizeUndispatched now st =
     (st\<lparr>st_Grants := map (\<lambda>(k, g). (k, g\<lparr>gr_Idem := map (\<lambda>(k, r). (k, settleUndispatched now r)) (gr_Idem g)\<rparr>)) (st_Grants st)\<rparr>,
      list_ex (\<lambda>(k, g). list_ex (\<lambda>(k, r). undispatched r) (gr_Idem g)) (st_Grants st))"

section \<open>Permissions, scopes and labels\<close>

abbreviation (input) "PermRead \<equiv> ''read''"

definition Permissions :: "string list" where
  "Permissions = [PermRead, ''steer'', ''respond'', ''approve'', ''manage'', ''create'', ''accounts'']"

definition ValidatePerms :: "string list \<Rightarrow> direct_error + string list" where
  "ValidatePerms perms =
     (let trimmed = map TrimSpace perms
      in if \<not> list_all (\<lambda>p. p \<in> set Permissions) trimmed then Inl (Refused ''unknown permission'')
         else if PermRead \<notin> set trimmed then Inl (Refused ''permissions must include read'')
         else Inr (filter (\<lambda>p. p \<in> set trimmed) Permissions))"

abbreviation (input) "ResourceAllSessions \<equiv> ''all_sessions''"
abbreviation (input) "ResourceWorkgroups \<equiv> ''workgroups''"
abbreviation (input) "DirectConsoleID \<equiv> ''console''"

text \<open>\<^verbatim>\<open>utf8.ValidString\<close>.\<close>

function valid_utf8 :: "string \<Rightarrow> bool" where
  "valid_utf8 [] \<longleftrightarrow> True"
| "valid_utf8 (c # s) \<longleftrightarrow>
     (if is_ascii c then valid_utf8 s
      else (case utf8_tail c s of None \<Rightarrow> False | Some n \<Rightarrow> valid_utf8 (drop n s)))"
  by pat_completeness auto
termination by (relation "measure length") auto

definition validSessionID :: "string \<Rightarrow> bool" where
  "validSessionID sid \<longleftrightarrow> sid \<noteq> [] \<and> length sid \<le> 256 \<and> sid \<noteq> ''.'' \<and> sid \<noteq> ''..'' \<and> valid_utf8 sid \<and>
     list_all (\<lambda>c. c \<noteq> CHR ''/'' \<and> c \<noteq> CHR 0x5C \<and> c \<noteq> CHR 0x00) sid \<and> \<not> sublist ''://'' sid"

definition ValidateResource :: "ResourceScope \<Rightarrow> direct_error + ResourceScope" where
  "ValidateResource r =
     (if sc_Kind r = ResourceAllSessions then
        (if sc_Workgroups r \<noteq> [] then Inl (Refused ''all_sessions takes no workgroups'')
         else Inr \<lparr>sc_Kind = ResourceAllSessions, sc_Workgroups = []\<rparr>)
      else if sc_Kind r = ResourceWorkgroups then
        (if sc_Workgroups r = [] then Inl (Refused ''workgroups scope needs at least one workgroup id'')
         else if \<not> list_all validSessionID (sc_Workgroups r) then Inl (Refused ''invalid workgroup id'')
         else if DirectConsoleID \<in> set (sc_Workgroups r) then Inl (Refused ''the console cannot be granted'')
         else Inr \<lparr>sc_Kind = ResourceWorkgroups, sc_Workgroups = remdups_adj (sort (sc_Workgroups r))\<rparr>)
      else Inl (Refused ''resource scope must be all_sessions or workgroups''))"

definition MaxLabelLen :: nat where "MaxLabelLen = 64"

definition validLabel :: "string \<Rightarrow> direct_error option" where
  "validLabel label =
     (if label = [] \<or> length label > MaxLabelLen then Some (Refused ''label must be 1-64 bytes'')
      else if list_ex (\<lambda>c. code c < 0x20 \<or> code c = 0x7F) label then Some (Refused ''label must not contain control characters'')
      else None)"

definition withinCeiling :: "ResourceScope \<Rightarrow> ResourceScope \<Rightarrow> bool" where
  "withinCeiling req ceiling =
     (if sc_Kind ceiling = ResourceAllSessions then True
      else if sc_Kind ceiling = ResourceWorkgroups then
        sc_Kind req = ResourceWorkgroups \<and> list_all (\<lambda>w. w \<in> set (sc_Workgroups ceiling)) (sc_Workgroups req)
      else False)"

end
