(* ===== verification/Direct_Authority.thy ===== *)
theory Direct_Authority
  imports Direct_Store
begin

text \<open>
  The authority of the direct server (\<^verbatim>\<open>internal/direct/authority.go\<close>, \<^verbatim>\<open>cloud.go\<close> and
  \<^verbatim>\<open>creations_authority.go\<close>): enrollment codes, grants, tokens, leases, the idempotency records
  and the cloud issuance policy.

  Every operation of the source holds \<^verbatim>\<open>a.mu\<close> throughout, so each is one function from the
  authority to the authority and its answer. The clock reading, the random tokens and what each
  write of the registry does are arguments. \<open>au_disk\<close> is the registry a restart would read.
  A lease is named by a number; \<open>au_ended\<close> holds the cause of each one whose revocation context
  has ended. Waiting for leases to drain changes nothing and is left out.
\<close>

section \<open>State\<close>

record Lifetimes =
  lf_Access :: int
  lf_Idle :: int
  lf_Absolute :: int

definition second :: int where "second = 1000000000"

definition MaxAccessTTL :: int where "MaxAccessTTL = 600 * second"
definition DefaultIdleTTL :: int where "DefaultIdleTTL = 30 * 86400 * second"
definition DefaultAbsoluteTT :: int where "DefaultAbsoluteTT = 90 * 86400 * second"
definition DefaultCodeTTL :: int where "DefaultCodeTTL = 600 * second"
definition MaxCodeTTL :: int where "MaxCodeTTL = 3600 * second"
definition idemRetention :: int where "idemRetention = 86400"
definition revokedRetention :: int where "revokedRetention = 30 * 86400"
definition maxUsedRefresh :: nat where "maxUsedRefresh = 20000"
definition maxIdemPerGrant :: nat where "maxIdemPerGrant = 1024"
definition maxSpentPerGrant :: nat where "maxSpentPerGrant = 16384"

definition pickLifetime :: "int \<Rightarrow> int \<Rightarrow> direct_error + int" where
  "pickLifetime v def = (if v = 0 then Inr def else if v < 0 \<or> v > def then Inl (Refused ''lifetime out of range'') else Inr v)"

definition resolveLifetimes :: "Lifetimes \<Rightarrow> direct_error + Lifetimes" where
  "resolveLifetimes l =
     (case pickLifetime (lf_Access l) MaxAccessTTL of Inl e \<Rightarrow> Inl e | Inr acc \<Rightarrow>
     (case pickLifetime (lf_Idle l) DefaultIdleTTL of Inl e \<Rightarrow> Inl e | Inr idle \<Rightarrow>
     (case pickLifetime (lf_Absolute l) DefaultAbsoluteTT of Inl e \<Rightarrow> Inl e | Inr absl \<Rightarrow>
        Inr \<lparr>lf_Access = acc, lf_Idle = idle, lf_Absolute = absl\<rparr>)))"

record Lease =
  ls_id :: nat
  ls_ClientID :: string
  ls_Perms :: "string list"
  ls_Resource :: ResourceScope
  ls_ExpiresAt :: int

record Authority =
  au_state :: storeState
  au_disk :: "storeState option"
  au_identity :: string
  au_diskIdentity :: "string option"
  au_life :: Lifetimes
  au_boot :: string
  au_access :: "(string, string \<times> int) gomap"
  au_tomb :: "(string, int) gomap"
  au_running :: "(string \<times> string) list"
  au_leases :: "Lease list"
  au_ended :: "(nat, direct_error) gomap"
  au_closed :: bool
  au_degraded :: bool

definition modState :: "(storeState \<Rightarrow> storeState) \<Rightarrow> Authority \<Rightarrow> Authority" where
  "modState f a = a\<lparr>au_state := f (au_state a)\<rparr>"

definition putGrant :: "grantRecord \<Rightarrow> Authority \<Rightarrow> Authority" where
  "putGrant g = modState (\<lambda>st. st\<lparr>st_Grants := mput (gr_ClientID g) g (st_Grants st)\<rparr>)"

definition delGrant :: "string \<Rightarrow> Authority \<Rightarrow> Authority" where
  "delGrant cid = modState (\<lambda>st. st\<lparr>st_Grants := mdel cid (st_Grants st)\<rparr>)"

definition putCode :: "string \<Rightarrow> codeRecord \<Rightarrow> Authority \<Rightarrow> Authority" where
  "putCode h c = modState (\<lambda>st. st\<lparr>st_Codes := mput h c (st_Codes st)\<rparr>)"

definition delCode :: "string \<Rightarrow> Authority \<Rightarrow> Authority" where
  "delCode h = modState (\<lambda>st. st\<lparr>st_Codes := mdel h (st_Codes st)\<rparr>)"

abbreviation grantOf :: "Authority \<Rightarrow> string \<Rightarrow> grantRecord option" where
  "grantOf a cid \<equiv> map_of (st_Grants (au_state a)) cid"

abbreviation codeOf :: "Authority \<Rightarrow> string \<Rightarrow> codeRecord option" where
  "codeOf a h \<equiv> map_of (st_Codes (au_state a)) h"

definition commitLocked :: "commitOutcome \<Rightarrow> Authority \<Rightarrow> Authority \<times> direct_error option" where
  "commitLocked io a =
     (case io of
        Saved \<Rightarrow> (a\<lparr>au_disk := Some (au_state a)\<rparr>, None)
      | NotCommitted \<Rightarrow> (a, Some (CommitFailed NotCommitted))
      | AmbiguousCommit kept \<Rightarrow>
          (a\<lparr>au_disk := (if kept then Some (au_state a) else au_disk a), au_degraded := True\<rparr>, Some (CommitFailed io)))"

definition rolledBack :: "direct_error \<Rightarrow> bool" where
  "rolledBack e \<longleftrightarrow> e = CommitFailed NotCommitted"

definition issuableLocked :: "Authority \<Rightarrow> direct_error option" where
  "issuableLocked a = (if au_closed a then Some Closed else if au_degraded a then Some Degraded else None)"

section \<open>Cloud replay material and pruning\<close>

definition takeReplayLocked :: "codeRecord \<Rightarrow> storeState \<Rightarrow> storeState \<times> string" where
  "takeReplayLocked rec st =
     (if co_IssueKey rec = [] then (st, [])
      else (case map_of (st_CloudIssues st) (co_IssueKey rec) of
          None \<Rightarrow> (st, [])
        | Some is \<Rightarrow> (st\<lparr>st_CloudIssues := mput (co_IssueKey rec) (is\<lparr>ci_Code := []\<rparr>) (st_CloudIssues st)\<rparr>, ci_Code is)))"

definition restoreReplayLocked :: "codeRecord \<Rightarrow> string \<Rightarrow> storeState \<Rightarrow> storeState" where
  "restoreReplayLocked rec secret st =
     (case map_of (st_CloudIssues st) (co_IssueKey rec) of
        None \<Rightarrow> st
      | Some is \<Rightarrow> if secret \<noteq> [] then st\<lparr>st_CloudIssues := mput (co_IssueKey rec) (is\<lparr>ci_Code := secret\<rparr>) (st_CloudIssues st)\<rparr> else st)"

definition cloudIssueRetention :: int where "cloudIssueRetention = 86400"
definition cloudRateWindow :: int where "cloudRateWindow = 3600"

definition pruneCloudLocked :: "int \<Rightarrow> storeState \<Rightarrow> storeState" where
  "pruneCloudLocked now st =
     st\<lparr>st_CloudIssues := mkeep (\<lambda>k is. \<not> (now > ci_ExpiresAt is + cloudIssueRetention \<and> map_of (st_Codes st) (ci_CodeHash is) = None))
          (map (\<lambda>(k, is). (k, if now \<ge> ci_ExpiresAt is then is\<lparr>ci_Code := []\<rparr> else is)) (st_CloudIssues st)),
        st_Cloud := map_option (\<lambda>c. c\<lparr>cp_Issued := filter (\<lambda>t. t > now - cloudRateWindow) (cp_Issued c)\<rparr>) (st_Cloud st)\<rparr>"

definition pruneCodes :: "int \<Rightarrow> storeState \<Rightarrow> storeState" where
  "pruneCodes now st =
     (let st = fold (\<lambda>(h, c) st. if now \<ge> co_ExpiresAt c then fst (takeReplayLocked c st) else st) (st_Codes st) st
      in st\<lparr>st_Codes := mkeep (\<lambda>h c. \<not> now > co_ExpiresAt c + 86400) (st_Codes st)\<rparr>)"

definition pruneLocked :: "int \<Rightarrow> Authority \<Rightarrow> Authority" where
  "pruneLocked now a =
     (let st = pruneCloudLocked now (pruneCodes now (au_state a));
          st = st\<lparr>st_Grants := mkeep (\<lambda>cid g. \<not> (gr_RevokedAt g \<noteq> 0 \<and> now > gr_RevokedAt g + revokedRetention \<and>
                   \<not> list_ex (\<lambda>l. ls_ClientID l = cid) (au_leases a))) (st_Grants st)\<rparr>
      in a\<lparr>au_state := st, au_tomb := mkeep (\<lambda>h exp. \<not> now > exp) (au_tomb a),
           au_access := mkeep (\<lambda>h rec. \<not> now > snd rec + 3600) (au_access a)\<rparr>)"

section \<open>Enrollment codes\<close>

definition codeRecordOf :: "string \<Rightarrow> string list \<Rightarrow> ResourceScope \<Rightarrow> int \<Rightarrow> int \<Rightarrow> codeRecord" where
  "codeRecordOf label perms resource now exp =
     \<lparr>co_Label = label, co_Perms = perms, co_Resource = resource, co_CreatedAt = now, co_ExpiresAt = exp, co_ConsumedAt = 0,
      co_ClientID = [], co_Origin = [], co_Challenge = [], co_PolicyGen = 0, co_Requester = [], co_ProviderID = [], co_IssueKey = [],
      co_Ticket = False\<rparr>"

text \<open>
  \<open>secret\<close> is the code, the base64 of 32 random bytes. The answer is the code and its expiry.
\<close>

definition NewCode ::
  "(string \<Rightarrow> string) \<Rightarrow> int \<Rightarrow> string \<Rightarrow> commitOutcome \<Rightarrow> string \<Rightarrow> string list \<Rightarrow> ResourceScope \<Rightarrow> int \<Rightarrow> Authority \<Rightarrow>
   Authority \<times> (direct_error + string \<times> int)" where
  "NewCode H now secret io label perms resource ttl a =
     (let ttl = (if ttl = 0 then DefaultCodeTTL else ttl)
      in if ttl < 0 \<or> ttl > MaxCodeTTL then (a, Inl (Refused ''code lifetime''))
         else case validLabel label of Some e \<Rightarrow> (a, Inl e) | None \<Rightarrow>
        (case ValidatePerms perms of Inl e \<Rightarrow> (a, Inl e) | Inr perms \<Rightarrow>
        (case ValidateResource resource of Inl e \<Rightarrow> (a, Inl e) | Inr resource \<Rightarrow>
        (case issuableLocked a of Some e \<Rightarrow> (a, Inl e) | None \<Rightarrow>
          let exp = now + ttl div second;
              rec = codeRecordOf label perms resource now exp;
              a1 = putCode (H secret) rec (pruneLocked now a)
          in case commitLocked io a1 of
               (a2, None) \<Rightarrow> (a2, Inr (secret, exp))
             | (a2, Some e) \<Rightarrow>
                 if rolledBack e then (delCode (H secret) a2, Inl e)
                 else (putCode (H secret) (rec\<lparr>co_ConsumedAt := now\<rparr>) a2, Inl e)))))"

section \<open>The cloud policy\<close>

abbreviation (input) OriginCloud :: string where "OriginCloud \<equiv> ''cloud''"
abbreviation (input) "CodeChallengeMethodS256 \<equiv> ''S256''"
abbreviation (input) HandoffDeviceTicket :: string where "HandoffDeviceTicket \<equiv> ''device_ticket''"

definition CloudCodeTTL :: int where "CloudCodeTTL = 300"
definition DefaultCloudOutstanding :: int where "DefaultCloudOutstanding = 3"
definition MaxCloudOutstanding :: int where "MaxCloudOutstanding = 20"
definition DefaultCloudPerHour :: int where "DefaultCloudPerHour = 10"
definition MaxCloudPerHour :: int where "MaxCloudPerHour = 60"
definition MaxCloudIssueKeyLen :: nat where "MaxCloudIssueKeyLen = 128"
definition MaxCloudPrincipalLen :: nat where "MaxCloudPrincipalLen = 128"
definition maxCloudIssues :: nat where "maxCloudIssues = 4096"

record CloudPolicyRequest =
  pr_Permissions :: "string list"
  pr_Resource :: ResourceScope
  pr_OwnerPin :: string
  pr_ProviderPin :: string
  pr_MaxOutstanding :: int
  pr_MaxPerHour :: int

record CloudIssueRequest =
  cq_IssueKey :: string
  cq_Requester :: string
  cq_ProviderID :: string
  cq_CodeChallenge :: string
  cq_CodeChallengeMethod :: string
  cq_Permissions :: "string list"
  cq_Resource :: ResourceScope
  cq_Label :: string
  cq_Handoff :: string

definition validPrincipal :: "string \<Rightarrow> bool" where
  "validPrincipal s \<longleftrightarrow> s \<noteq> [] \<and> length s \<le> MaxCloudPrincipalLen \<and> list_all (\<lambda>c. \<not> (code c \<le> 0x20 \<or> code c = 0x7F)) s"

definition ValidVerifier :: "string \<Rightarrow> bool" where
  "ValidVerifier v \<longleftrightarrow> 43 \<le> length v \<and> length v \<le> 128 \<and>
     list_all (\<lambda>c. (65 \<le> code c \<and> code c \<le> 90) \<or> (97 \<le> code c \<and> code c \<le> 122) \<or> is_digit c \<or> c = CHR ''-'' \<or> c = CHR ''.'' \<or>
       c = CHR ''_'' \<or> c = CHR ''~'') v"

text \<open>\<open>D\<close> is SHA-256 itself, as bytes.\<close>

definition S256Challenge :: "(string \<Rightarrow> string) \<Rightarrow> string \<Rightarrow> string" where
  "S256Challenge D verifier = b64url_encode (D verifier)"

definition validNonce :: "string \<Rightarrow> bool" where
  "validNonce s = (case b64url_decode s of None \<Rightarrow> False | Some b \<Rightarrow> length b = 32 \<and> b64url_encode b = s)"

definition pickBound :: "int \<Rightarrow> int \<Rightarrow> int \<Rightarrow> direct_error + int" where
  "pickBound v def mx = (if v = 0 then Inr def else if v < 0 \<or> v > mx then Inl (Refused ''bound'') else Inr v)"

definition normalizePolicy :: "CloudPolicyRequest \<Rightarrow> direct_error + cloudPolicy" where
  "normalizePolicy req =
     (case ValidatePerms (pr_Permissions req) of Inl e \<Rightarrow> Inl e | Inr perms \<Rightarrow>
     (case ValidateResource (pr_Resource req) of Inl e \<Rightarrow> Inl e | Inr res \<Rightarrow>
      if \<not> validPrincipal (pr_OwnerPin req) then Inl (Refused ''owner pin'')
      else if \<not> validPrincipal (pr_ProviderPin req) then Inl (Refused ''provider pin'')
      else (case pickBound (pr_MaxOutstanding req) DefaultCloudOutstanding MaxCloudOutstanding of Inl e \<Rightarrow> Inl e | Inr out \<Rightarrow>
           (case pickBound (pr_MaxPerHour req) DefaultCloudPerHour MaxCloudPerHour of Inl e \<Rightarrow> Inl e | Inr hour \<Rightarrow>
              Inr \<lparr>cp_Enabled = True, cp_Generation = 0, cp_Perms = perms, cp_Resource = res, cp_OwnerPin = pr_OwnerPin req,
                   cp_ProviderPin = pr_ProviderPin req, cp_MaxOutstanding = out, cp_MaxPerHour = hour, cp_Issued = [],
                   cp_ChangedAt = 0, cp_DisableReason = []\<rparr>))))"

definition cloudGenLocked :: "storeState \<Rightarrow> nat" where
  "cloudGenLocked st = (case st_Cloud st of None \<Rightarrow> 0 | Some c \<Rightarrow> cp_Generation c)"

definition EnableCloud :: "int \<Rightarrow> commitOutcome \<Rightarrow> CloudPolicyRequest \<Rightarrow> Authority \<Rightarrow> Authority \<times> direct_error option" where
  "EnableCloud now io req a =
     (case normalizePolicy req of Inl e \<Rightarrow> (a, Some e) | Inr nxt \<Rightarrow>
     (case issuableLocked a of Some e \<Rightarrow> (a, Some e) | None \<Rightarrow>
        let prev = st_Cloud (au_state a);
            nxt = nxt\<lparr>cp_Generation := cloudGenLocked (au_state a) + 1, cp_ChangedAt := now,
                      cp_Issued := (case prev of None \<Rightarrow> [] | Some c \<Rightarrow> cp_Issued c)\<rparr>
        in case commitLocked io (modState (\<lambda>st. st\<lparr>st_Cloud := Some nxt\<rparr>) a) of
             (a2, None) \<Rightarrow> (a2, None)
           | (a2, Some e) \<Rightarrow> (if rolledBack e then modState (\<lambda>st. st\<lparr>st_Cloud := prev\<rparr>) a2 else a2, Some e)))"

definition consumeCloudCodes :: "int \<Rightarrow> storeState \<Rightarrow> storeState" where
  "consumeCloudCodes now st =
     (let st = fold (\<lambda>(h, c) st. if co_Origin c = OriginCloud then fst (takeReplayLocked c st) else st) (st_Codes st) st
      in st\<lparr>st_Codes := map (\<lambda>(h, c). (h, if co_Origin c = OriginCloud \<and> co_ConsumedAt c = 0 then c\<lparr>co_ConsumedAt := now\<rparr> else c)) (st_Codes st)\<rparr>)"

definition disableCloudLocked :: "string \<Rightarrow> int \<Rightarrow> storeState \<Rightarrow> storeState" where
  "disableCloudLocked reason now st =
     (case st_Cloud st of
        None \<Rightarrow> st
      | Some c \<Rightarrow> consumeCloudCodes now
          (st\<lparr>st_Cloud := Some (if cp_Enabled c
             then c\<lparr>cp_Enabled := False, cp_Generation := cp_Generation c + 1, cp_ChangedAt := now, cp_DisableReason := reason\<rparr>
             else c)\<rparr>))"

definition DisableCloud :: "int \<Rightarrow> commitOutcome \<Rightarrow> string \<Rightarrow> Authority \<Rightarrow> Authority \<times> direct_error option" where
  "DisableCloud now io reason a = commitLocked io (modState (disableCloudLocked reason now) a)"

definition issuedSince :: "int list \<Rightarrow> int \<Rightarrow> int" where
  "issuedSince issued now = int (length (filter (\<lambda>t. t > now - cloudRateWindow) issued))"

definition cloudOutstandingLocked :: "int \<Rightarrow> storeState \<Rightarrow> int" where
  "cloudOutstandingLocked now st =
     int (length (filter (\<lambda>(h, c). co_Origin c = OriginCloud \<and> co_ConsumedAt c = 0 \<and> now < co_ExpiresAt c \<and>
       co_PolicyGen c = cloudGenLocked st) (st_Codes st)))"

definition cloudReqText :: "CloudIssueRequest \<Rightarrow> string" where
  "cloudReqText req =
     json_object [(''R'', json_string (cq_Requester req)), (''P'', json_string (cq_ProviderID req)),
       (''C'', json_string (cq_CodeChallenge req)), (''M'', json_string (cq_CodeChallengeMethod req)),
       (''L'', json_string (cq_Label req)), (''Perms'', json_array (map json_string (cq_Permissions req))),
       (''Res'', json_object ((''kind'', json_string (sc_Kind (cq_Resource req))) #
          (if sc_Workgroups (cq_Resource req) = [] then []
           else [(''workgroups'', json_array (map json_string (sc_Workgroups (cq_Resource req))))])))] @
     (if cq_Handoff req = [] then [] else CHR 0x00 # ''handoff='' @ cq_Handoff req)"

definition cloudReqHash :: "(string \<Rightarrow> string) \<Rightarrow> CloudIssueRequest \<Rightarrow> string" where
  "cloudReqHash H req = H (cloudReqText req)"

text \<open>The challenge check, by handoff: whether the code is a device ticket.\<close>

definition handoffTicket :: "CloudIssueRequest \<Rightarrow> direct_error + bool" where
  "handoffTicket req =
     (if cq_Handoff req = [] then
        (if cq_CodeChallengeMethod req \<noteq> CodeChallengeMethodS256 \<or> \<not> validNonce (cq_CodeChallenge req)
         then Inl (CloudRefused ''invalid_challenge'') else Inr False)
      else if cq_Handoff req = HandoffDeviceTicket then
        (if cq_CodeChallenge req \<noteq> [] \<or> cq_CodeChallengeMethod req \<noteq> []
         then Inl (CloudRefused ''invalid_challenge'') else Inr True)
      else Inl (CloudRefused ''invalid_request''))"

text \<open>The checks 2 to 7: the normalized request and whether it is a ticket.\<close>

definition cloudAdmits :: "cloudPolicy option \<Rightarrow> CloudIssueRequest \<Rightarrow> direct_error + cloudPolicy \<times> CloudIssueRequest \<times> bool" where
  "cloudAdmits cloud req =
     (case cloud of
        None \<Rightarrow> Inl (CloudRefused ''cloud_disabled'')
      | Some c \<Rightarrow>
          if \<not> cp_Enabled c then Inl (CloudRefused ''cloud_disabled'')
          else if cq_Requester req \<noteq> cp_OwnerPin c then Inl (CloudRefused ''owner_mismatch'')
          else if cq_ProviderID req \<noteq> cp_ProviderPin c then Inl (CloudRefused ''provider_mismatch'')
          else (case handoffTicket req of Inl e \<Rightarrow> Inl e | Inr ticket \<Rightarrow>
               (case ValidatePerms (cq_Permissions req) of Inl e \<Rightarrow> Inl (CloudRefused ''invalid_request'') | Inr perms \<Rightarrow>
                  if \<not> list_all (\<lambda>p. p \<in> set (cp_Perms c)) perms then Inl (CloudRefused ''scope_exceeds_ceiling'')
                  else (case ValidateResource (cq_Resource req) of Inl e \<Rightarrow> Inl (CloudRefused ''invalid_request'') | Inr res \<Rightarrow>
                     if \<not> withinCeiling res (cp_Resource c) then Inl (CloudRefused ''scope_exceeds_ceiling'')
                     else Inr (c, req\<lparr>cq_Permissions := perms, cq_Resource := res\<rparr>, ticket)))))"

definition cloudCodeRecord :: "(string \<Rightarrow> string) \<Rightarrow> int \<Rightarrow> cloudPolicy \<Rightarrow> CloudIssueRequest \<Rightarrow> bool \<Rightarrow> codeRecord" where
  "cloudCodeRecord H now c req ticket =
     \<lparr>co_Label = cq_Label req, co_Perms = cq_Permissions req, co_Resource = cq_Resource req, co_CreatedAt = now,
      co_ExpiresAt = now + CloudCodeTTL, co_ConsumedAt = 0, co_ClientID = [], co_Origin = OriginCloud,
      co_Challenge = cq_CodeChallenge req, co_PolicyGen = cp_Generation c, co_Requester = cq_Requester req,
      co_ProviderID = cq_ProviderID req, co_IssueKey = H (cq_IssueKey req), co_Ticket = ticket\<rparr>"

definition mintCloudCode ::
  "(string \<Rightarrow> string) \<Rightarrow> int \<Rightarrow> string \<Rightarrow> commitOutcome \<Rightarrow> cloudPolicy \<Rightarrow> CloudIssueRequest \<Rightarrow> bool \<Rightarrow> Authority \<Rightarrow>
   Authority \<times> (direct_error + string \<times> int)" where
  "mintCloudCode H now secret io c req ticket a =
     (let keyHash = H (cq_IssueKey req); codeHash = H secret;
          exp = now + CloudCodeTTL;
          rec = cloudCodeRecord H now c req ticket;
          is = \<lparr>ci_ReqHash = cloudReqHash H req, ci_CodeHash = codeHash, ci_Code = secret, ci_CreatedAt = now, ci_ExpiresAt = exp\<rparr>;
          prevIssued = (case st_Cloud (au_state a) of None \<Rightarrow> [] | Some c \<Rightarrow> cp_Issued c);
          setIssued = (\<lambda>ts st. st\<lparr>st_Cloud := map_option (\<lambda>c. c\<lparr>cp_Issued := ts\<rparr>) (st_Cloud st)\<rparr>);
          a1 = modState (\<lambda>st. setIssued (prevIssued @ [now])
                 (st\<lparr>st_Codes := mput codeHash rec (st_Codes st), st_CloudIssues := mput keyHash is (st_CloudIssues st)\<rparr>)) a
      in case commitLocked io a1 of
           (a2, None) \<Rightarrow> (a2, Inr (secret, exp))
         | (a2, Some e) \<Rightarrow>
             if rolledBack e then
               (modState (\<lambda>st. setIssued prevIssued
                  (st\<lparr>st_Codes := mdel codeHash (st_Codes st), st_CloudIssues := mdel keyHash (st_CloudIssues st)\<rparr>)) a2,
                Inl (CloudRefused ''unavailable''))
             else
               (modState (\<lambda>st. st\<lparr>st_Codes := mput codeHash (rec\<lparr>co_ConsumedAt := now\<rparr>) (st_Codes st),
                  st_CloudIssues := mput keyHash (is\<lparr>ci_Code := []\<rparr>) (st_CloudIssues st)\<rparr>) a2,
                Inl (CloudRefused ''unavailable'')))"

definition IssueCloudCode ::
  "(string \<Rightarrow> string) \<Rightarrow> int \<Rightarrow> string \<Rightarrow> commitOutcome \<Rightarrow> CloudIssueRequest \<Rightarrow> Authority \<Rightarrow>
   Authority \<times> (direct_error + string \<times> int)" where
  "IssueCloudCode H now secret io req a =
     (if cq_IssueKey req = [] \<or> length (cq_IssueKey req) > MaxCloudIssueKeyLen \<or> \<not> validPrincipal (cq_IssueKey req) \<or>
         \<not> validPrincipal (cq_Requester req) \<or> \<not> validPrincipal (cq_ProviderID req)
      then (a, Inl (CloudRefused ''invalid_request''))
      else let req = (if cq_Label req = [] then req\<lparr>cq_Label := ''cloud enrollment''\<rparr> else req)
      in if validLabel (cq_Label req) \<noteq> None then (a, Inl (CloudRefused ''invalid_request''))
      else if issuableLocked a \<noteq> None then (a, Inl (CloudRefused ''unavailable''))
      else (case cloudAdmits (st_Cloud (au_state a)) req of Inl e \<Rightarrow> (a, Inl e) | Inr (c, req, ticket) \<Rightarrow>
        (case map_of (st_CloudIssues (au_state a)) (H (cq_IssueKey req)) of
           Some is \<Rightarrow>
             if ci_ReqHash is \<noteq> cloudReqHash H req then (a, Inl (CloudRefused ''idem_conflict''))
             else (case codeOf a (ci_CodeHash is) of
                 None \<Rightarrow> (a, Inl (CloudRefused ''issue_expired''))
               | Some rec \<Rightarrow>
                   if ci_Code is = [] \<or> co_ConsumedAt rec \<noteq> 0 \<or> now \<ge> co_ExpiresAt rec \<or> co_PolicyGen rec \<noteq> cp_Generation c
                   then (a, Inl (CloudRefused ''issue_expired'')) else (a, Inr (ci_Code is, co_ExpiresAt rec)))
         | None \<Rightarrow>
             if cloudOutstandingLocked now (au_state a) \<ge> cp_MaxOutstanding c then (a, Inl (CloudRefused ''capacity_exhausted''))
             else if issuedSince (cp_Issued c) now \<ge> cp_MaxPerHour c then (a, Inl (CloudRefused ''rate_limited''))
             else let a1 = pruneLocked now a
                  in if length (st_CloudIssues (au_state a1)) \<ge> maxCloudIssues then (a1, Inl (CloudRefused ''capacity_exhausted''))
                     else mintCloudCode H now secret io c req ticket a1)))"

text \<open>
  \<open>Inl\<close> with the state after the check where the code cannot be redeemed; a wrong verifier or a
  stale policy has consumed it.
\<close>

definition checkVerifierLocked ::
  "(string \<Rightarrow> string) \<Rightarrow> int \<Rightarrow> commitOutcome \<Rightarrow> string \<Rightarrow> codeRecord \<Rightarrow> string \<Rightarrow> Authority \<Rightarrow> Authority \<times> direct_error option" where
  "checkVerifierLocked D now io key rec verifier a =
     (if co_Origin rec \<noteq> OriginCloud then
        (a, if verifier \<noteq> [] then Some (BadRequest ''code_verifier is only valid for cloud-issued codes'') else None)
      else if co_Ticket rec \<and> co_Challenge rec = [] then (a, Some (BadRequest ''this device ticket must be claimed with a code_challenge before it is redeemed''))
      else if verifier = [] then (a, Some (BadRequest ''code_verifier is required for this code''))
      else if \<not> ValidVerifier verifier then (a, Some (BadRequest ''code_verifier must be 43-128 characters of [A-Za-z0-9-._~]''))
      else if S256Challenge D verifier = co_Challenge rec \<and>
         (case st_Cloud (au_state a) of None \<Rightarrow> False | Some c \<Rightarrow> cp_Enabled c \<and> cp_Generation c = co_PolicyGen rec)
      then (a, None)
      else (fst (commitLocked io (modState (\<lambda>st. fst (takeReplayLocked rec st)) (putCode key (rec\<lparr>co_ConsumedAt := now\<rparr>) a))),
            Some InvalidCode))"

definition ClaimTicket ::
  "(string \<Rightarrow> string) \<Rightarrow> int \<Rightarrow> commitOutcome \<Rightarrow> string \<Rightarrow> string \<Rightarrow> string \<Rightarrow> Authority \<Rightarrow> Authority \<times> (direct_error + int)" where
  "ClaimTicket H now io secret challenge meth a =
     (if secret = [] then (a, Inl (BadRequest ''code is required''))
      else if meth \<noteq> CodeChallengeMethodS256 \<or> \<not> validNonce challenge then (a, Inl (BadRequest ''code_challenge must be S256: base64url of a 32-byte SHA-256''))
      else (case issuableLocked a of Some e \<Rightarrow> (a, Inl e) | None \<Rightarrow>
           (case (codeOf a (H secret), st_Cloud (au_state a)) of
              (Some rec, Some c) \<Rightarrow>
                if \<not> co_Ticket rec \<or> co_Origin rec \<noteq> OriginCloud \<or> co_ConsumedAt rec \<noteq> 0 \<or> now \<ge> co_ExpiresAt rec \<or>
                   \<not> cp_Enabled c \<or> cp_Generation c \<noteq> co_PolicyGen rec
                then (a, Inl InvalidCode)
                else if co_Challenge rec \<noteq> [] then
                  (a, if co_Challenge rec = challenge then Inr (co_ExpiresAt rec) else Inl InvalidCode)
                else (case commitLocked io (putCode (H secret) (rec\<lparr>co_Challenge := challenge\<rparr>) a) of
                    (a2, None) \<Rightarrow> (a2, Inr (co_ExpiresAt rec))
                  | (a2, Some e) \<Rightarrow> (if rolledBack e then putCode (H secret) rec a2 else a2, Inl e))
            | _ \<Rightarrow> (a, Inl InvalidCode))))"

section \<open>Grants and tokens\<close>

record TokenResponse =
  tr_AccessToken :: string
  tr_RefreshToken :: string
  tr_ExpiresIn :: int
  tr_Scope :: "string list"
  tr_ClientID :: string
  tr_GrantExpiresAt :: int
  tr_Resource :: ResourceScope

definition issueTokens :: "(string \<Rightarrow> string) \<Rightarrow> int \<Rightarrow> grantRecord \<Rightarrow> string \<Rightarrow> string \<Rightarrow> Authority \<Rightarrow> Authority \<times> TokenResponse" where
  "issueTokens H now g acc refresh a =
     (let a = pruneLocked now a;
          exp = min (now + lf_Access (au_life a) div second) (gr_AbsoluteExpiry g)
      in (a\<lparr>au_access := mput (H acc) (gr_ClientID g, exp) (au_access a)\<rparr>,
          \<lparr>tr_AccessToken = acc, tr_RefreshToken = refresh, tr_ExpiresIn = exp - now, tr_Scope = gr_Perms g, tr_ClientID = gr_ClientID g,
           tr_GrantExpiresAt = gr_AbsoluteExpiry g, tr_Resource = gr_Resource g\<rparr>))"

definition markRevokedLocked :: "string \<Rightarrow> int \<Rightarrow> grantRecord \<Rightarrow> Authority \<Rightarrow> Authority" where
  "markRevokedLocked reason now g a =
     (let g = (if gr_RevokedAt g = 0 then g\<lparr>gr_RevokedAt := now, gr_RevokeReason := reason\<rparr> else g)\<lparr>gr_RefreshHash := []\<rparr>;
          mine = mkeep (\<lambda>h rec. fst rec = gr_ClientID g) (au_access a)
      in (putGrant g a)\<lparr>au_tomb := fold (\<lambda>(h, rec). mput h (snd rec)) mine (au_tomb a),
            au_access := mkeep (\<lambda>h rec. fst rec \<noteq> gr_ClientID g) (au_access a)\<rparr>)"

text \<open>Cancelling every registered lease of a client, as \<^verbatim>\<open>drain\<close> does before it waits.\<close>

definition cancelLeases :: "direct_error \<Rightarrow> (Lease \<Rightarrow> bool) \<Rightarrow> Authority \<Rightarrow> Authority" where
  "cancelLeases cause which a =
     a\<lparr>au_ended := fold (\<lambda>l m. if map_of m (ls_id l) = None then mput (ls_id l) cause m else m) (filter which (au_leases a)) (au_ended a)\<rparr>"

definition newGrant :: "(string \<Rightarrow> string) \<Rightarrow> int \<Rightarrow> string \<Rightarrow> string \<Rightarrow> string \<Rightarrow> string \<Rightarrow> codeRecord \<Rightarrow> Authority \<Rightarrow> grantRecord" where
  "newGrant H now clientID label kind refresh rec a =
     \<lparr>gr_ClientID = clientID, gr_Label = label, gr_ClientKind = kind, gr_Perms = co_Perms rec, gr_Resource = co_Resource rec,
      gr_IdentityGeneration = au_identity a, gr_CreatedAt = now, gr_AbsoluteExpiry = now + lf_Absolute (au_life a) div second,
      gr_IdleTTL = lf_Idle (au_life a) div second, gr_LastRefreshAt = now, gr_RefreshHash = H refresh, gr_UsedRefresh = [],
      gr_RevokedAt = 0, gr_RevokeReason = [], gr_Idem = [], gr_Spent = [],
      gr_Origin = (if co_Origin rec = OriginCloud then OriginCloud else []),
      gr_CloudRequester = (if co_Origin rec = OriginCloud then co_Requester rec else [])\<rparr>"

text \<open>
  \<open>acc\<close>, \<open>refresh\<close> and \<open>clientID\<close> are random; \<open>ioV\<close> and \<open>io\<close> are the writes of the verifier check and
  of the redemption. \<open>commitRedeem\<close> is \<^verbatim>\<open>Redeem\<close> from the accepted code on.
\<close>

definition commitRedeem ::
  "(string \<Rightarrow> string) \<Rightarrow> int \<Rightarrow> commitOutcome \<Rightarrow> string \<Rightarrow> string \<Rightarrow> string \<Rightarrow> string \<Rightarrow> string \<Rightarrow> string \<Rightarrow> codeRecord \<Rightarrow>
   Authority \<Rightarrow> Authority \<times> (direct_error + TokenResponse)" where
  "commitRedeem H now io acc refresh clientID secret label kind rec a =
     (let g = newGrant H now clientID label kind refresh rec a;
          (st, replay) = takeReplayLocked rec (au_state a);
          a2 = putGrant g (putCode (H secret) (rec\<lparr>co_ConsumedAt := now, co_ClientID := clientID\<rparr>) (a\<lparr>au_state := st\<rparr>))
      in case commitLocked io a2 of
           (a3, None) \<Rightarrow> (let (a4, resp) = issueTokens H now g acc refresh a3 in (a4, Inr resp))
         | (a3, Some e) \<Rightarrow>
             if rolledBack e then
               (delGrant clientID (modState (restoreReplayLocked rec replay) (putCode (H secret) (rec\<lparr>co_ConsumedAt := 0, co_ClientID := []\<rparr>) a3)), Inl e)
             else (markRevokedLocked ''enrollment commit uncertain'' now g a3, Inl e))"

definition Redeem ::
  "(string \<Rightarrow> string) \<Rightarrow> (string \<Rightarrow> string) \<Rightarrow> int \<Rightarrow> commitOutcome \<Rightarrow> commitOutcome \<Rightarrow> string \<Rightarrow> string \<Rightarrow> string \<Rightarrow>
   string \<Rightarrow> string \<Rightarrow> string \<Rightarrow> string \<Rightarrow> Authority \<Rightarrow> Authority \<times> (direct_error + TokenResponse)" where
  "Redeem H D now ioV io acc refresh clientID secret label kind verifier a =
     (let label = (if label = [] then ''direct client'' else label)
      in case validLabel label of Some e \<Rightarrow> (a, Inl e) | None \<Rightarrow>
      if kind \<noteq> ''web'' \<and> kind \<noteq> ''android'' then (a, Inl (Refused ''client_kind''))
      else (case issuableLocked a of Some e \<Rightarrow> (a, Inl e) | None \<Rightarrow>
        (case codeOf a (H secret) of
           None \<Rightarrow> (a, Inl InvalidCode)
         | Some rec \<Rightarrow>
             if co_ConsumedAt rec \<noteq> 0 \<or> now \<ge> co_ExpiresAt rec then (a, Inl InvalidCode)
             else (case checkVerifierLocked D now ioV (H secret) rec verifier a of
                 (a1, Some e) \<Rightarrow> (a1, Inl e)
               | (a1, None) \<Rightarrow> commitRedeem H now io acc refresh clientID secret label kind rec a1))))"

definition revokeAndUnlock :: "int \<Rightarrow> commitOutcome \<Rightarrow> string \<Rightarrow> grantRecord \<Rightarrow> Authority \<Rightarrow> Authority \<times> (direct_error + TokenResponse)" where
  "revokeAndUnlock now io reason g a =
     (case commitLocked io (markRevokedLocked reason now g a) of
        (a1, err) \<Rightarrow> (cancelLeases AuthRevoked (\<lambda>l. ls_ClientID l = gr_ClientID g) a1,
                      Inl (case err of Some e \<Rightarrow> e | None \<Rightarrow> InvalidCode)))"

definition findRefresh :: "string \<Rightarrow> Authority \<Rightarrow> grantRecord option" where
  "findRefresh h a = map_option snd (find (\<lambda>(cid, g). gr_RefreshHash g = h \<or> h \<in> set (gr_UsedRefresh g)) (st_Grants (au_state a)))"

definition Refresh ::
  "(string \<Rightarrow> string) \<Rightarrow> int \<Rightarrow> commitOutcome \<Rightarrow> string \<Rightarrow> string \<Rightarrow> string \<Rightarrow> Authority \<Rightarrow> Authority \<times> (direct_error + TokenResponse)" where
  "Refresh H now io acc nxt refresh a =
     (case issuableLocked a of Some e \<Rightarrow> (a, Inl e) | None \<Rightarrow>
        let h = H refresh
        in case findRefresh h a of
             None \<Rightarrow> (a, Inl InvalidCode)
           | Some g \<Rightarrow>
               if gr_RefreshHash g \<noteq> h then revokeAndUnlock now io ''refresh token reuse'' g a
               else if gr_RevokedAt g \<noteq> 0 \<or> now \<ge> gr_AbsoluteExpiry g \<or> now \<ge> gr_LastRefreshAt g + gr_IdleTTL g \<or>
                  gr_IdentityGeneration g \<noteq> au_identity a then (a, Inl InvalidCode)
               else if length (gr_UsedRefresh g) \<ge> maxUsedRefresh then revokeAndUnlock now io ''refresh rotation limit reached'' g a
               else let g' = g\<lparr>gr_UsedRefresh := gr_UsedRefresh g @ [gr_RefreshHash g], gr_RefreshHash := H nxt, gr_LastRefreshAt := now\<rparr>
                    in case commitLocked io (putGrant g' a) of
                         (a1, None) \<Rightarrow> (let (a2, resp) = issueTokens H now g' acc nxt a1 in (a2, Inr resp))
                       | (a1, Some e) \<Rightarrow> (if rolledBack e then putGrant g a1 else a1, Inl e))"

definition RevokeGrant :: "int \<Rightarrow> commitOutcome \<Rightarrow> string \<Rightarrow> string \<Rightarrow> Authority \<Rightarrow> Authority \<times> direct_error option" where
  "RevokeGrant now io clientID reason a =
     (case grantOf a clientID of
        None \<Rightarrow> (a, Some NoSuchRecord)
      | Some g \<Rightarrow>
          (case commitLocked io (markRevokedLocked reason now g a) of
             (a1, err) \<Rightarrow> (cancelLeases AuthRevoked (\<lambda>l. ls_ClientID l = clientID) a1, err)))"

definition RevokeToken :: "(string \<Rightarrow> string) \<Rightarrow> int \<Rightarrow> commitOutcome \<Rightarrow> string \<Rightarrow> Authority \<Rightarrow> Authority \<times> direct_error option" where
  "RevokeToken H now io token a =
     (let h = H token;
          clientID = (case map_of (au_access a) h of
              Some (cid, exp) \<Rightarrow> cid
            | None \<Rightarrow> (case find (\<lambda>(cid, g). gr_RefreshHash g = h) (st_Grants (au_state a)) of None \<Rightarrow> [] | Some (cid, g) \<Rightarrow> cid))
      in if clientID = [] then (a, None) else RevokeGrant now io clientID ''client sign-out'' a)"

definition revokeAllLocked :: "int \<Rightarrow> string \<Rightarrow> Authority \<Rightarrow> Authority" where
  "revokeAllLocked now reason a =
     (let a = fold (\<lambda>(cid, g). markRevokedLocked reason now g) (st_Grants (au_state a)) a;
          st = fold (\<lambda>(h, c) st. fst (takeReplayLocked c st)) (st_Codes (au_state a)) (au_state a);
          st = st\<lparr>st_Codes := map (\<lambda>(h, c). (h, if co_ConsumedAt c = 0 then c\<lparr>co_ConsumedAt := now\<rparr> else c)) (st_Codes st)\<rparr>
      in a\<lparr>au_state := disableCloudLocked reason now st\<rparr>)"

text \<open>\<open>generation\<close> is that of the new identity; \<open>ioI\<close> is the write of the identity file.\<close>

definition ResetIdentity :: "int \<Rightarrow> commitOutcome \<Rightarrow> commitOutcome \<Rightarrow> string \<Rightarrow> Authority \<Rightarrow> Authority \<times> direct_error option" where
  "ResetIdentity now io ioI generation a =
     (let a1 = modState (\<lambda>st. st\<lparr>st_IdentityGeneration := generation\<rparr>) (revokeAllLocked now ''identity reset'' a);
          (a2, err) = commitLocked io a1;
          (a3, err) = (case err of Some e \<Rightarrow> (a2, Some e) | None \<Rightarrow>
             (case ioI of
                Saved \<Rightarrow> (a2\<lparr>au_identity := generation, au_diskIdentity := Some generation\<rparr>, None)
              | NotCommitted \<Rightarrow> (a2, Some (CommitFailed NotCommitted))
              | AmbiguousCommit kept \<Rightarrow>
                  (a2\<lparr>au_diskIdentity := (if kept then Some generation else au_diskIdentity a2)\<rparr>, Some (CommitFailed ioI))))
      in (cancelLeases AuthRevoked (\<lambda>l. True) (if err \<noteq> None then a3\<lparr>au_degraded := True\<rparr> else a3), err))"

section \<open>Leases\<close>

abbreviation (input) "AccessTokenPrefix \<equiv> ''amxa_''"

definition leaseEnded :: "Authority \<Rightarrow> Lease \<Rightarrow> direct_error option" where
  "leaseEnded a l = map_of (au_ended a) (ls_id l)"

definition grantLease :: "nat \<Rightarrow> grantRecord \<Rightarrow> int \<Rightarrow> Lease" where
  "grantLease n g exp = \<lparr>ls_id = n, ls_ClientID = gr_ClientID g, ls_Perms = gr_Perms g, ls_Resource = gr_Resource g, ls_ExpiresAt = exp\<rparr>"

text \<open>\<open>n\<close> names the new lease.\<close>

definition Admit :: "(string \<Rightarrow> string) \<Rightarrow> int \<Rightarrow> nat \<Rightarrow> string \<Rightarrow> string \<Rightarrow> Authority \<Rightarrow> Authority \<times> (direct_error + Lease)" where
  "Admit H now n token perm a =
     (let h = H token
      in if au_closed a then (a, Inl AuthInvalid)
         else if \<not> prefix AccessTokenPrefix token then (a, Inl AuthInvalid)
         else if map_of (au_tomb a) h \<noteq> None then (a, Inl AuthRevoked)
         else (case map_of (au_access a) h of
             None \<Rightarrow> (a, Inl AuthInvalid)
           | Some (cid, exp) \<Rightarrow>
               (case grantOf a cid of
                  None \<Rightarrow> (a, Inl AuthRevoked)
                | Some g \<Rightarrow>
                    if gr_RevokedAt g \<noteq> 0 \<or> gr_IdentityGeneration g \<noteq> au_identity a then (a, Inl AuthRevoked)
                    else if now \<ge> exp then (a, Inl AuthExpired)
                    else if perm \<notin> set (gr_Perms g) then (a, Inl Denied)
                    else (let l = grantLease n g exp in (a\<lparr>au_leases := l # au_leases a\<rparr>, Inr l)))))"

definition GrantLive :: "int \<Rightarrow> Lease \<Rightarrow> string \<Rightarrow> Authority \<Rightarrow> direct_error option" where
  "GrantLive now l perm a =
     (if au_closed a \<or> leaseEnded a l \<noteq> None
      then Some (if leaseEnded a l = Some AuthExpired then AuthExpired else AuthRevoked)
      else (case grantOf a (ls_ClientID l) of
          None \<Rightarrow> Some AuthRevoked
        | Some g \<Rightarrow>
            if gr_RevokedAt g \<noteq> 0 \<or> gr_IdentityGeneration g \<noteq> au_identity a then Some AuthRevoked
            else if now \<ge> gr_AbsoluteExpiry g \<or> now \<ge> gr_LastRefreshAt g + gr_IdleTTL g then Some AuthExpired
            else if perm \<notin> set (gr_Perms g) then Some Denied else None))"

definition Hold :: "int \<Rightarrow> nat \<Rightarrow> Lease \<Rightarrow> string \<Rightarrow> Authority \<Rightarrow> Authority \<times> (direct_error + Lease)" where
  "Hold now n l perm a =
     (case GrantLive now l perm a of Some e \<Rightarrow> (a, Inl e) | None \<Rightarrow>
     (case grantOf a (ls_ClientID l) of
        None \<Rightarrow> (a, Inl AuthRevoked)
      | Some g \<Rightarrow>
          if au_closed a \<or> gr_RevokedAt g \<noteq> 0 then (a, Inl AuthRevoked)
          else (let h = grantLease n g (gr_AbsoluteExpiry g) in (a\<lparr>au_leases := h # au_leases a\<rparr>, Inr h))))"

definition Done :: "Lease \<Rightarrow> Authority \<Rightarrow> Authority" where
  "Done l a = a\<lparr>au_leases := filter (\<lambda>l'. ls_id l' \<noteq> ls_id l) (au_leases a),
     au_ended := (if map_of (au_ended a) (ls_id l) = None then mput (ls_id l) (Refused ''canceled'') (au_ended a) else au_ended a)\<rparr>"

text \<open>One pass of \<^verbatim>\<open>watchGrant\<close>: it ends the lease of a grant whose lifetime is over.\<close>

definition watchGrant :: "int \<Rightarrow> Lease \<Rightarrow> Authority \<Rightarrow> Authority" where
  "watchGrant now h a =
     (let ended = (case grantOf a (ls_ClientID h) of
          None \<Rightarrow> True
        | Some g \<Rightarrow> gr_IdentityGeneration g \<noteq> au_identity a \<or> now \<ge> min (gr_LastRefreshAt g + gr_IdleTTL g) (gr_AbsoluteExpiry g))
      in if ended then cancelLeases AuthExpired (\<lambda>l. ls_id l = ls_id h) a else a)"

definition CloseAuthority :: "Authority \<Rightarrow> Authority" where
  "CloseAuthority a = cancelLeases AuthRevoked (\<lambda>l. True) (a\<lparr>au_closed := True\<rparr>)"

section \<open>Idempotency\<close>

datatype idemOutcome = IdemProceed | IdemReplay idemRecord | IdemConflict | IdemInProgress | IdemAmbiguous | IdemExpired

definition pastRetention :: "idemRecord \<Rightarrow> int \<Rightarrow> bool" where
  "pastRetention r now \<longleftrightarrow> now > im_At r + idemRetention"

definition spentKey :: "(string \<Rightarrow> string) \<Rightarrow> string \<Rightarrow> string" where
  "spentKey H key = take 16 (H key)"

definition spentBody :: "string \<Rightarrow> string" where
  "spentBody bodyHash = (if length bodyHash > 16 then take 16 bodyHash else bodyHash)"

fun compactIdem :: "(string \<Rightarrow> string) \<Rightarrow> int \<Rightarrow> (string, idemRecord) gomap \<Rightarrow> (string, string) gomap \<Rightarrow>
    (string, idemRecord) gomap \<times> (string, string) gomap" where
  "compactIdem H now [] spent = ([], spent)"
| "compactIdem H now ((k, r) # rs) spent =
     (let keep = (let (idem, sp) = compactIdem H now rs spent in ((k, r) # idem, sp))
      in if im_State r \<noteq> idemDone \<or> \<not> pastRetention r now then keep
         else if map_of spent (spentKey H k) = None \<and> length spent \<ge> maxSpentPerGrant then keep
         else compactIdem H now rs (mput (spentKey H k) (spentBody (im_BodyHash r)) spent))"

definition compactExpiredLocked :: "(string \<Rightarrow> string) \<Rightarrow> int \<Rightarrow> grantRecord \<Rightarrow> grantRecord" where
  "compactExpiredLocked H now g =
     (let (idem, spent) = compactIdem H now (gr_Idem g) (gr_Spent g) in g\<lparr>gr_Idem := idem, gr_Spent := spent\<rparr>)"

definition newIdem :: "string \<Rightarrow> string \<Rightarrow> int \<Rightarrow> idemRecord" where
  "newIdem bodyHash boot now =
     \<lparr>im_BodyHash = bodyHash, im_State = idemAdmitted, im_Boot = boot, im_OK = False, im_Code = [], im_Error = [], im_NewID = [],
      im_RootID = [], im_Affected = [], im_At = now, im_CreationID = [], im_Verb = [], im_Async = False, im_DispatchedAt = 0,
      im_EndedAt = 0, im_NewIncarnation = [], im_RootIncarnation = []\<rparr>"

definition stampCreation :: "string \<Rightarrow> string \<Rightarrow> bool \<Rightarrow> idemRecord \<Rightarrow> idemRecord" where
  "stampCreation creationID verb async r = r\<lparr>im_CreationID := creationID, im_Verb := verb, im_Async := async\<rparr>"

text \<open>\<open>ini\<close> completes the new record before it is committed.\<close>

definition BeginAction ::
  "(string \<Rightarrow> string) \<Rightarrow> int \<Rightarrow> commitOutcome \<Rightarrow> Lease \<Rightarrow> string \<Rightarrow> string \<Rightarrow> bool \<Rightarrow> (idemRecord \<Rightarrow> idemRecord) \<Rightarrow> Authority \<Rightarrow>
   Authority \<times> (direct_error + idemOutcome)" where
  "BeginAction H now io l key bodyHash peek ini a =
     (if leaseEnded a l \<noteq> None then (a, Inl AuthRevoked)
      else (case grantOf a (ls_ClientID l) of
          None \<Rightarrow> (a, Inl AuthRevoked)
        | Some g0 \<Rightarrow>
            if gr_RevokedAt g0 \<noteq> 0 then (a, Inl AuthRevoked)
            else let g = compactExpiredLocked H now g0; a1 = putGrant g a
                 in case map_of (gr_Idem g) key of
                      Some r \<Rightarrow>
                        (a1, Inr (if im_BodyHash r \<noteq> bodyHash then IdemConflict
                                  else if im_State r = idemDone \<and> pastRetention r now then IdemExpired
                                  else if im_State r = idemDone then IdemReplay r
                                  else if im_State r = idemAdmitted \<and> (ls_ClientID l, key) \<in> set (au_running a) then IdemInProgress
                                  else IdemAmbiguous))
                    | None \<Rightarrow>
                        (case map_of (gr_Spent g) (spentKey H key) of
                           Some b \<Rightarrow> (a1, Inr (if b \<noteq> spentBody bodyHash then IdemConflict else IdemExpired))
                         | None \<Rightarrow>
                             if peek then (a1, Inr IdemProceed)
                             else if au_degraded a1 then (a1, Inl Degraded)
                             else if length (gr_Idem g) \<ge> maxIdemPerGrant then (a1, Inl NoCapacity)
                             else (case commitLocked io (putGrant (g\<lparr>gr_Idem := mput key (ini (newIdem bodyHash (au_boot a) now)) (gr_Idem g)\<rparr>) a1) of
                                 (a2, None) \<Rightarrow> (a2\<lparr>au_running := (ls_ClientID l, key) # au_running a2\<rparr>, Inr IdemProceed)
                               | (a2, Some e) \<Rightarrow> (if rolledBack e then putGrant g a2 else a2, Inl e)))))"

definition stopRunning :: "string \<Rightarrow> string \<Rightarrow> Authority \<Rightarrow> Authority" where
  "stopRunning cid key a = a\<lparr>au_running := filter (\<lambda>ck. ck \<noteq> (cid, key)) (au_running a)\<rparr>"

definition endAction ::
  "int \<Rightarrow> commitOutcome \<Rightarrow> Lease \<Rightarrow> string \<Rightarrow> (idemRecord \<Rightarrow> idemRecord) \<Rightarrow> Authority \<Rightarrow> Authority" where
  "endAction now io l key upd a =
     (let a1 = stopRunning (ls_ClientID l) key a
      in case grantOf a1 (ls_ClientID l) of
           None \<Rightarrow> a1
         | Some g \<Rightarrow>
             (case map_of (gr_Idem g) key of
                None \<Rightarrow> a1
              | Some prev \<Rightarrow>
                  (let r = upd prev;
                       r = (if im_CreationID r \<noteq> [] then r\<lparr>im_EndedAt := now\<rparr> else r)
                   in case commitLocked io (putGrant (g\<lparr>gr_Idem := mput key r (gr_Idem g)\<rparr>) a1) of
                        (a2, Some e) \<Rightarrow> if rolledBack e then putGrant g a2 else a2
                      | (a2, None) \<Rightarrow> a2)))"

definition FinishAction :: "bool \<Rightarrow> string \<Rightarrow> string \<Rightarrow> idemRecord \<Rightarrow> idemRecord" where
  "FinishAction ok cd msg r = r\<lparr>im_State := idemDone, im_OK := ok, im_Code := cd, im_Error := msg\<rparr>"

definition FinishResult :: "string \<Rightarrow> string \<Rightarrow> string list \<Rightarrow> idemRecord \<Rightarrow> idemRecord" where
  "FinishResult newID rootID affected r =
     r\<lparr>im_State := idemDone, im_OK := True, im_NewID := newID, im_RootID := rootID, im_Affected := affected\<rparr>"

definition FinishCreated :: "string \<Rightarrow> string \<Rightarrow> string \<Rightarrow> string \<Rightarrow> idemRecord \<Rightarrow> idemRecord" where
  "FinishCreated newID rootID inc rootInc r =
     r\<lparr>im_State := idemDone, im_OK := True, im_NewID := newID, im_RootID := rootID, im_Affected := [], im_NewIncarnation := inc,
       im_RootIncarnation := rootInc\<rparr>"

definition AmbiguousAction :: "idemRecord \<Rightarrow> idemRecord" where
  "AmbiguousAction r = r\<lparr>im_State := idemUnknown\<rparr>"

definition AbortAction :: "commitOutcome \<Rightarrow> Lease \<Rightarrow> string \<Rightarrow> Authority \<Rightarrow> Authority" where
  "AbortAction io l key a =
     (let a1 = stopRunning (ls_ClientID l) key a
      in case grantOf a1 (ls_ClientID l) of
           None \<Rightarrow> a1
         | Some g \<Rightarrow>
             (case map_of (gr_Idem g) key of
                None \<Rightarrow> a1
              | Some r \<Rightarrow>
                  if im_State r \<noteq> idemAdmitted then a1
                  else (case commitLocked io (putGrant (g\<lparr>gr_Idem := mdel key (gr_Idem g)\<rparr>) a1) of
                      (a2, Some e) \<Rightarrow> if rolledBack e then putGrant g a2 else a2
                    | (a2, None) \<Rightarrow> a2)))"

section \<open>Creations\<close>

definition EnsureCreationID ::
  "commitOutcome \<Rightarrow> string \<Rightarrow> Lease \<Rightarrow> string \<Rightarrow> string \<Rightarrow> Authority \<Rightarrow> Authority \<times> (direct_error + string)" where
  "EnsureCreationID io fresh l key verb a =
     (case grantOf a (ls_ClientID l) of
        None \<Rightarrow> (a, Inl AuthRevoked)
      | Some g \<Rightarrow>
          if gr_RevokedAt g \<noteq> 0 then (a, Inl AuthRevoked)
          else (case map_of (gr_Idem g) key of
              None \<Rightarrow> (a, Inl NoSuchRecord)
            | Some r \<Rightarrow>
                if im_CreationID r \<noteq> [] then (a, Inr (im_CreationID r))
                else if au_degraded a then (a, Inl Degraded)
                else (case commitLocked io (putGrant (g\<lparr>gr_Idem := mput key (r\<lparr>im_CreationID := fresh, im_Verb := verb\<rparr>) (gr_Idem g)\<rparr>) a) of
                    (a2, None) \<Rightarrow> (a2, Inr fresh)
                  | (a2, Some e) \<Rightarrow>
                      (if rolledBack e then putGrant (g\<lparr>gr_Idem := mput key (r\<lparr>im_CreationID := [], im_Verb := []\<rparr>) (gr_Idem g)\<rparr>) a2 else a2,
                       Inl e))))"

definition MarkDispatched :: "int \<Rightarrow> commitOutcome \<Rightarrow> Lease \<Rightarrow> string \<Rightarrow> Authority \<Rightarrow> Authority \<times> direct_error option" where
  "MarkDispatched now io l key a =
     (if leaseEnded a l \<noteq> None then (a, Some AuthRevoked)
      else (case grantOf a (ls_ClientID l) of
          None \<Rightarrow> (a, Some AuthRevoked)
        | Some g \<Rightarrow>
            if gr_RevokedAt g \<noteq> 0 then (a, Some AuthRevoked)
            else (case map_of (gr_Idem g) key of
                None \<Rightarrow> (a, Some NoSuchRecord)
              | Some r \<Rightarrow>
                  if im_State r \<noteq> idemAdmitted then (a, Some NoSuchRecord)
                  else if au_degraded a then (a, Some Degraded)
                  else (case commitLocked io (putGrant (g\<lparr>gr_Idem := mput key (r\<lparr>im_DispatchedAt := now\<rparr>) (gr_Idem g)\<rparr>) a) of
                      (a2, None) \<Rightarrow> (a2, None)
                    | (a2, Some e) \<Rightarrow>
                        (if rolledBack e then putGrant (g\<lparr>gr_Idem := mput key (r\<lparr>im_DispatchedAt := 0\<rparr>) (gr_Idem g)\<rparr>) a2 else a2, Some e)))))"

record creationView =
  cv_rec :: idemRecord
  cv_running :: bool

definition Creation :: "int \<Rightarrow> Lease \<Rightarrow> string \<Rightarrow> Authority \<Rightarrow> creationView option" where
  "Creation now l cid a =
     (case grantOf a (ls_ClientID l) of
        None \<Rightarrow> None
      | Some g \<Rightarrow>
          if gr_RevokedAt g \<noteq> 0 \<or> cid = [] then None
          else (case find (\<lambda>(k, r). im_CreationID r = cid) (gr_Idem g) of
              None \<Rightarrow> None
            | Some (k, r) \<Rightarrow>
                if im_State r = idemDone \<and> pastRetention r now then None
                else Some \<lparr>cv_rec = r, cv_running = ((ls_ClientID l, k) \<in> set (au_running a))\<rparr>))"

definition creationByKey :: "Lease \<Rightarrow> string \<Rightarrow> Authority \<Rightarrow> creationView option" where
  "creationByKey l key a =
     (case grantOf a (ls_ClientID l) of
        None \<Rightarrow> None
      | Some g \<Rightarrow> map_option (\<lambda>r. \<lparr>cv_rec = r, cv_running = ((ls_ClientID l, key) \<in> set (au_running a))\<rparr>) (map_of (gr_Idem g) key))"

record CreationStatus =
  cs_CreationID :: string
  cs_Verb :: string
  cs_Phase :: string
  cs_Version :: nat
  cs_NewID :: string
  cs_RootID :: string
  cs_Code :: string
  cs_Error :: string
  cs_Uncertain :: bool
  cs_ElapsedMS :: int

abbreviation (input) "CreatePhaseQueued \<equiv> ''queued''"
abbreviation (input) "CreatePhasePreparing \<equiv> ''preparing''"
abbreviation (input) "CreatePhaseReady \<equiv> ''ready''"
abbreviation (input) "CreatePhaseFailed \<equiv> ''failed''"
abbreviation (input) "CodeIdemAmbiguous \<equiv> ''idem_ambiguous''"

definition unknownOutcome :: string where
  "unknownOutcome = ''the creation's outcome is unknown; the daemon may have created it. It will not run again with this idem_key; check the session list before retrying with a new one.''"

definition statusOf :: "creationView \<Rightarrow> int \<Rightarrow> CreationStatus" where
  "statusOf v now =
     (let r = cv_rec v;
          st = \<lparr>cs_CreationID = im_CreationID r, cs_Verb = im_Verb r, cs_Phase = [], cs_Version = 0, cs_NewID = [], cs_RootID = [],
                cs_Code = [], cs_Error = [], cs_Uncertain = False, cs_ElapsedMS = 0\<rparr>;
          st = (if im_State r = idemAdmitted \<and> cv_running v \<and> im_Async r \<and> im_DispatchedAt r = 0
                then st\<lparr>cs_Phase := CreatePhaseQueued, cs_Version := 1\<rparr>
                else if im_State r = idemAdmitted \<and> cv_running v then st\<lparr>cs_Phase := CreatePhasePreparing, cs_Version := 2\<rparr>
                else if im_State r = idemAdmitted \<and> im_Async r \<and> im_DispatchedAt r = 0
                then st\<lparr>cs_Phase := CreatePhaseFailed, cs_Version := 3, cs_Code := CodeUnavailable, cs_Error := undispatchedError\<rparr>
                else if im_State r = idemDone \<and> im_OK r \<and> validSessionID (im_NewID r) \<and> validSessionID (im_RootID r)
                then st\<lparr>cs_Phase := CreatePhaseReady, cs_Version := 3, cs_NewID := im_NewID r, cs_RootID := im_RootID r\<rparr>
                else if im_State r = idemDone \<and> \<not> im_OK r \<and> im_Code r \<noteq> []
                then st\<lparr>cs_Phase := CreatePhaseFailed, cs_Version := 3, cs_Code := im_Code r, cs_Error := im_Error r\<rparr>
                else st\<lparr>cs_Phase := CreatePhaseFailed, cs_Version := 3, cs_Code := CodeIdemAmbiguous, cs_Uncertain := True,
                        cs_Error := unknownOutcome\<rparr>);
          fin = (if cs_Version st = 3 \<and> im_EndedAt r \<noteq> 0 then im_EndedAt r else now)
      in if fin > im_At r then st\<lparr>cs_ElapsedMS := (fin - im_At r) * 1000\<rparr> else st)"

section \<open>Opening\<close>

text \<open>
  \<^verbatim>\<open>loadAuthority\<close>: None where the open fails. \<open>newGen\<close> is the generation of the identity that is
  made when there is none; \<open>ioM\<close>, \<open>ioN\<close>, \<open>ioI\<close> and \<open>ioG\<close> are the writes after a migration, after settling
  undispatched creations, of a new identity, and after revoking the grants of another identity. The
  first answer is the registry and identity on disk, which a failed open may have changed.
\<close>

definition diskAfter :: "commitOutcome \<Rightarrow> 'a \<Rightarrow> 'a option \<Rightarrow> 'a option" where
  "diskAfter io new old = (case io of Saved \<Rightarrow> Some new | NotCommitted \<Rightarrow> old | AmbiguousCommit kept \<Rightarrow> if kept then Some new else old)"

definition freshAuthority :: "storeState \<Rightarrow> storeState option \<Rightarrow> string \<Rightarrow> string option \<Rightarrow> Lifetimes \<Rightarrow> string \<Rightarrow> Authority" where
  "freshAuthority st disk gen diskGen life boot =
     \<lparr>au_state = st, au_disk = disk, au_identity = gen, au_diskIdentity = diskGen, au_life = life, au_boot = boot, au_access = [],
      au_tomb = [], au_running = [], au_leases = [], au_ended = [], au_closed = False, au_degraded = False\<rparr>"

definition loadAuthority ::
  "int \<Rightarrow> commitOutcome \<Rightarrow> commitOutcome \<Rightarrow> commitOutcome \<Rightarrow> commitOutcome \<Rightarrow> string \<Rightarrow> string \<Rightarrow> Lifetimes \<Rightarrow>
   storeState option \<Rightarrow> string option \<Rightarrow> (storeState option \<times> string option) \<times> Authority option" where
  "loadAuthority now ioM ioN ioI ioG newGen boot life disk diskGen =
     (case loadState disk of
        Inl e \<Rightarrow> ((disk, diskGen), None)
      | Inr (st, migrate) \<Rightarrow>
          let st = (if migrate then st\<lparr>st_V := stateVersion\<rparr> else st);
              disk1 = (if migrate then diskAfter ioM st disk else disk)
          in if migrate \<and> ioM \<noteq> Saved then ((disk1, diskGen), None)
          else let (st, changed) = normalizeUndispatched now st;
                   disk2 = (if changed then diskAfter ioN st disk1 else disk1)
          in if changed \<and> ioN \<noteq> Saved then ((disk2, diskGen), None)
          else let gen = (case diskGen of None \<Rightarrow> newGen | Some g \<Rightarrow> g);
                   diskGen1 = (if diskGen = None then diskAfter ioI newGen diskGen else diskGen)
          in if diskGen = None \<and> ioI \<noteq> Saved then ((disk2, diskGen1), None)
          else if st_IdentityGeneration st = gen
          then ((disk2, diskGen1), Some (freshAuthority st disk2 gen diskGen1 life boot))
          else let a = modState (\<lambda>st. st\<lparr>st_IdentityGeneration := gen\<rparr>)
                     (revokeAllLocked now ''identity changed'' (freshAuthority st disk2 gen diskGen1 life boot));
                   disk3 = diskAfter ioG (au_state a) disk2
               in if ioG \<noteq> Saved then ((disk3, diskGen1), None) else ((disk3, diskGen1), Some (a\<lparr>au_disk := disk3\<rparr>)))"

end
