(* ===== verification/Direct_Server.thy ===== *)
theory Direct_Server
  imports Direct_Authority Session_Store
begin

text \<open>
  How the direct server runs an action (\<^verbatim>\<open>internal/direct/server.go\<close>, \<^verbatim>\<open>creations.go\<close> and
  \<^verbatim>\<open>creation_identity.go\<close>): the reservations of async creations, the refusals of a precheck, what a
  finished daemon call records and answers, and the check of a recorded creation before it is answered
  again. A daemon call and a read of identities are arguments, by their outcome. A lease that has ended
  is given by the code \<^verbatim>\<open>AuthEnded\<close> reports.
\<close>

section \<open>Reservations\<close>

record creationJobs =
  cj_perGrant :: "(string, int) gomap"
  cj_total :: int

definition maxAsyncPerGrant :: int where "maxAsyncPerGrant = 4"
definition maxAsyncPending :: int where "maxAsyncPending = 32"

definition newCreationJobs :: creationJobs where
  "newCreationJobs = \<lparr>cj_perGrant = [], cj_total = 0\<rparr>"

definition reserve :: "string \<Rightarrow> creationJobs \<Rightarrow> creationJobs option" where
  "reserve clientID j =
     (if mget0 0 (cj_perGrant j) clientID \<ge> maxAsyncPerGrant \<or> cj_total j \<ge> maxAsyncPending then None
      else Some (j\<lparr>cj_perGrant := mput clientID (mget0 0 (cj_perGrant j) clientID + 1) (cj_perGrant j), cj_total := cj_total j + 1\<rparr>))"

definition releaseJob :: "string \<Rightarrow> creationJobs \<Rightarrow> creationJobs" where
  "releaseJob clientID j =
     (let n = mget0 0 (cj_perGrant j) clientID - 1
      in j\<lparr>cj_perGrant := (if n \<le> 0 then mdel clientID (cj_perGrant j) else mput clientID n (cj_perGrant j)), cj_total := cj_total j - 1\<rparr>)"

section \<open>Answers\<close>

datatype answer =
    ActionAnswer nat string string "string list"
  | ErrorAnswer nat string string
  | StatusAnswer nat CreationStatus

abbreviation (input) "CodeAuthExpired \<equiv> ''auth.expired''"
abbreviation (input) "CodeAuthRevoked \<equiv> ''auth.revoked''"
abbreviation (input) "CodeDenied \<equiv> ''denied''"
abbreviation (input) "CodeDaemonUpgradeRequired \<equiv> ''daemon_upgrade_required''"
abbreviation (input) "CodeRejected \<equiv> ''rejected''"

definition authCode :: "direct_error \<Rightarrow> string" where
  "authCode e = (if e = AuthExpired then CodeAuthExpired else if e = Denied then CodeDenied else CodeAuthRevoked)"

datatype precheckError =
    ErrArchived
  | ErrUnsupported
  | ErrNotInCatalog
  | ErrNotFound
  | ErrUpgradeRequired
  | ErrUnavailable
  | ErrOther

text \<open>\<open>revoked\<close> and \<open>expired\<close> say how the lease ended, if it did.\<close>

definition precheckCode :: "bool \<Rightarrow> bool \<Rightarrow> string \<Rightarrow> precheckError \<Rightarrow> nat \<times> string \<times> string" where
  "precheckCode revoked expired verb e =
     (if e = ErrArchived then
        (409, ''archived'', ''the session or its workgroup is archived (or, for unarchive, not archived)'')
      else if e = ErrUnsupported then (409, ''unsupported_verb'', ''this session cannot serve '' @ verb)
      else if e = ErrNotInCatalog then
        (422, ''not_in_catalog'', ''a harness or repository is not in this machine's creation catalog for this target'')
      else if revoked then (401, CodeAuthRevoked, ''access revoked'')
      else if expired then (401, CodeAuthExpired, ''access expired'')
      else if e = ErrNotFound then (404, ''not_found'', ''no such session'')
      else if e = ErrUpgradeRequired then
        (503, CodeDaemonUpgradeRequired,
         ''the amux daemon must be upgraded (and restarted) before it can create sessions over direct access'')
      else if e = ErrUnavailable then (503, CodeUnavailable, ''the amux daemon is not reachable'')
      else (503, CodeUnavailable, ''the amux daemon could not answer''))"

text \<open>Why an async creation was not sent, with the code and the text \<^verbatim>\<open>runCreationAsync\<close> and \<^verbatim>\<open>creationJob\<close> record.\<close>

datatype notRunCause =
    HoldFailed direct_error
  | EndedInQueue bool
  | NotLive direct_error
  | PrecheckFailed bool bool string precheckError
  | MarkFailed direct_error

fun notRun :: "notRunCause \<Rightarrow> string \<times> string" where
  "notRun (HoldFailed e) = (authCode e, ''access ended before the creation ran; it did not run'')"
| "notRun (EndedInQueue grantEnded) =
     (if grantEnded then CodeAuthExpired else CodeAuthRevoked, ''access ended while the creation was queued; it did not run'')"
| "notRun (NotLive e) = (authCode e, ''access ended while the creation was queued; it did not run'')"
| "notRun (PrecheckFailed revoked expired verb e) =
     (case precheckCode revoked expired verb e of (status, cd, msg) \<Rightarrow> (cd, msg @ ''; it did not run''))"
| "notRun (MarkFailed e) =
     (if e = AuthRevoked then (CodeAuthRevoked, ''access ended before the creation ran; it did not run'')
      else (CodeUnavailable, ''could not record the creation's dispatch; it did not run''))"

section \<open>Settling a daemon call\<close>

datatype callError = CallUpgradeRequired | CallRejected | CallUnavailable | CallFailed

text \<open>
  \<open>target\<close> is the id of an add-agent's workgroup, None for any other action; \<open>revoked\<close> says whether the lease
  was revoked by then. The first answer is the change of the idempotency record.
\<close>

definition settle ::
  "bool \<Rightarrow> string option \<Rightarrow> string list \<Rightarrow> Identity \<Rightarrow> bool \<Rightarrow> callError option \<Rightarrow> (idemRecord \<Rightarrow> idemRecord) \<times> answer" where
  "settle creates target affected ident revoked err =
     (let newID = id_ID ident;
          wantRoot = (case target of Some root \<Rightarrow> root | None \<Rightarrow> newID);
          upgrade = ''the amux daemon must be upgraded before it can create sessions over direct access; nothing was sent to it'';
          unreachable = ''the amux daemon was not reachable; the action did not run''
      in if err = None \<and> creates \<and> validSessionID newID \<and> Complete ident \<and> id_RootID ident = wantRoot \<and>
            (newID \<noteq> wantRoot \<or> id_Incarnation ident = id_RootIncarnation ident)
         then (FinishCreated newID wantRoot (id_Incarnation ident) (id_RootIncarnation ident), ActionAnswer 200 newID wantRoot [])
         else if err = Some CallUpgradeRequired
         then (FinishAction False CodeDaemonUpgradeRequired upgrade, ErrorAnswer 503 CodeDaemonUpgradeRequired upgrade)
         else if err = None \<and> creates
         then (AmbiguousAction, ErrorAnswer 409 CodeIdemAmbiguous ''the creation's outcome is unknown; it will not run again with this idem_key'')
         else if err = None then (FinishResult [] [] affected, ActionAnswer 200 [] [] affected)
         else if err = Some CallRejected
         then (FinishAction False CodeRejected ''the daemon rejected the action'',
               ErrorAnswer 422 CodeRejected ''the daemon rejected the action'')
         else if err = Some CallUnavailable
         then (FinishAction False CodeUnavailable unreachable, ErrorAnswer 503 CodeUnavailable unreachable)
         else (AmbiguousAction,
               if revoked then ErrorAnswer 401 CodeAuthRevoked ''access revoked during the action; its outcome is unknown''
               else ErrorAnswer 409 CodeIdemAmbiguous ''the action's outcome is unknown; it will not run again with this idem_key''))"

section \<open>Answering a recorded action\<close>

datatype identityVerdict = identityMatches | identityTargetUnavailable | identityUnverifiable

definition isCreationSuccess :: "idemRecord \<Rightarrow> bool" where
  "isCreationSuccess r \<longleftrightarrow> im_State r = idemDone \<and> im_OK r \<and> im_NewID r \<noteq> []"

definition verifyCreated ::
  "(string list \<Rightarrow> callError + (string, SessionIdentity) gomap) \<Rightarrow> idemRecord \<Rightarrow> callError + identityVerdict" where
  "verifyCreated identities r =
     (if im_NewIncarnation r = [] \<or> im_RootIncarnation r = [] \<or> im_RootID r = [] then Inr identityUnverifiable
      else (case identities (im_NewID r # (if im_RootID r \<noteq> im_NewID r then [im_RootID r] else [])) of
          Inl e \<Rightarrow> Inl e
        | Inr cur \<Rightarrow>
            (case (map_of cur (im_NewID r), map_of cur (im_RootID r)) of
               (Some n, Some root) \<Rightarrow>
                 if si_Incarnation n \<noteq> im_NewIncarnation r \<or> si_Incarnation root \<noteq> im_RootIncarnation r \<or> si_RootID root \<noteq> [] \<or>
                    si_RootID n \<noteq> (if im_NewID r = im_RootID r then [] else im_RootID r)
                 then Inr identityTargetUnavailable else Inr identityMatches
             | _ \<Rightarrow> Inr identityTargetUnavailable)))"

definition targetUnavailableMsg :: string where
  "targetUnavailableMsg = ''the session this creation made, or its workgroup, no longer exists as created (deleted, or its id now names another session); the creation ran, and it will not run again with this idem_key''"

definition unverifiableMsg :: string where
  "unverifiableMsg = ''this creation was recorded before the server kept session identities, so it cannot be confirmed that its ids still name the sessions it created; it will not run again with this idem_key''"

definition identityReadErr :: "callError \<Rightarrow> answer" where
  "identityReadErr e =
     ErrorAnswer 503 ''created_identity_unavailable''
       (if e = CallUpgradeRequired
        then ''the amux daemon no longer supports session identities, so this recorded creation cannot be confirmed; upgrade and restart the daemon, then retry the same request (the record is unchanged)''
        else ''could not confirm the created session right now; the record is unchanged, retry the same request'')"

text \<open>\<open>before\<close> and \<open>after\<close> are the codes of a lease that had ended before, or by the end of, the read of the identities.\<close>

definition replayCreated ::
  "(string list \<Rightarrow> callError + (string, SessionIdentity) gomap) \<Rightarrow> string option \<Rightarrow> string option \<Rightarrow> idemRecord \<Rightarrow> answer" where
  "replayCreated identities before after r =
     (case before of Some cd \<Rightarrow> ErrorAnswer 401 cd ''access ended'' | None \<Rightarrow>
     (case after of Some cd \<Rightarrow> ErrorAnswer 401 cd ''access ended'' | None \<Rightarrow>
     (case verifyCreated identities r of
        Inl e \<Rightarrow> identityReadErr e
      | Inr identityTargetUnavailable \<Rightarrow> ErrorAnswer 409 ''created_target_unavailable'' targetUnavailableMsg
      | Inr identityUnverifiable \<Rightarrow> ErrorAnswer 409 ''created_identity_unverifiable'' unverifiableMsg
      | Inr identityMatches \<Rightarrow> ActionAnswer 200 (im_NewID r) (im_RootID r) [])))"

definition idemExpiredMsg :: string where
  "idemExpiredMsg = ''this idem_key was already used and its recorded result has expired; it will not run again. Check the machine for its effect before retrying with a new idem_key''"

definition idemReply ::
  "(string list \<Rightarrow> callError + (string, SessionIdentity) gomap) \<Rightarrow> string option \<Rightarrow> string option \<Rightarrow> idemOutcome \<Rightarrow> answer option" where
  "idemReply identities before after out =
     (case out of
        IdemReplay r \<Rightarrow>
          Some (if isCreationSuccess r then replayCreated identities before after r
                else if im_OK r then ActionAnswer 200 (im_NewID r) (im_RootID r) (im_Affected r)
                else ErrorAnswer (if im_Code r = CodeUnavailable \<or> im_Code r = CodeDaemonUpgradeRequired then 503 else 422) (im_Code r) (im_Error r))
      | IdemConflict \<Rightarrow> Some (ErrorAnswer 422 ''idem_conflict'' ''idem_key was used with a different request'')
      | IdemInProgress \<Rightarrow> Some (ErrorAnswer 409 ''idem_in_progress'' ''an action with this idem_key is still running'')
      | IdemAmbiguous \<Rightarrow>
          Some (ErrorAnswer 409 CodeIdemAmbiguous ''an action with this idem_key has an unknown outcome; it will not run again'')
      | IdemExpired \<Rightarrow> Some (ErrorAnswer 409 ''idem_expired'' idemExpiredMsg)
      | IdemProceed \<Rightarrow> None)"

definition identityFailed :: "string \<Rightarrow> string \<Rightarrow> CreationStatus \<Rightarrow> CreationStatus" where
  "identityFailed cd msg st =
     st\<lparr>cs_Phase := CreatePhaseFailed, cs_Code := cd, cs_Error := msg, cs_Uncertain := False, cs_NewID := [], cs_RootID := []\<rparr>"

definition statusEndedMsg :: string where
  "statusEndedMsg = ''access ended; the creation is unaffected '' @ [CHR 0xE2, CHR 0x80, CHR 0x94] @ '' poll its status with a fresh token''"

definition writeCreation ::
  "(string list \<Rightarrow> callError + (string, SessionIdentity) gomap) \<Rightarrow> string option \<Rightarrow> string option \<Rightarrow> string option \<Rightarrow> nat \<Rightarrow>
   creationView \<Rightarrow> int \<Rightarrow> answer" where
  "writeCreation identities before after ended status v now =
     (let st = statusOf v now;
          write = (\<lambda>st. case ended of Some cd \<Rightarrow> ErrorAnswer 401 cd statusEndedMsg | None \<Rightarrow> StatusAnswer status st)
      in if cs_Phase st \<noteq> CreatePhaseReady then write st
         else (case before of Some cd \<Rightarrow> ErrorAnswer 401 cd statusEndedMsg | None \<Rightarrow>
              (case after of Some cd \<Rightarrow> ErrorAnswer 401 cd statusEndedMsg | None \<Rightarrow>
              (case verifyCreated identities (cv_rec v) of
                 Inl e \<Rightarrow> identityReadErr e
               | Inr identityTargetUnavailable \<Rightarrow> write (identityFailed ''created_target_unavailable'' targetUnavailableMsg st)
               | Inr identityUnverifiable \<Rightarrow> write (identityFailed ''created_identity_unverifiable'' unverifiableMsg st)
               | Inr identityMatches \<Rightarrow> write st))))"

section \<open>The handlers\<close>

definition writeAuthErr :: "direct_error \<Rightarrow> answer" where
  "writeAuthErr e =
     (if e = AuthExpired then ErrorAnswer 401 CodeAuthExpired ''access token expired''
      else if e = AuthRevoked then ErrorAnswer 401 CodeAuthRevoked ''access revoked''
      else if e = Denied then ErrorAnswer 403 CodeDenied ''this client may not perform that operation''
      else ErrorAnswer 401 ''auth.invalid'' ''missing or unknown access token'')"

definition writeBeginErr :: "direct_error \<Rightarrow> answer" where
  "writeBeginErr e =
     (if e = AuthRevoked then writeAuthErr e
      else if e = NoCapacity
      then ErrorAnswer 409 ''capacity_exhausted'' ''this client has too many recent or unresolved actions; enroll again to continue''
      else ErrorAnswer 503 CodeUnavailable ''could not record the action; it was not executed'')"

text \<open>
  What happens around one synchronous action: the clock and the outcome of the write at each of its steps, the reads
  of identities, how the lease ended by then, what the precheck said and what the daemon call returned.
\<close>

record actionEnv =
  ae_peekNow :: int
  ae_identities :: "string list \<Rightarrow> callError + (string, SessionIdentity) gomap"
  ae_before :: "string option"
  ae_after :: "string option"
  ae_precheck :: "precheckError + string list"
  ae_revoked :: bool
  ae_expired :: bool
  ae_endedEarly :: "string option"
  ae_beginNow :: int
  ae_beginIO :: commitOutcome
  ae_endedLate :: "string option"
  ae_abortIO :: commitOutcome
  ae_call :: "Identity \<times> callError option"
  ae_revokedLate :: bool
  ae_endNow :: int
  ae_endIO :: commitOutcome

definition runAction ::
  "(string \<Rightarrow> string) \<Rightarrow> actionEnv \<Rightarrow> Lease \<Rightarrow> string \<Rightarrow> string \<Rightarrow> string \<Rightarrow> bool \<Rightarrow> string option \<Rightarrow> Authority \<Rightarrow> Authority \<times> answer" where
  "runAction H E l key bodyHash verb creates target a =
     (case BeginAction H (ae_peekNow E) Saved l key bodyHash True (\<lambda>r. r) a of
        (a1, Inl e) \<Rightarrow> (a1, writeAuthErr e)
      | (a1, Inr out) \<Rightarrow>
     (case idemReply (ae_identities E) (ae_before E) (ae_after E) out of Some ans \<Rightarrow> (a1, ans) | None \<Rightarrow>
     (case ae_precheck E of
        Inl e \<Rightarrow> (case precheckCode (ae_revoked E) (ae_expired E) verb e of (status, cd, msg) \<Rightarrow> (a1, ErrorAnswer status cd msg))
      | Inr affected \<Rightarrow>
     (case ae_endedEarly E of Some cd \<Rightarrow> (a1, ErrorAnswer 401 cd ''access ended before the action ran'') | None \<Rightarrow>
     (case BeginAction H (ae_beginNow E) (ae_beginIO E) l key bodyHash False (\<lambda>r. r) a1 of
        (a2, Inl e) \<Rightarrow> (a2, writeBeginErr e)
      | (a2, Inr out) \<Rightarrow>
     (case idemReply (ae_identities E) (ae_before E) (ae_after E) out of Some ans \<Rightarrow> (a2, ans) | None \<Rightarrow>
     (case ae_endedLate E of
        Some cd \<Rightarrow> (AbortAction (ae_abortIO E) l key a2, ErrorAnswer 401 cd ''access ended before the action ran'')
      | None \<Rightarrow>
          (let (ident, err) = ae_call E;
               (upd, ans) = settle creates target affected ident (ae_revokedLate E) err
           in (endAction (ae_endNow E) (ae_endIO E) l key upd a2, ans)))))))))"

text \<open>\<^verbatim>\<open>answerExisting\<close>: what an async request answers when its key is already recorded.\<close>

definition answerExisting ::
  "(string list \<Rightarrow> callError + (string, SessionIdentity) gomap) \<Rightarrow> string option \<Rightarrow> string option \<Rightarrow> string option \<Rightarrow> int \<Rightarrow> commitOutcome \<Rightarrow>
   string \<Rightarrow> Lease \<Rightarrow> string \<Rightarrow> string \<Rightarrow> Authority \<Rightarrow> Authority \<times> answer" where
  "answerExisting identities before after ended now io creationID l key verb a =
     (case EnsureCreationID io creationID l key verb a of
        (a1, Inl e) \<Rightarrow>
          (a1, if e = AuthRevoked then writeAuthErr e else ErrorAnswer 503 CodeUnavailable ''could not read the creation's record'')
      | (a1, Inr cid) \<Rightarrow>
          (a1, case creationByKey l key a1 of
                 None \<Rightarrow> ErrorAnswer 503 CodeUnavailable ''could not read the creation's record''
               | Some v \<Rightarrow> writeCreation identities before after ended 202 v now))"

text \<open>
  The same for an async creation. \<^verbatim>\<open>runCreationAsync\<close> ends in an answer, or with the worker lease of a job that was
  launched; the wait for its first status is left out. In \<^verbatim>\<open>creationJob\<close>, \<open>je_queueEnded\<close> is Some where the worker
  lease ended before the job got a slot, and says whether it was the grant's lifetime that ended; \<open>je_again\<close> is
  what the second precheck refused with, \<open>je_rootChanged\<close> whether it admitted another incarnation of the root than
  the first, and \<open>je_revokedAgain\<close> and \<open>je_expiredAgain\<close> how the worker lease had ended by then.
\<close>

record jobEnv =
  je_peekNow :: int
  je_precheck :: "precheckError option"
  je_revoked :: bool
  je_expired :: bool
  je_ended :: "string option"
  je_beginNow :: int
  je_beginIO :: commitOutcome
  je_creationID :: string
  je_identities :: "string list \<Rightarrow> callError + (string, SessionIdentity) gomap"
  je_before :: "string option"
  je_after :: "string option"
  je_endedStatus :: "string option"
  je_statusNow :: int
  je_ensureIO :: commitOutcome
  je_ensureID :: string
  je_holdNow :: int
  je_lease :: nat
  je_notRunNow :: int
  je_notRunIO :: commitOutcome
  je_queueEnded :: "bool option"
  je_liveNow :: int
  je_again :: "precheckError option"
  je_rootChanged :: bool
  je_revokedAgain :: bool
  je_expiredAgain :: bool
  je_markNow :: int
  je_markIO :: commitOutcome
  je_call :: "Identity \<times> callError option"
  je_revokedLate :: bool
  je_endNow :: int
  je_endIO :: commitOutcome

definition didNotRun :: "jobEnv \<Rightarrow> Lease \<Rightarrow> string \<Rightarrow> notRunCause \<Rightarrow> Authority \<Rightarrow> Authority" where
  "didNotRun E l key cause a =
     (case notRun cause of (cd, msg) \<Rightarrow> endAction (je_notRunNow E) (je_notRunIO E) l key (FinishAction False cd msg) a)"

definition existingReply :: "jobEnv \<Rightarrow> Lease \<Rightarrow> string \<Rightarrow> string \<Rightarrow> idemOutcome \<Rightarrow> Authority \<Rightarrow> Authority \<times> answer" where
  "existingReply E l key verb out a =
     (case out of
        IdemConflict \<Rightarrow> (a, ErrorAnswer 422 ''idem_conflict'' ''idem_key was used with a different request'')
      | IdemExpired \<Rightarrow> (a, ErrorAnswer 409 ''idem_expired'' idemExpiredMsg)
      | _ \<Rightarrow> answerExisting (je_identities E) (je_before E) (je_after E) (je_endedStatus E) (je_statusNow E) (je_ensureIO E) (je_ensureID E) l key verb a)"

definition launchCreation :: "jobEnv \<Rightarrow> Lease \<Rightarrow> string \<Rightarrow> string \<Rightarrow> Authority \<Rightarrow> Authority \<times> (answer + Lease)" where
  "launchCreation E l key perm a =
     (case Hold (je_holdNow E) (je_lease E) l perm a of
        (a1, Inl e) \<Rightarrow> (didNotRun E l key (HoldFailed e) a1, Inl (writeAuthErr e))
      | (a1, Inr h) \<Rightarrow> (a1, Inr h))"

definition beginCreation ::
  "(string \<Rightarrow> string) \<Rightarrow> jobEnv \<Rightarrow> Lease \<Rightarrow> string \<Rightarrow> string \<Rightarrow> string \<Rightarrow> string \<Rightarrow> Authority \<Rightarrow> Authority \<times> (answer + Lease)" where
  "beginCreation H E l key bodyHash verb perm a =
     (case je_ended E of
        Some cd \<Rightarrow> (a, Inl (ErrorAnswer 401 cd ''access ended before the creation was recorded''))
      | None \<Rightarrow>
     (case BeginAction H (je_beginNow E) (je_beginIO E) l key bodyHash False (stampCreation (je_creationID E) verb True) a of
        (a1, Inl e) \<Rightarrow> (a1, Inl (writeBeginErr e))
      | (a1, Inr IdemProceed) \<Rightarrow> launchCreation E l key perm a1
      | (a1, Inr out) \<Rightarrow> (case existingReply E l key verb out a1 of (a2, ans) \<Rightarrow> (a2, Inl ans))))"

definition runCreationAsync ::
  "(string \<Rightarrow> string) \<Rightarrow> jobEnv \<Rightarrow> Lease \<Rightarrow> string \<Rightarrow> string \<Rightarrow> string \<Rightarrow> string \<Rightarrow> bool \<Rightarrow> creationJobs \<Rightarrow> Authority \<Rightarrow>
   Authority \<times> creationJobs \<times> (answer + Lease)" where
  "runCreationAsync H E l key bodyHash verb perm creates j a =
     (if \<not> creates then (a, j, Inl (ErrorAnswer 400 ''bad_request'' ''async applies only to creation verbs''))
      else (case BeginAction H (je_peekNow E) Saved l key bodyHash True (\<lambda>r. r) a of
        (a1, Inl e) \<Rightarrow> (a1, j, Inl (writeAuthErr e))
      | (a1, Inr IdemProceed) \<Rightarrow>
         (case je_precheck E of
            Some e \<Rightarrow> (case precheckCode (je_revoked E) (je_expired E) verb e of (status, cd, msg) \<Rightarrow> (a1, j, Inl (ErrorAnswer status cd msg)))
          | None \<Rightarrow>
             (case reserve (ls_ClientID l) j of
                None \<Rightarrow> (a1, j, Inl (ErrorAnswer 429 ''rate_limited'' ''too many creations are in progress; nothing was recorded, retry later''))
              | Some j1 \<Rightarrow>
                  (case beginCreation H E l key bodyHash verb perm a1 of
                     (a2, Inl ans) \<Rightarrow> (a2, releaseJob (ls_ClientID l) j1, Inl ans)
                   | (a2, Inr h) \<Rightarrow> (a2, j1, Inr h))))
      | (a1, Inr out) \<Rightarrow> (case existingReply E l key verb out a1 of (a2, ans) \<Rightarrow> (a2, j, Inl ans))))"

definition creationJob ::
  "jobEnv \<Rightarrow> Lease \<Rightarrow> string \<Rightarrow> string \<Rightarrow> string \<Rightarrow> string option \<Rightarrow> creationJobs \<Rightarrow> Authority \<Rightarrow> Authority \<times> creationJobs" where
  "creationJob E h key verb perm target j a =
     (let a' =
       (case je_queueEnded E of Some grantEnded \<Rightarrow> didNotRun E h key (EndedInQueue grantEnded) a | None \<Rightarrow>
       (case GrantLive (je_liveNow E) h perm a of Some e \<Rightarrow> didNotRun E h key (NotLive e) a | None \<Rightarrow>
       (case je_again E of Some e \<Rightarrow> didNotRun E h key (PrecheckFailed (je_revokedAgain E) (je_expiredAgain E) verb e) a | None \<Rightarrow>
        if je_rootChanged E then didNotRun E h key (PrecheckFailed (je_revokedAgain E) (je_expiredAgain E) verb ErrNotFound) a
        else (case MarkDispatched (je_markNow E) (je_markIO E) h key a of
            (a1, Some e) \<Rightarrow> didNotRun E h key (MarkFailed e) a1
          | (a1, None) \<Rightarrow>
              (let (ident, err) = je_call E
               in endAction (je_endNow E) (je_endIO E) h key (fst (settle True target [] ident (je_revokedLate E) err)) a1)))))
      in (Done h a', releaseJob (ls_ClientID h) j))"

end
