(* ===== verification/Direct_System.thy ===== *)
theory Direct_System
  imports Direct_Server
begin

text \<open>
  The direct server over time: the authority and its handlers as a step relation with crashes, restarts
  and failed writes. A random code, token or client id is one that was never drawn before; that is the
  only assumption on them. Each step may extend a log of what the outside saw, newest first.
\<close>

section \<open>The system\<close>

datatype event =
    EvCode string
  | EvClient string
  | EvToken string string
  | EvRedeemed string
  | EvRefreshed string
  | EvRevoked string
  | EvAdmitted string
  | EvSent string string
  | EvNotSent string string

text \<open>
  A handler between \<^verbatim>\<open>BeginAction\<close> and the end of its action: admitted (sync or async), past a failed
  \<^verbatim>\<open>MarkDispatched\<close>, or with its action handed to the daemon.
\<close>

datatype phase = Begun bool | Stopped | SentOff

type_synonym jobs = "(string \<times> string, phase) gomap"

datatype node = Up Authority | Down "storeState option" "string option"

type_synonym dsys = "node \<times> jobs \<times> event list"

definition codesOf :: "event list \<Rightarrow> string set" where "codesOf L = {h. EvCode h \<in> set L}"
definition clientsOf :: "event list \<Rightarrow> string set" where "clientsOf L = {c. EvClient c \<in> set L}"
definition tokensOf :: "event list \<Rightarrow> (string \<times> string) set" where "tokensOf L = {(c, h). EvToken c h \<in> set L}"
definition redeemedOf :: "event list \<Rightarrow> string set" where "redeemedOf L = {h. EvRedeemed h \<in> set L}"
definition refreshedOf :: "event list \<Rightarrow> string set" where "refreshedOf L = {h. EvRefreshed h \<in> set L}"
definition revokedOf :: "event list \<Rightarrow> string set" where "revokedOf L = {c. EvRevoked c \<in> set L}"
definition sentOf :: "event list \<Rightarrow> (string \<times> string) set" where "sentOf L = {(c, k). EvSent c k \<in> set L}"

lemmas log_sets = codesOf_def clientsOf_def tokensOf_def redeemedOf_def refreshedOf_def revokedOf_def sentOf_def

text \<open>The operations after which nothing is new to the outside.\<close>

inductive quiet :: "(string \<Rightarrow> string) \<Rightarrow> Authority \<Rightarrow> Authority \<Rightarrow> bool" for H where
  enable: "quiet H a (fst (EnableCloud now io req a))"
| disable: "quiet H a (fst (DisableCloud now io reason a))"
| claim: "quiet H a (fst (ClaimTicket H now io secret challenge meth a))"
| sign_out: "quiet H a (fst (RevokeToken H now io token a))"
| ensure_id: "quiet H a (fst (EnsureCreationID io creationID l key verb a))"
| lease_done: "quiet H a (Done l a)"
| watch: "quiet H a (watchGrant now l a)"
| close: "quiet H a (CloseAuthority a)"

inductive dstep :: "(string \<Rightarrow> string) \<Rightarrow> (string \<Rightarrow> string) \<Rightarrow> dsys \<Rightarrow> dsys \<Rightarrow> bool" for H D where
  quiet: "quiet H a a' \<Longrightarrow> dstep H D (Up a, J, L) (Up a', J, L)"
| new_code: "\<lbrakk>NewCode H now secret io label perms resource ttl a = (a', res); H secret \<notin> codesOf L\<rbrakk> \<Longrightarrow>
    dstep H D (Up a, J, L) (Up a', J, EvCode (H secret) # L)"
| issue: "\<lbrakk>IssueCloudCode H now secret io req a = (a', res); H secret \<notin> codesOf L\<rbrakk> \<Longrightarrow>
    dstep H D (Up a, J, L) (Up a', J, EvCode (H secret) # L)"
| redeem: "\<lbrakk>Redeem H D now ioV io acc refresh clientID secret label kind verifier a = (a', res); 0 < now;
      clientID \<notin> clientsOf L; H refresh \<notin> insert [] (snd ` tokensOf L)\<rbrakk> \<Longrightarrow>
    dstep H D (Up a, J, L) (Up a', J, (if isl res then [] else [EvRedeemed (H secret)]) @
      EvClient clientID # EvToken clientID (H refresh) # L)"
| refresh: "\<lbrakk>Refresh H now io acc nxt token a = (a', res); H token \<noteq> []; H nxt \<notin> insert [] (snd ` tokensOf L);
      owner = (case findRefresh (H token) a of Some g \<Rightarrow> gr_ClientID g | None \<Rightarrow> [])\<rbrakk> \<Longrightarrow>
    dstep H D (Up a, J, L) (Up a', J, (if isl res then [] else [EvRefreshed (H token)]) @
      EvToken owner (H nxt) # L)"
| revoke: "\<lbrakk>RevokeGrant now io clientID reason a = (a', err); 0 < now\<rbrakk> \<Longrightarrow>
    dstep H D (Up a, J, L) (Up a', J, (if err = None then [EvRevoked clientID] else []) @ L)"
| reset: "\<lbrakk>ResetIdentity now io ioI generation a = (a', err); 0 < now\<rbrakk> \<Longrightarrow>
    dstep H D (Up a, J, L) (Up a', J, (if err = None then map (EvRevoked \<circ> fst) (st_Grants (au_state a)) else []) @ L)"
| admit: "Admit H now n token perm a = (a', Inr l) \<Longrightarrow>
    dstep H D (Up a, J, L) (Up a', J, EvAdmitted (ls_ClientID l) # L)"
| hold: "Hold now n l0 perm a = (a', Inr l) \<Longrightarrow>
    dstep H D (Up a, J, L) (Up a', J, EvAdmitted (ls_ClientID l) # L)"
| peek: "BeginAction H now io l key bodyHash True ini a = (a', res) \<Longrightarrow> dstep H D (Up a, J, L) (Up a', J, L)"
| begin_sync: "BeginAction H now io l key bodyHash False (\<lambda>r. r) a = (a', res) \<Longrightarrow>
    dstep H D (Up a, J, L) (Up a', if res = Inr IdemProceed then mput (ls_ClientID l, key) (Begun False) J else J, L)"
| begin_async: "BeginAction H now io l key bodyHash False (stampCreation creationID verb True) a = (a', res) \<Longrightarrow>
    dstep H D (Up a, J, L) (Up a', if res = Inr IdemProceed then mput (ls_ClientID l, key) (Begun True) J else J, L)"
| told_by_reply: "\<lbrakk>BeginAction H now io l key bodyHash peek ini a = (a', Inr out);
      idemReply identities before after out = Some (ErrorAnswer status cd undispatchedError)\<rbrakk> \<Longrightarrow>
    dstep H D (Up a, J, L) (Up a', J, EvNotSent (ls_ClientID l) key # L)"
| told_by_status: "\<lbrakk>creationByKey l key a = Some v;
      writeCreation identities before after ended status v now = StatusAnswer status st; cs_Error st = undispatchedError\<rbrakk> \<Longrightarrow>
    dstep H D (Up a, J, L) (Up a, J, EvNotSent (ls_ClientID l) key # L)"
| abort: "map_of J (ls_ClientID l, key) = Some (Begun False) \<Longrightarrow>
    dstep H D (Up a, J, L) (Up (AbortAction io l key a), mdel (ls_ClientID l, key) J, L)"
| send: "map_of J (cid, key) = Some (Begun False) \<Longrightarrow>
    dstep H D (Up a, J, L) (Up a, mput (cid, key) SentOff J, EvSent cid key # L)"
| dispatch: "\<lbrakk>map_of J (ls_ClientID l, key) = Some (Begun True); MarkDispatched now io l key a = (a', None); 0 < now\<rbrakk> \<Longrightarrow>
    dstep H D (Up a, J, L) (Up a', mput (ls_ClientID l, key) SentOff J, EvSent (ls_ClientID l) key # L)"
| dispatch_failed: "\<lbrakk>map_of J (ls_ClientID l, key) = Some (Begun True); MarkDispatched now io l key a = (a', Some e)\<rbrakk> \<Longrightarrow>
    dstep H D (Up a, J, L) (Up a', mput (ls_ClientID l, key) Stopped J, L)"
| not_run: "\<lbrakk>map_of J (ls_ClientID l, key) = Some (Begun True) \<or> map_of J (ls_ClientID l, key) = Some Stopped; notRun cause = (cd, msg)\<rbrakk> \<Longrightarrow>
    dstep H D (Up a, J, L) (Up (endAction now io l key (FinishAction False cd msg) a), mdel (ls_ClientID l, key) J, L)"
| settled: "\<lbrakk>map_of J (ls_ClientID l, key) = Some SentOff; settle creates target affected ident revoked err = (upd, ans)\<rbrakk> \<Longrightarrow>
    dstep H D (Up a, J, L) (Up (endAction now io l key upd a), mdel (ls_ClientID l, key) J, L)"
| crash: "dstep H D (Up a, J, L) (Down (au_disk a) (au_diskIdentity a), [], L)"
| restart: "loadAuthority now ioM ioN ioI ioG newGen boot life d g = ((d', g'), opened) \<Longrightarrow>
    dstep H D (Down d g, [], L) (case opened of Some a \<Rightarrow> Up a | None \<Rightarrow> Down d' g', [], L)"

text \<open>Every run starts on a machine that has neither a registry nor an identity.\<close>

inductive druns :: "(string \<Rightarrow> string) \<Rightarrow> (string \<Rightarrow> string) \<Rightarrow> dsys \<Rightarrow> bool" for H D where
  start: "druns H D (Down None None, [], [])"
| step: "druns H D s \<Longrightarrow> dstep H D s s' \<Longrightarrow> druns H D s'"

end
