(* ===== verification/Direct_Evolve.thy ===== *)
theory Direct_Evolve
  imports Direct_Authority
begin

text \<open>
  What one operation of the direct authority may do to the registry, in memory and on disk. The
  relation \<open>evolves\<close> bounds the change from above: codes and grants come only from the fresh names
  the operation drew, nothing that was consumed, revoked or used is undone, and idempotency keys
  are not lost, except where the operation says so. Every operation is shown to stay within it
  once; the properties of the registry then need only the relation.
\<close>

section \<open>The well-formed registry\<close>

definition permsOk :: "string list \<Rightarrow> bool" where
  "permsOk ps \<longleftrightarrow> PermRead \<in> set ps \<and> ps = filter (\<lambda>p. p \<in> set ps) Permissions"

definition scopeOk :: "ResourceScope \<Rightarrow> bool" where
  "scopeOk r \<longleftrightarrow> sc_Kind r = ResourceAllSessions \<and> sc_Workgroups r = [] \<or>
     sc_Kind r = ResourceWorkgroups \<and> sc_Workgroups r \<noteq> [] \<and> sorted_wrt (<) (sc_Workgroups r) \<and>
     list_all validSessionID (sc_Workgroups r) \<and> DirectConsoleID \<notin> set (sc_Workgroups r)"

definition grantOk :: "string \<Rightarrow> grantRecord \<Rightarrow> bool" where
  "grantOk cid g \<longleftrightarrow> gr_ClientID g = cid \<and> permsOk (gr_Perms g) \<and> scopeOk (gr_Resource g) \<and>
     gwf (gr_Idem g) \<and> length (gr_Idem g) \<le> maxIdemPerGrant \<and> length (gr_Spent g) \<le> maxSpentPerGrant \<and>
     length (gr_UsedRefresh g) \<le> maxUsedRefresh"

definition codeOk :: "cloudPolicy option \<Rightarrow> codeRecord \<Rightarrow> bool" where
  "codeOk cloud c \<longleftrightarrow> permsOk (co_Perms c) \<and> scopeOk (co_Resource c) \<and>
     (co_Origin c = OriginCloud \<longrightarrow>
        (case cloud of
           None \<Rightarrow> False
         | Some p \<Rightarrow> co_PolicyGen c \<le> cp_Generation p \<and>
             (co_PolicyGen c = cp_Generation p \<and> cp_Enabled p \<longrightarrow>
                set (co_Perms c) \<subseteq> set (cp_Perms p) \<and> withinCeiling (co_Resource c) (cp_Resource p))))"

definition registryOk :: "storeState \<Rightarrow> bool" where
  "registryOk st \<longleftrightarrow> (\<forall>cid g. map_of (st_Grants st) cid = Some g \<longrightarrow> grantOk cid g)
     \<and> (\<forall>h c. map_of (st_Codes st) h = Some c \<longrightarrow> codeOk (st_Cloud st) c)
     \<and> gwf (st_Grants st) \<and> gwf (st_Codes st)"

section \<open>The relation\<close>

record fresh =
  fr_codes :: "string set"
  fr_tokens :: "(string \<times> string) set"
  fr_clients :: "string set"
  fr_added :: "(string \<times> string) set"
  fr_removed :: "(string \<times> string) set"
  fr_marked :: "(string \<times> string) set"

definition nothingNew :: fresh where
  "nothingNew = \<lparr>fr_codes = {}, fr_tokens = {}, fr_clients = {}, fr_added = {}, fr_removed = {}, fr_marked = {}\<rparr>"

definition keyUsed :: "(string \<Rightarrow> string) \<Rightarrow> grantRecord \<Rightarrow> string \<Rightarrow> bool" where
  "keyUsed H g k \<longleftrightarrow> map_of (gr_Idem g) k \<noteq> None \<or> map_of (gr_Spent g) (spentKey H k) \<noteq> None"

definition saysNotSent :: "idemRecord \<Rightarrow> bool" where
  "saysNotSent r \<longleftrightarrow> undispatched r \<or> im_State r = idemDone \<and> \<not> im_OK r \<and> im_Error r = undispatchedError"

definition idemRel :: "fresh \<Rightarrow> string \<times> string \<Rightarrow> idemRecord \<Rightarrow> idemRecord \<Rightarrow> bool" where
  "idemRel F ck r r' \<longleftrightarrow> (saysNotSent r' \<longrightarrow> saysNotSent r \<or> ck \<in> fr_marked F)"

definition codeRel :: "codeRecord \<Rightarrow> codeRecord \<Rightarrow> bool" where
  "codeRel c c' \<longleftrightarrow> (co_ConsumedAt c \<noteq> 0 \<longrightarrow> co_ConsumedAt c' \<noteq> 0)"

definition grantRel :: "(string \<Rightarrow> string) \<Rightarrow> fresh \<Rightarrow> string \<Rightarrow> grantRecord \<Rightarrow> grantRecord \<Rightarrow> bool" where
  "grantRel H F cid g g' \<longleftrightarrow> (gr_RevokedAt g \<noteq> 0 \<longrightarrow> gr_RevokedAt g' \<noteq> 0)
     \<and> (gr_RefreshHash g' = gr_RefreshHash g \<or> gr_RefreshHash g' = [] \<or> (cid, gr_RefreshHash g') \<in> fr_tokens F)
     \<and> (\<forall>k. keyUsed H g k \<longrightarrow> keyUsed H g' k \<or> (cid, k) \<in> fr_removed F)
     \<and> (\<forall>k r'. map_of (gr_Idem g') k = Some r' \<longrightarrow>
          (cid, k) \<in> fr_added F \<or> (\<exists>r. map_of (gr_Idem g) k = Some r \<and> idemRel F (cid, k) r r'))"

definition codeFrom :: "fresh \<Rightarrow> storeState \<Rightarrow> string \<Rightarrow> codeRecord \<Rightarrow> bool" where
  "codeFrom F st h c' \<longleftrightarrow> h \<in> fr_codes F \<or> (\<exists>c. map_of (st_Codes st) h = Some c \<and> codeRel c c')"

definition grantNew :: "fresh \<Rightarrow> string \<Rightarrow> grantRecord \<Rightarrow> bool" where
  "grantNew F cid g' \<longleftrightarrow> cid \<in> fr_clients F \<and> (gr_RefreshHash g' = [] \<or> (cid, gr_RefreshHash g') \<in> fr_tokens F) \<and>
     (\<forall>k r'. map_of (gr_Idem g') k = Some r' \<longrightarrow> (cid, k) \<in> fr_added F)"

definition grantFrom :: "(string \<Rightarrow> string) \<Rightarrow> fresh \<Rightarrow> storeState \<Rightarrow> string \<Rightarrow> grantRecord \<Rightarrow> bool" where
  "grantFrom H F st cid g' \<longleftrightarrow> grantNew F cid g' \<or> (\<exists>g. map_of (st_Grants st) cid = Some g \<and> grantRel H F cid g g')"

definition evolves :: "(string \<Rightarrow> string) \<Rightarrow> fresh \<Rightarrow> storeState \<Rightarrow> storeState \<Rightarrow> bool" where
  "evolves H F st st' \<longleftrightarrow> (registryOk st \<longrightarrow> registryOk st'
     \<and> (\<forall>h c'. map_of (st_Codes st') h = Some c' \<longrightarrow> codeFrom F st h c')
     \<and> (\<forall>cid g'. map_of (st_Grants st') cid = Some g' \<longrightarrow> grantFrom H F st cid g'))"

definition reaches :: "(string \<Rightarrow> string) \<Rightarrow> fresh \<Rightarrow> Authority \<Rightarrow> Authority \<Rightarrow> bool" where
  "reaches H F a a' \<longleftrightarrow> (registryOk (au_state a) \<longrightarrow> evolves H F (au_state a) (au_state a')
     \<and> (au_disk a' = au_disk a \<or> (\<exists>st. au_disk a' = Some st \<and> evolves H F (au_state a) st)))"

section \<open>Rules for the relation\<close>

lemma idemRel_refl [simp]: "idemRel F ck r r"
  by (simp add: idemRel_def)

lemma codeRel_refl [simp]: "codeRel c c"
  by (simp add: codeRel_def)

lemma grantRel_refl [simp]: "grantRel H F cid g g"
  by (auto simp: grantRel_def)

lemma evolves_refl [simp]: "evolves H F st st"
  by (auto simp: evolves_def codeFrom_def grantFrom_def)

lemma grantRelI:
  assumes "gr_RevokedAt g \<noteq> 0 \<Longrightarrow> gr_RevokedAt g' \<noteq> 0"
    and "gr_RefreshHash g' = gr_RefreshHash g \<or> gr_RefreshHash g' = [] \<or> (cid, gr_RefreshHash g') \<in> fr_tokens F"
    and "\<And>k. keyUsed H g k \<Longrightarrow> keyUsed H g' k \<or> (cid, k) \<in> fr_removed F"
    and "\<And>k r'. map_of (gr_Idem g') k = Some r' \<Longrightarrow>
      (cid, k) \<in> fr_added F \<or> (\<exists>r. map_of (gr_Idem g) k = Some r \<and> idemRel F (cid, k) r r')"
  shows "grantRel H F cid g g'"
  using assms by (simp add: grantRel_def)

lemma grantRelD:
  assumes "grantRel H F cid g g'"
  shows "gr_RevokedAt g \<noteq> 0 \<Longrightarrow> gr_RevokedAt g' \<noteq> 0"
    and "gr_RefreshHash g' = gr_RefreshHash g \<or> gr_RefreshHash g' = [] \<or> (cid, gr_RefreshHash g') \<in> fr_tokens F"
    and "\<And>k. keyUsed H g k \<Longrightarrow> keyUsed H g' k \<or> (cid, k) \<in> fr_removed F"
    and "\<And>k r'. map_of (gr_Idem g') k = Some r' \<Longrightarrow> (cid, k) \<notin> fr_added F \<Longrightarrow>
      \<exists>r. map_of (gr_Idem g) k = Some r \<and> idemRel F (cid, k) r r'"
  using assms unfolding grantRel_def by blast+

lemma grantRel_trans:
  assumes 1: "grantRel H F cid g g1" and 2: "grantRel H F cid g1 g2"
  shows "grantRel H F cid g g2"
proof (rule grantRelI)
  show "gr_RevokedAt g2 \<noteq> 0" if "gr_RevokedAt g \<noteq> 0"
    using grantRelD(1) [OF 2] grantRelD(1) [OF 1] that by blast
  show "gr_RefreshHash g2 = gr_RefreshHash g \<or> gr_RefreshHash g2 = [] \<or> (cid, gr_RefreshHash g2) \<in> fr_tokens F"
    using grantRelD(2) [OF 1] grantRelD(2) [OF 2] by metis
  show "keyUsed H g2 k \<or> (cid, k) \<in> fr_removed F" if "keyUsed H g k" for k
    using grantRelD(3) [OF 1 that] grantRelD(3) [OF 2, of k] by blast
  show "(cid, k) \<in> fr_added F \<or> (\<exists>r. map_of (gr_Idem g) k = Some r \<and> idemRel F (cid, k) r r2)"
    if r2: "map_of (gr_Idem g2) k = Some r2" for k r2
  proof (cases "(cid, k) \<in> fr_added F")
    case False
    obtain r1 where r1: "map_of (gr_Idem g1) k = Some r1" "idemRel F (cid, k) r1 r2"
      using grantRelD(4) [OF 2 r2 False] by blast
    obtain r where "map_of (gr_Idem g) k = Some r" "idemRel F (cid, k) r r1"
      using grantRelD(4) [OF 1 r1(1) False] by blast
    with r1(2) show ?thesis by (auto simp: idemRel_def)
  qed simp
qed

lemma codeFrom_trans:
  assumes "codeFrom F st h c1" "codeRel c1 c2"
  shows "codeFrom F st h c2"
  using assms by (auto simp: codeFrom_def codeRel_def)

lemma grantNew_trans:
  assumes new: "grantNew F cid g1" and 2: "grantRel H F cid g1 g2"
  shows "grantNew F cid g2"
  unfolding grantNew_def
proof (intro conjI allI impI)
  show "cid \<in> fr_clients F" using new by (simp add: grantNew_def)
  show "gr_RefreshHash g2 = [] \<or> (cid, gr_RefreshHash g2) \<in> fr_tokens F"
    using grantRelD(2) [OF 2] new by (auto simp: grantNew_def)
  show "(cid, k) \<in> fr_added F" if "map_of (gr_Idem g2) k = Some r'" for k r'
    using grantRelD(4) [OF 2 that] new by (auto simp: grantNew_def)
qed

lemma grantFrom_trans:
  assumes "grantFrom H F st cid g1" and 2: "grantRel H F cid g1 g2"
  shows "grantFrom H F st cid g2"
  using assms grantRel_trans [OF _ 2] grantNew_trans [OF _ 2] unfolding grantFrom_def by blast

lemma evolvesI:
  assumes "registryOk st \<Longrightarrow> registryOk st'"
    and "\<And>h c'. registryOk st \<Longrightarrow> map_of (st_Codes st') h = Some c' \<Longrightarrow> codeFrom F st h c'"
    and "\<And>cid g'. registryOk st \<Longrightarrow> map_of (st_Grants st') cid = Some g' \<Longrightarrow> grantFrom H F st cid g'"
  shows "evolves H F st st'"
  using assms by (simp add: evolves_def)

lemma evolvesD:
  assumes "evolves H F st st'" "registryOk st"
  shows "registryOk st'"
    and "\<And>h c'. map_of (st_Codes st') h = Some c' \<Longrightarrow> codeFrom F st h c'"
    and "\<And>cid g'. map_of (st_Grants st') cid = Some g' \<Longrightarrow> grantFrom H F st cid g'"
  using assms by (simp_all add: evolves_def)

lemma codeFrom_evolves:
  assumes 1: "evolves H F st st1" "registryOk st" and 2: "codeFrom F st1 h c2"
  shows "codeFrom F st h c2"
proof (cases "h \<in> fr_codes F")
  case False
  with 2 obtain c1 where c1: "map_of (st_Codes st1) h = Some c1" "codeRel c1 c2" by (auto simp: codeFrom_def)
  show ?thesis by (rule codeFrom_trans [OF evolvesD(2) [OF 1 c1(1)] c1(2)])
qed (simp add: codeFrom_def)

lemma grantFrom_evolves:
  assumes 1: "evolves H F st st1" "registryOk st" and 2: "grantFrom H F st1 cid g2"
  shows "grantFrom H F st cid g2"
  using 2 unfolding grantFrom_def [of H F st1]
proof (elim disjE exE conjE)
  fix g1 assume "map_of (st_Grants st1) cid = Some g1" "grantRel H F cid g1 g2"
  then show ?thesis by (metis evolvesD(3) [OF 1] grantFrom_trans)
qed (simp_all add: grantFrom_def)

lemma evolves_trans [trans]:
  assumes 1: "evolves H F st st1" and 2: "evolves H F st1 st2"
  shows "evolves H F st st2"
proof (rule evolvesI)
  assume ok: "registryOk st"
  note ok1 = evolvesD(1) [OF 1 ok]
  show "registryOk st2" by (rule evolvesD(1) [OF 2 ok1])
  show "codeFrom F st h c2" if "map_of (st_Codes st2) h = Some c2" for h c2
    by (rule codeFrom_evolves [OF 1 ok evolvesD(2) [OF 2 ok1 that]])
  show "grantFrom H F st cid g2" if "map_of (st_Grants st2) cid = Some g2" for cid g2
    by (rule grantFrom_evolves [OF 1 ok evolvesD(3) [OF 2 ok1 that]])
qed

section \<open>Changes of one field\<close>

lemma evolves_rest [simp]:
  "evolves H F st (st\<lparr>st_V := v\<rparr>)"
  "evolves H F st (st\<lparr>st_IdentityGeneration := gen\<rparr>)"
  "evolves H F st (st\<lparr>st_CloudIssues := is\<rparr>)"
  by (auto simp: evolves_def registryOk_def codeFrom_def grantFrom_def)

lemma evolves_cloud:
  assumes "\<And>c. registryOk st \<Longrightarrow> codeOk (st_Cloud st) c \<Longrightarrow> codeOk p c"
  shows "evolves H F st (st\<lparr>st_Cloud := p\<rparr>)"
  using assms by (auto simp: evolves_def registryOk_def codeFrom_def grantFrom_def)

lemma registryOkD:
  assumes "registryOk st"
  shows "\<And>cid g. map_of (st_Grants st) cid = Some g \<Longrightarrow> grantOk cid g"
    and "\<And>h c. map_of (st_Codes st) h = Some c \<Longrightarrow> codeOk (st_Cloud st) c"
    and "gwf (st_Grants st)" "gwf (st_Codes st)"
  using assms by (simp_all add: registryOk_def)

lemma codeFrom_old: "map_of (st_Codes st) h = Some c \<Longrightarrow> codeFrom F st h c"
  by (simp add: codeFrom_def)

lemma grantFrom_old: "map_of (st_Grants st) cid = Some g \<Longrightarrow> grantFrom H F st cid g"
  by (auto simp: grantFrom_def)

lemma registryOkI:
  assumes "\<And>cid g. map_of (st_Grants st) cid = Some g \<Longrightarrow> grantOk cid g"
    and "\<And>h c. map_of (st_Codes st) h = Some c \<Longrightarrow> codeOk (st_Cloud st) c"
    and "gwf (st_Grants st)" "gwf (st_Codes st)"
  shows "registryOk st"
  using assms by (simp add: registryOk_def)

lemma evolves_codes:
  assumes new: "\<And>h c'. registryOk st \<Longrightarrow> map_of C h = Some c' \<Longrightarrow> codeFrom F st h c' \<and> codeOk (st_Cloud st) c'"
    and wf: "registryOk st \<Longrightarrow> gwf C"
  shows "evolves H F st (st\<lparr>st_Codes := C\<rparr>)"
proof (rule evolvesI)
  assume ok: "registryOk st"
  show "registryOk (st\<lparr>st_Codes := C\<rparr>)"
    by (rule registryOkI) (simp_all add: registryOkD [OF ok] new [OF ok] wf [OF ok])
qed (simp_all add: new grantFrom_old)

lemma evolves_grants:
  assumes new: "\<And>cid g'. registryOk st \<Longrightarrow> map_of G cid = Some g' \<Longrightarrow> grantFrom H F st cid g' \<and> grantOk cid g'"
    and wf: "registryOk st \<Longrightarrow> gwf G"
  shows "evolves H F st (st\<lparr>st_Grants := G\<rparr>)"
proof (rule evolvesI)
  assume ok: "registryOk st"
  show "registryOk (st\<lparr>st_Grants := G\<rparr>)"
    by (rule registryOkI) (simp_all add: registryOkD [OF ok] new [OF ok] wf [OF ok])
qed (simp_all add: new codeFrom_old)

lemmas kept_facts = registryOkD codeFrom_old grantFrom_old

lemma evolves_mkeep:
  "evolves H F st (st\<lparr>st_Codes := mkeep P (st_Codes st)\<rparr>)"
  "evolves H F st (st\<lparr>st_Grants := mkeep Q (st_Grants st)\<rparr>)"
  by (rule evolves_codes evolves_grants;
      auto simp: map_of_mkeep registryOkD(3,4) intro: kept_facts split: option.splits if_splits)+

lemma evolves_mdel:
  "evolves H F st (st\<lparr>st_Codes := mdel h (st_Codes st)\<rparr>)"
  "evolves H F st (st\<lparr>st_Grants := mdel cid (st_Grants st)\<rparr>)"
  by (rule evolves_codes evolves_grants;
      auto simp: delete_conv' distinct_delete registryOkD(3,4) intro: kept_facts split: if_splits)+

lemma evolves_putCode:
  assumes "registryOk st \<Longrightarrow> codeFrom F st h c \<and> codeOk (st_Cloud st) c"
  shows "evolves H F st (st\<lparr>st_Codes := mput h c (st_Codes st)\<rparr>)"
  by (rule evolves_codes) (use assms in \<open>auto simp: registryOkD(3,4) intro: kept_facts split: if_splits\<close>)

lemma evolves_putGrant:
  assumes "registryOk st \<Longrightarrow> grantFrom H F st cid g \<and> grantOk cid g"
  shows "evolves H F st (st\<lparr>st_Grants := mput cid g (st_Grants st)\<rparr>)"
  by (rule evolves_grants) (use assms in \<open>auto simp: registryOkD(3,4) intro: kept_facts split: if_splits\<close>)

end
