(* ===== verification/Direct_Reach.thy ===== *)
theory Direct_Reach
  imports Direct_Evolve
begin

text \<open>
  Every operation of the direct authority stays within \<open>reaches\<close>: the registry in memory evolves from
  the one before, and the one on disk is unchanged or evolved from it too. The set of fresh names each
  lemma gives is all that its operation may add.
\<close>

section \<open>Commits\<close>

lemma state_simps [simp]:
  "au_state (modState f a) = f (au_state a)"
  "au_state (putGrant g a) = (au_state a)\<lparr>st_Grants := mput (gr_ClientID g) g (st_Grants (au_state a))\<rparr>"
  "au_state (delGrant cid a) = (au_state a)\<lparr>st_Grants := mdel cid (st_Grants (au_state a))\<rparr>"
  "au_state (putCode h c a) = (au_state a)\<lparr>st_Codes := mput h c (st_Codes (au_state a))\<rparr>"
  "au_state (delCode h a) = (au_state a)\<lparr>st_Codes := mdel h (st_Codes (au_state a))\<rparr>"
  "au_state (stopRunning cid key a) = au_state a"
  "au_state (cancelLeases cause P a) = au_state a"
  by (simp_all add: modState_def putGrant_def delGrant_def putCode_def delCode_def stopRunning_def cancelLeases_def)

lemma disk_simps [simp]:
  "au_disk (modState f a) = au_disk a"
  "au_disk (putGrant g a) = au_disk a"
  "au_disk (delGrant cid a) = au_disk a"
  "au_disk (putCode h c a) = au_disk a"
  "au_disk (delCode h a) = au_disk a"
  "au_disk (stopRunning cid key a) = au_disk a"
  "au_disk (cancelLeases cause P a) = au_disk a"
  "au_disk (pruneLocked now a) = au_disk a"
  by (simp_all add: modState_def putGrant_def delGrant_def putCode_def delCode_def stopRunning_def cancelLeases_def
      pruneLocked_def Let_def)

lemma commitLocked_facts:
  assumes "commitLocked io a = (a', err)"
  shows "au_state a' = au_state a" "au_disk a' = au_disk a \<or> au_disk a' = Some (au_state a)"
    and "err = None \<Longrightarrow> au_disk a' = Some (au_state a)"
    and "err = Some e \<Longrightarrow> rolledBack e \<Longrightarrow> a' = a"
  using assms by (auto simp: commitLocked_def rolledBack_def split: commitOutcome.splits)

lemma reaches_refl [simp]: "reaches H F a a"
  by (simp add: reaches_def)

lemma reachesI:
  "evolves H F (au_state a) (au_state a') \<Longrightarrow> au_disk a' = au_disk a \<Longrightarrow> reaches H F a a'"
  by (simp add: reaches_def)

lemma reaches_trans:
  assumes "reaches H F a a1" "reaches H F a1 a2"
  shows "reaches H F a a2"
  unfolding reaches_def
proof
  assume ok: "registryOk (au_state a)"
  with assms(1) have 1: "evolves H F (au_state a) (au_state a1)" by (simp add: reaches_def)
  have "registryOk (au_state a1)" by (rule evolvesD(1) [OF 1 ok])
  with assms ok show "evolves H F (au_state a) (au_state a2) \<and>
      (au_disk a2 = au_disk a \<or> (\<exists>st. au_disk a2 = Some st \<and> evolves H F (au_state a) st))"
    unfolding reaches_def by (metis 1 evolves_trans)
qed

lemma reaches_wlog: "(registryOk (au_state a) \<Longrightarrow> reaches H F a a') \<Longrightarrow> reaches H F a a'"
  by (simp add: reaches_def)

text \<open>A change of the memory, a write of it, and a further change of the memory.\<close>

lemma reaches_commit:
  assumes c: "commitLocked io a1 = (a2, err)"
    and 1: "evolves H F (au_state a) (au_state a1)" "au_disk a1 = au_disk a"
    and 2: "evolves H F (au_state a) (au_state a3)" "au_disk a3 = au_disk a2"
  shows "reaches H F a a3"
  using commitLocked_facts(2) [OF c] 1 2 by (auto simp: reaches_def)

lemma commit_case_reaches:
  assumes 1: "evolves H F (au_state a) (au_state a1)" "au_disk a1 = au_disk a"
    and good: "\<And>a2. au_state a2 = au_state a1 \<Longrightarrow>
      evolves H F (au_state a) (au_state (fst (good a2))) \<and> au_disk (fst (good a2)) = au_disk a2"
    and bad: "\<And>a2 e. au_state a2 = au_state a1 \<Longrightarrow>
      evolves H F (au_state a) (au_state (fst (bad a2 e))) \<and> au_disk (fst (bad a2 e)) = au_disk a2"
  shows "reaches H F a (fst (case commitLocked io a1 of (a2, None) \<Rightarrow> good a2 | (a2, Some e) \<Rightarrow> bad a2 e))"
proof -
  obtain a2 err where c: "commitLocked io a1 = (a2, err)" by fastforce
  note st = commitLocked_facts(1) [OF c]
  show ?thesis unfolding c
    by (cases err; rule reaches_commit [OF c]) (simp_all add: 1 good [OF st] bad [OF st])
qed

lemma evolves_same: "(registryOk st \<Longrightarrow> st' = st) \<Longrightarrow> evolves H F st st'"
  by (auto simp: evolves_def codeFrom_def grantFrom_def)

text \<open>The usual shape: a grant is replaced, written, and restored when the write did not happen.\<close>

lemma grant_back:
  assumes "map_of (st_Grants st) cid = Some g" "gr_ClientID g' = gr_ClientID g"
  shows "evolves H F st (st\<lparr>st_Grants := mput (gr_ClientID g) g (mput (gr_ClientID g') g' (st_Grants st))\<rparr>)"
proof (rule evolves_same)
  assume "registryOk st"
  with assms have "gr_ClientID g = cid" by (auto simp: registryOk_def grantOk_def)
  with assms show "st\<lparr>st_Grants := mput (gr_ClientID g) g (mput (gr_ClientID g') g' (st_Grants st))\<rparr> = st"
    by (simp add: update_triv)
qed

lemma evolves_regrant:
  assumes "map_of (st_Grants st) cid = Some g" "gr_ClientID g' = gr_ClientID g"
    and "grantOk cid g \<Longrightarrow> grantRel H F cid g g' \<and> grantOk cid g'"
  shows "evolves H F st (st\<lparr>st_Grants := mput (gr_ClientID g') g' (st_Grants st)\<rparr>)"
proof (rule evolves_putGrant)
  assume "registryOk st"
  then have ok: "grantOk cid g" using assms(1) by (rule registryOkD(1))
  then have "gr_ClientID g' = cid" using assms(2) by (simp add: grantOk_def)
  with assms(1) assms(3) [OF ok] show "grantFrom H F st (gr_ClientID g') g' \<and> grantOk (gr_ClientID g') g'"
    by (auto simp: grantFrom_def)
qed

lemma reaches_try_grant:
  assumes g: "grantOf a cid = Some g" "gr_ClientID g' = gr_ClientID g"
    and rel: "grantOk cid g \<Longrightarrow> grantRel H F cid g g' \<and> grantOk cid g'"
    and c: "commitLocked io (putGrant g' a) = (a2, err)"
  shows "reaches H F a a2" and "reaches H F a (putGrant g a2)"
proof -
  note new = evolves_regrant [OF g rel]
  show "reaches H F a a2"
    by (rule reaches_commit [OF c]) (simp_all add: new commitLocked_facts(1) [OF c])
  show "reaches H F a (putGrant g a2)"
    by (rule reaches_commit [OF c])
       (simp_all add: new commitLocked_facts(1) [OF c] grant_back [OF g])
qed

section \<open>Pruning and cloud replay material\<close>

lemma takeReplay_simps [simp]:
  "st_Codes (fst (takeReplayLocked c st)) = st_Codes st"
  "st_Grants (fst (takeReplayLocked c st)) = st_Grants st"
  "st_Cloud (fst (takeReplayLocked c st)) = st_Cloud st"
  by (simp_all add: takeReplayLocked_def split: option.splits)

lemma takeReplay_evolves [simp]: "evolves H F st (fst (takeReplayLocked c st))"
  by (simp add: takeReplayLocked_def split: option.splits)

lemma restoreReplay_simps [simp]:
  "st_Codes (restoreReplayLocked c secret st) = st_Codes st"
  "st_Grants (restoreReplayLocked c secret st) = st_Grants st"
  "st_Cloud (restoreReplayLocked c secret st) = st_Cloud st"
  by (simp_all add: restoreReplayLocked_def split: option.splits)

lemma restoreReplay_evolves [simp]: "evolves H F st (restoreReplayLocked c secret st)"
  by (simp add: restoreReplayLocked_def split: option.splits)

lemma evolves_fold:
  assumes "\<And>x st. evolves H F st (f x st)"
  shows "evolves H F st (fold f xs st)"
proof (induction xs arbitrary: st)
  case (Cons x xs)
  show ?case using evolves_trans [OF assms Cons.IH] by simp
qed simp

lemma takeReplay_fold_evolves:
  "evolves H F st (fold (\<lambda>(h, c) st. if P c then fst (takeReplayLocked c st) else st) cs st)"
  by (rule evolves_fold) auto

lemma codeOk_issued [simp]: "codeOk (map_option (\<lambda>p. p\<lparr>cp_Issued := f p\<rparr>) cloud) c = codeOk cloud c"
  by (cases cloud) (simp_all add: codeOk_def)

lemma evolves_issued: "evolves H F st (st\<lparr>st_Cloud := map_option (\<lambda>p. p\<lparr>cp_Issued := f p\<rparr>) (st_Cloud st)\<rparr>)"
  by (rule evolves_cloud) simp

lemma pruneCodes_evolves: "evolves H F st (pruneCodes now st)"
  unfolding pruneCodes_def Let_def
  by (rule evolves_trans [OF takeReplay_fold_evolves evolves_mkeep(1)])

lemma evolves_issues_cloud:
  "evolves H F st (st\<lparr>st_CloudIssues := is, st_Cloud := map_option (\<lambda>p. p\<lparr>cp_Issued := f p\<rparr>) (st_Cloud st)\<rparr>)"
  using evolves_trans [OF evolves_rest(3) evolves_issued] by simp

lemma pruneCloud_evolves: "evolves H F st (pruneCloudLocked now st)"
  unfolding pruneCloudLocked_def by (rule evolves_issues_cloud)

lemma prune_evolves [simp]: "evolves H F (au_state a) (au_state (pruneLocked now a))"
  unfolding pruneLocked_def Let_def
  using evolves_trans [OF evolves_trans [OF pruneCodes_evolves pruneCloud_evolves] evolves_mkeep(2)] by simp

section \<open>Enrollment codes\<close>

lemma ValidatePerms_ok:
  assumes "ValidatePerms ps = Inr qs"
  shows "permsOk qs"
proof -
  let ?T = "set (map TrimSpace ps)"
  from assms have "qs = filter (\<lambda>p. p \<in> ?T) Permissions" "PermRead \<in> ?T"
    by (auto simp: ValidatePerms_def Let_def split: if_splits)
  moreover have "PermRead \<in> set Permissions" by (simp add: Permissions_def)
  ultimately show ?thesis unfolding permsOk_def by (auto intro: filter_cong)
qed

lemma sorted_remdups_adj_strict:
  fixes xs :: "string list"
  assumes "sorted xs"
  shows "sorted_wrt (<) (remdups_adj xs)"
  using assms by (induction xs rule: remdups_adj.induct) (auto simp: order.strict_iff_order)

lemma sort_Nil_iff [simp]: "sort xs = [] \<longleftrightarrow> xs = []"
  by (metis length_0_conv length_sort)

lemma ValidateResource_ok:
  assumes "ValidateResource r = Inr r'"
  shows "scopeOk r'"
  using assms by (auto simp: ValidateResource_def scopeOk_def sorted_remdups_adj_strict list_all_iff split: if_splits)

lemma evolves_newCode:
  assumes "h \<in> fr_codes F" "registryOk st \<Longrightarrow> codeOk (st_Cloud st) c"
  shows "evolves H F st (st\<lparr>st_Codes := mput h c (st_Codes st)\<rparr>)"
  by (rule evolves_putCode) (use assms in \<open>simp add: codeFrom_def\<close>)

lemma codeOk_claimed [simp]:
  "codeOk cloud (c\<lparr>co_ConsumedAt := t\<rparr>) = codeOk cloud c"
  "codeOk cloud (c\<lparr>co_Challenge := ch\<rparr>) = codeOk cloud c"
  "codeOk cloud (c\<lparr>co_ClientID := cid\<rparr>) = codeOk cloud c"
  by (cases cloud; simp add: codeOk_def)+

lemma localCode_ok [simp]:
  assumes "permsOk perms" "scopeOk resource"
  shows "codeOk cloud (codeRecordOf label perms resource now exp)"
  using assms by (simp add: codeOk_def codeRecordOf_def)

lemma NewCode_reaches:
  "reaches H (nothingNew\<lparr>fr_codes := {H secret}\<rparr>) a (fst (NewCode H now secret io label perms resource ttl a))"
proof -
  let ?F = "nothingNew\<lparr>fr_codes := {H secret}\<rparr>" and ?p = "pruneLocked now a"
  have new: "evolves H ?F (au_state a) ((au_state ?p)\<lparr>st_Codes := mput (H secret) d (st_Codes (au_state ?p))\<rparr>)"
    if "\<And>cloud. codeOk cloud d" for d
    by (rule evolves_trans [OF prune_evolves evolves_newCode]) (simp_all add: that)
  have del: "evolves H ?F (au_state a) ((au_state ?p)\<lparr>st_Codes := mdel (H secret) (st_Codes (au_state ?p))\<rparr>)"
    by (rule evolves_trans [OF prune_evolves evolves_mdel(1)])
  show ?thesis
    unfolding NewCode_def Let_def
    by (auto split: option.splits sum.splits intro!: commit_case_reaches
        simp: new del delete_update_same ValidatePerms_ok ValidateResource_ok)
qed

section \<open>The cloud policy and its codes\<close>

lemma evolves_fields:
  assumes "evolves H F st st1" "st_Codes st2 = st_Codes st1" "st_Grants st2 = st_Grants st1" "st_Cloud st2 = st_Cloud st1"
  shows "evolves H F st st2"
proof -
  have "registryOk st2 = registryOk st1" by (simp only: registryOk_def assms)
  with assms(1) show ?thesis by (simp only: evolves_def assms(2-))
qed

lemma evolves_map_codes:
  assumes "\<And>c. codeRel c (f c)" "\<And>cloud c. codeOk cloud (f c) = codeOk cloud c"
  shows "evolves H F st (st\<lparr>st_Codes := map (\<lambda>(h, c). (h, f c)) (st_Codes st)\<rparr>)"
proof (rule evolves_codes)
  show "codeFrom F st h c' \<and> codeOk (st_Cloud st) c'"
    if ok: "registryOk st" and c: "map_of (map (\<lambda>(h, c). (h, f c)) (st_Codes st)) h = Some c'" for h c'
    using c registryOkD(2) [OF ok] assms by (auto simp: map_of_map_snd codeFrom_def)
qed (rule gwf_map_snd [THEN iffD2], rule registryOkD(4))

lemma EnableCloud_reaches: "reaches H F a (fst (EnableCloud now io req a))"
proof -
  have *: "evolves H F st (st\<lparr>st_Cloud := Some p\<rparr>)" if "cp_Generation p = Suc (cloudGenLocked st)" for st p
    by (rule evolves_cloud) (use that in \<open>auto simp: codeOk_def cloudGenLocked_def split: option.splits\<close>)
  have undo: "evolves H F st (st\<lparr>st_Cloud := p\<rparr>)" if "st_Cloud st = p" for st p
    by (rule evolves_cloud) (simp add: that)
  show ?thesis
    unfolding EnableCloud_def Let_def
    by (auto split: sum.split option.split intro!: commit_case_reaches simp: * undo)
qed

lemma consumeCloudCodes_evolves: "evolves H F st (consumeCloudCodes now st)"
  unfolding consumeCloudCodes_def Let_def
  by (rule evolves_trans [OF takeReplay_fold_evolves evolves_map_codes]) (auto simp: codeRel_def)

lemma disableCloud_evolves: "evolves H F st (disableCloudLocked reason now st)"
proof (cases "st_Cloud st")
  case (Some c)
  let ?p = "if cp_Enabled c
    then c\<lparr>cp_Enabled := False, cp_Generation := cp_Generation c + 1, cp_ChangedAt := now, cp_DisableReason := reason\<rparr> else c"
  have "evolves H F st (st\<lparr>st_Cloud := Some ?p\<rparr>)"
    by (rule evolves_cloud) (auto simp: codeOk_def Some)
  from evolves_trans [OF this consumeCloudCodes_evolves] show ?thesis by (simp add: disableCloudLocked_def Some)
qed (simp add: disableCloudLocked_def)

lemma DisableCloud_reaches: "reaches H F a (fst (DisableCloud now io reason a))"
proof -
  obtain a2 err where c: "commitLocked io (modState (disableCloudLocked reason now) a) = (a2, err)" by fastforce
  show ?thesis unfolding DisableCloud_def c
    by (auto intro!: reaches_commit [OF c] disableCloud_evolves simp: commitLocked_facts(1) [OF c])
qed

lemma evolves_cloudCode:
  assumes "h \<in> fr_codes F" "codeOk (st_Cloud st) c"
    and "st_Codes st2 = mput h c (st_Codes st) \<or> st_Codes st2 = mdel h (st_Codes st)" "st_Grants st2 = st_Grants st"
    and "st_Cloud st2 = map_option (\<lambda>p. p\<lparr>cp_Issued := ts\<rparr>) (st_Cloud st)"
  shows "evolves H F st st2"
proof -
  have put: "evolves H F st (st\<lparr>st_Codes := mput h c (st_Codes st)\<rparr>)"
    by (rule evolves_newCode) (simp_all add: assms)
  from assms(3) show ?thesis
  proof
    assume "st_Codes st2 = mput h c (st_Codes st)"
    with assms show ?thesis by (intro evolves_fields [OF evolves_trans [OF put evolves_issued]]) simp_all
  next
    assume "st_Codes st2 = mdel h (st_Codes st)"
    with assms show ?thesis by (intro evolves_fields [OF evolves_trans [OF evolves_mdel(1) evolves_issued]]) simp_all
  qed
qed

lemma takeReplay_fold_simps [simp]:
  "st_Codes (fold (\<lambda>(h, c) st. if P c then fst (takeReplayLocked c st) else st) cs st) = st_Codes st"
  "st_Grants (fold (\<lambda>(h, c) st. if P c then fst (takeReplayLocked c st) else st) cs st) = st_Grants st"
  "st_Cloud (fold (\<lambda>(h, c) st. if P c then fst (takeReplayLocked c st) else st) cs st) = st_Cloud st"
  by (induction cs arbitrary: st) auto

lemma prune_cloud:
  "st_Cloud (au_state (pruneLocked now a)) =
   map_option (\<lambda>p. p\<lparr>cp_Issued := filter (\<lambda>t. t > now - cloudRateWindow) (cp_Issued p)\<rparr>) (st_Cloud (au_state a))"
  by (simp add: pruneLocked_def pruneCloudLocked_def pruneCodes_def Let_def)

lemma cloudAdmits_facts:
  assumes "cloudAdmits cloud req = Inr (c, req', ticket)"
  shows "cloud = Some c" "cp_Enabled c" "codeOk cloud (cloudCodeRecord H now c req' ticket)"
proof -
  obtain perms res where *: "cloud = Some c" "cp_Enabled c" "ValidatePerms (cq_Permissions req) = Inr perms"
    "list_all (\<lambda>p. p \<in> set (cp_Perms c)) perms" "ValidateResource (cq_Resource req) = Inr res"
    "withinCeiling res (cp_Resource c)" "req' = req\<lparr>cq_Permissions := perms, cq_Resource := res\<rparr>"
    using assms by (auto simp: cloudAdmits_def split: option.splits if_splits sum.splits)
  then show "cloud = Some c" "cp_Enabled c" "codeOk cloud (cloudCodeRecord H now c req' ticket)"
    by (auto simp: codeOk_def cloudCodeRecord_def ValidatePerms_ok ValidateResource_ok list_all_iff)
qed

lemma mintCloudCode_reaches:
  assumes "codeOk (st_Cloud (au_state a)) (cloudCodeRecord H now c req ticket)" "H secret \<in> fr_codes F"
  shows "reaches H F a (fst (mintCloudCode H now secret io c req ticket a))"
proof -
  let ?rec = "cloudCodeRecord H now c req ticket"
  note new = evolves_cloudCode [OF assms(2,1)]
    and used = evolves_cloudCode [where c = "?rec\<lparr>co_ConsumedAt := now\<rparr>", OF assms(2)]
  show ?thesis
    unfolding mintCloudCode_def Let_def
  proof (rule commit_case_reaches, goal_cases)
    case (4 a2 e)
    then show ?case
    proof (cases "rolledBack e")
      case True
      then show ?thesis using 4 by (auto intro!: new simp: delete_update_same option.map_comp o_def)
    next
      case False
      then show ?thesis using 4 by (auto intro!: used simp: assms(1))
    qed
  qed (auto intro!: new)
qed

lemma IssueCloudCode_reaches:
  "reaches H (nothingNew\<lparr>fr_codes := {H secret}\<rparr>) a (fst (IssueCloudCode H now secret io req a))"
proof -
  let ?F = "nothingNew\<lparr>fr_codes := {H secret}\<rparr>"
  have p: "reaches H ?F a (pruneLocked now a)" by (rule reachesI) simp_all
  have m: "reaches H ?F a (fst (mintCloudCode H now secret io c req' ticket (pruneLocked now a)))"
    if "cloudAdmits (st_Cloud (au_state a)) r = Inr (c, req', ticket)" for c req' ticket r
    by (rule reaches_trans [OF p mintCloudCode_reaches]) (simp_all add: prune_cloud cloudAdmits_facts(3) [OF that])
  obtain r where r: "(if cq_Label req = [] then req\<lparr>cq_Label := ''cloud enrollment''\<rparr> else req) = r" by blast
  show ?thesis
    unfolding IssueCloudCode_def Let_def r
    by (simp add: p m split: sum.split option.split prod.split)
qed

lemma evolves_recode:
  assumes "map_of (st_Codes st) h = Some c" "codeRel c c'" "\<And>cloud. codeOk cloud c' = codeOk cloud c"
  shows "evolves H F st (st\<lparr>st_Codes := mput h c' (st_Codes st)\<rparr>)"
  by (rule evolves_putCode) (use assms in \<open>auto simp: codeFrom_def intro: registryOkD\<close>)

lemma checkVerifier_reaches:
  assumes "codeOf a key = Some rec" "co_ConsumedAt rec = 0"
  shows "reaches H F a (fst (checkVerifierLocked D now io key rec verifier a))"
proof -
  let ?a1 = "modState (\<lambda>st. fst (takeReplayLocked rec st)) (putCode key (rec\<lparr>co_ConsumedAt := now\<rparr>) a)"
  obtain a2 err where c: "commitLocked io ?a1 = (a2, err)" by fastforce
  have "evolves H F (au_state a) (au_state ?a1)"
    using evolves_trans [OF evolves_recode takeReplay_evolves] assms by (simp add: codeRel_def)
  then have "reaches H F a a2"
    by (intro reaches_commit [OF c]) (simp_all add: commitLocked_facts(1) [OF c])
  then show ?thesis by (auto simp: checkVerifierLocked_def c)
qed

lemma ClaimTicket_reaches: "reaches H F a (fst (ClaimTicket H now io secret challenge meth a))"
proof -
  have *: "evolves H F (au_state a) ((au_state a)\<lparr>st_Codes := mput h (c\<lparr>co_Challenge := ch\<rparr>) (st_Codes (au_state a))\<rparr>)"
    "evolves H F (au_state a) ((au_state a)\<lparr>st_Codes := mput h c (st_Codes (au_state a))\<rparr>)"
    if "codeOf a h = Some c" for h c ch
    by (rule evolves_recode [OF that]; simp add: codeRel_def)+
  show ?thesis
    unfolding ClaimTicket_def
    by (auto split: option.split intro!: commit_case_reaches simp: *)
qed

section \<open>Grants\<close>

definition revokedRecord :: "string \<Rightarrow> int \<Rightarrow> grantRecord \<Rightarrow> grantRecord" where
  "revokedRecord reason now g =
     (if gr_RevokedAt g = 0 then g\<lparr>gr_RevokedAt := now, gr_RevokeReason := reason\<rparr> else g)\<lparr>gr_RefreshHash := []\<rparr>"

lemma revokedRecord_simps [simp]:
  "gr_ClientID (revokedRecord reason now g) = gr_ClientID g"
  "gr_Idem (revokedRecord reason now g) = gr_Idem g"
  "gr_RefreshHash (revokedRecord reason now g) = []"
  "now \<noteq> 0 \<Longrightarrow> gr_RevokedAt (revokedRecord reason now g) \<noteq> 0"
  "grantOk cid (revokedRecord reason now g) = grantOk cid g"
  by (simp_all add: revokedRecord_def grantOk_def)

lemma revokedRecord_rel [simp]: "grantRel H F cid g (revokedRecord reason now g)"
  by (auto simp: grantRel_def revokedRecord_def keyUsed_def)

lemma markRevokedLocked_simps [simp]:
  "au_state (markRevokedLocked reason now g a) =
   (au_state a)\<lparr>st_Grants := mput (gr_ClientID g) (revokedRecord reason now g) (st_Grants (au_state a))\<rparr>"
  "au_disk (markRevokedLocked reason now g a) = au_disk a"
  by (simp_all add: markRevokedLocked_def Let_def flip: revokedRecord_def)

lemma revoked_evolves:
  assumes "map_of (st_Grants st) cid = Some g"
  shows "evolves H F st (st\<lparr>st_Grants := mput (gr_ClientID g) (revokedRecord reason now g) (st_Grants st)\<rparr>)"
  using evolves_regrant [OF assms, of "revokedRecord reason now g"] by simp

lemma revoke_reaches:
  assumes "grantOf a cid = Some g" "commitLocked io (markRevokedLocked reason now g a) = (a1, err)"
  shows "reaches H F a (cancelLeases cause P a1)"
  by (rule reaches_commit [OF assms(2)])
     (simp_all add: revoked_evolves [OF assms(1)] commitLocked_facts(1) [OF assms(2)])

lemma revokeAndUnlock_reaches:
  "grantOf a cid = Some g \<Longrightarrow> reaches H F a (fst (revokeAndUnlock now io reason g a))"
  by (simp add: revokeAndUnlock_def revoke_reaches split: prod.split)

lemma RevokeGrant_reaches: "reaches H F a (fst (RevokeGrant now io clientID reason a))"
  by (simp add: RevokeGrant_def revoke_reaches split: prod.split option.split)

lemma RevokeToken_reaches: "reaches H F a (fst (RevokeToken H' now io token a))"
  by (simp add: RevokeToken_def Let_def RevokeGrant_reaches)

lemma issueTokens_simps [simp]:
  "au_state (fst (issueTokens H now g acc refresh a)) = au_state (pruneLocked now a)"
  "au_disk (fst (issueTokens H now g acc refresh a)) = au_disk a"
  by (simp_all add: issueTokens_def Let_def)

lemma checkVerifier_None:
  assumes "checkVerifierLocked D now io key rec verifier a = (a1, None)"
  shows "a1 = a"
    and "co_Origin rec = OriginCloud \<Longrightarrow> ValidVerifier verifier \<and> S256Challenge D verifier = co_Challenge rec \<and>
      (\<exists>c. st_Cloud (au_state a) = Some c \<and> cp_Enabled c \<and> cp_Generation c = co_PolicyGen rec)"
  using assms by (auto simp: checkVerifierLocked_def split: if_splits option.splits)

lemma newGrant_new:
  assumes "clientID \<in> fr_clients F" "(clientID, H refresh) \<in> fr_tokens F" "codeOk cloud rec"
  shows "grantFrom H F st clientID (newGrant H now clientID label kind refresh rec a)"
    "grantOk clientID (newGrant H now clientID label kind refresh rec a)"
  using assms by (simp_all add: grantFrom_def grantNew_def newGrant_def grantOk_def codeOk_def)

lemma newGrant_id [simp]: "gr_ClientID (newGrant H now clientID label kind refresh rec a) = clientID"
  by (simp add: newGrant_def)

lemma commitRedeem_reaches:
  assumes rec: "codeOf a (H secret) = Some rec" "co_ConsumedAt rec = 0"
    and F: "clientID \<in> fr_clients F" "(clientID, H refresh) \<in> fr_tokens F"
  shows "reaches H F a (fst (commitRedeem H now io acc refresh clientID secret label kind rec a))"
proof (rule reaches_wlog)
  assume "registryOk (au_state a)"
  then have cok: "codeOk (st_Cloud (au_state a)) rec" using rec(1) by (rule registryOkD(2))
  define g where "g = newGrant H now clientID label kind refresh rec a"
  have gid: "gr_ClientID g = clientID" by (simp add: g_def)
  have gn: "grantFrom H F st clientID g" "grantOk clientID g" for st
    unfolding g_def by (rule newGrant_new [where H = H and refresh = refresh, OF F cok])+
  obtain st replay where st: "takeReplayLocked rec (au_state a) = (st, replay)" by fastforce
  have stf: "st_Codes st = st_Codes (au_state a)" "st_Grants st = st_Grants (au_state a)" "st_Cloud st = st_Cloud (au_state a)"
    using takeReplay_simps [of rec "au_state a"] by (simp_all add: st)
  let ?c = "rec\<lparr>co_ConsumedAt := now, co_ClientID := clientID\<rparr>"
  have put: "evolves H F (au_state a) ((au_state a)\<lparr>st_Codes := mput (H secret) ?c (st_Codes (au_state a)),
      st_Grants := mput clientID d (st_Grants (au_state a))\<rparr>)"
    if "\<And>st. grantFrom H F st clientID d" "grantOk clientID d" for d
    using evolves_trans [OF evolves_recode [OF rec(1)] evolves_putGrant, of ?c] rec(2) that by (simp add: codeRel_def)
  let ?u = "rec\<lparr>co_ConsumedAt := 0, co_ClientID := []\<rparr>"
  have del: "evolves H F (au_state a) ((au_state a)\<lparr>st_Codes := mput (H secret) ?u (st_Codes (au_state a)),
      st_Grants := mdel clientID (st_Grants (au_state a))\<rparr>)"
    using evolves_trans [OF evolves_recode [OF rec(1)] evolves_mdel(2), of ?u] rec(2) by (simp add: codeRel_def)
  have undone: "evolves H F (au_state a) (au_state (delGrant clientID (modState (restoreReplayLocked rec replay) (putCode (H secret) ?u a3))))"
    and revoked: "evolves H F (au_state a) (au_state (markRevokedLocked reason now g a3))"
    if "au_state a3 = au_state (putGrant g (putCode (H secret) ?c (a\<lparr>au_state := st\<rparr>)))" for a3 reason
    by (rule evolves_fields [OF del] evolves_fields [OF put [of "revokedRecord reason now g"]];
        simp add: that stf delete_update_same gid grantFrom_trans [OF gn(1)] gn(2))+
  have "evolves H F (au_state a) (au_state (putGrant g (putCode (H secret) ?c (a\<lparr>au_state := st\<rparr>))))"
    by (rule evolves_fields [OF put [OF gn]]) (simp_all add: gid stf)
  with undone revoked show "reaches H F a (fst (commitRedeem H now io acc refresh clientID secret label kind rec a))"
    unfolding commitRedeem_def g_def [symmetric] Let_def st prod.case
    by (intro commit_case_reaches) (auto simp: case_prod_beta intro: evolves_trans [OF _ prune_evolves])
qed

lemma Redeem_reaches:
  assumes "clientID \<in> fr_clients F" "(clientID, H refresh) \<in> fr_tokens F"
  shows "reaches H F a (fst (Redeem H D now ioV io acc refresh clientID secret label kind verifier a))"
proof -
  have *: "reaches H F a (fst (case checkVerifierLocked D now ioV (H secret) rec verifier a of
      (a1, Some e) \<Rightarrow> (a1, Inl e)
    | (a1, None) \<Rightarrow> commitRedeem H now io acc refresh clientID secret l k rec a1))"
    if rec: "codeOf a (H secret) = Some rec" "co_ConsumedAt rec = 0" for rec l k
    using checkVerifier_reaches [OF rec, of H F D now ioV verifier] checkVerifier_None(1)
      commitRedeem_reaches [where H = H and secret = secret and refresh = refresh, OF rec assms]
    by (fastforce split: prod.split option.split)
  show ?thesis unfolding Redeem_def Let_def by (simp add: * split: option.split)
qed

lemma findRefresh_grant:
  assumes "registryOk (au_state a)" "findRefresh h a = Some g"
  shows "grantOf a (gr_ClientID g) = Some g" "gr_RefreshHash g = h \<or> h \<in> set (gr_UsedRefresh g)"
proof -
  from assms(2) obtain cid where cid: "(cid, g) \<in> set (st_Grants (au_state a))" "gr_RefreshHash g = h \<or> h \<in> set (gr_UsedRefresh g)"
    by (auto simp: findRefresh_def find_Some_iff) (metis nth_mem)+
  then have "grantOf a cid = Some g" using registryOkD(3) [OF assms(1)] by simp
  moreover from registryOkD(1) [OF assms(1) this] have "gr_ClientID g = cid" by (simp add: grantOk_def)
  ultimately show "grantOf a (gr_ClientID g) = Some g" "gr_RefreshHash g = h \<or> h \<in> set (gr_UsedRefresh g)"
    using cid by simp_all
qed

definition rotated :: "string \<Rightarrow> int \<Rightarrow> grantRecord \<Rightarrow> grantRecord" where
  "rotated h now g = g\<lparr>gr_UsedRefresh := gr_UsedRefresh g @ [gr_RefreshHash g], gr_RefreshHash := h, gr_LastRefreshAt := now\<rparr>"

lemma rotated_rel:
  assumes "(cid, h) \<in> fr_tokens F" "length (gr_UsedRefresh g) < maxUsedRefresh" "grantOk cid g"
  shows "grantRel H F cid g (rotated h now g) \<and> grantOk cid (rotated h now g)"
  using assms by (auto simp: rotated_def grantRel_def grantOk_def keyUsed_def)

lemma Refresh_reaches:
  assumes F: "\<And>g. findRefresh (H refresh) a = Some g \<Longrightarrow> (gr_ClientID g, H nxt) \<in> fr_tokens F"
  shows "reaches H F a (fst (Refresh H now io acc nxt refresh a))"
proof (rule reaches_wlog)
  assume ok: "registryOk (au_state a)"
  show "reaches H F a (fst (Refresh H now io acc nxt refresh a))"
  proof (cases "findRefresh (H refresh) a")
    case (Some g)
    note g = findRefresh_grant(1) [OF ok Some]
    have "reaches H F a (fst (case commitLocked io (putGrant (rotated (H nxt) now g) a) of
        (a1, None) \<Rightarrow> (let (a2, resp) = issueTokens H now (rotated (H nxt) now g) acc nxt a1 in (a2, Inr resp))
      | (a1, Some e) \<Rightarrow> (if rolledBack e then putGrant g a1 else a1, Inl e)))"
      if u: "length (gr_UsedRefresh g) < maxUsedRefresh"
    proof -
      have "evolves H F (au_state a) (au_state (putGrant (rotated (H nxt) now g) a))"
        using evolves_regrant [OF g, of "rotated (H nxt) now g"] rotated_rel [OF F [OF Some] u, of H now] by (simp add: rotated_def)
      then show ?thesis
        by (intro commit_case_reaches)
           (auto simp: case_prod_beta Let_def rotated_def update_triv [OF g]
             intro: evolves_trans [OF _ prune_evolves])
    qed
    then show ?thesis
      unfolding Refresh_def Let_def Some option.case rotated_def [symmetric]
      by (simp add: revokeAndUnlock_reaches [OF g] split: option.split)
  qed (simp add: Refresh_def split: option.split)
qed

section \<open>Revoking everything, and opening\<close>

lemma revokeAll_fold_state:
  "au_state (fold (\<lambda>(cid, g). markRevokedLocked reason now g) gs a) =
   (au_state a)\<lparr>st_Grants := fold (\<lambda>(cid, g). mput (gr_ClientID g) (revokedRecord reason now g)) gs (st_Grants (au_state a))\<rparr>"
  by (induction gs arbitrary: a) auto

lemma revokeAll_fold_disk: "au_disk (fold (\<lambda>(cid, g). markRevokedLocked reason now g) gs a) = au_disk a"
  by (induction gs arbitrary: a) auto

lemma fold_mput_revoked:
  assumes "gwf gs" "\<forall>(cid, g) \<in> set gs. gr_ClientID g = cid"
  shows "map_of (fold (\<lambda>(cid, g). mput (gr_ClientID g) (f g)) gs m) k =
      (case map_of gs k of None \<Rightarrow> map_of m k | Some g \<Rightarrow> Some (f g))"
    and "gwf m \<Longrightarrow> gwf (fold (\<lambda>(cid, g). mput (gr_ClientID g) (f g)) gs m)"
  using assms by (induction gs arbitrary: m) (auto split: option.split, metis fst_conv image_eqI map_of_SomeD)

lemma revokeGrants_map:
  assumes "registryOk st"
  shows "map_of (fold (\<lambda>(cid, g). mput (gr_ClientID g) (revokedRecord reason now g)) (st_Grants st) (st_Grants st)) k =
      map_option (revokedRecord reason now) (map_of (st_Grants st) k)"
    and "gwf (fold (\<lambda>(cid, g). mput (gr_ClientID g) (revokedRecord reason now g)) (st_Grants st) (st_Grants st))"
proof -
  note wf = registryOkD(3) [OF assms]
  have id: "\<forall>(cid, g) \<in> set (st_Grants st). gr_ClientID g = cid"
    using registryOkD(1) [OF assms] wf by (fastforce simp: grantOk_def)
  show "map_of (fold (\<lambda>(cid, g). mput (gr_ClientID g) (revokedRecord reason now g)) (st_Grants st) (st_Grants st)) k =
      map_option (revokedRecord reason now) (map_of (st_Grants st) k)"
    by (simp add: fold_mput_revoked(1) [OF wf id] split: option.split)
  show "gwf (fold (\<lambda>(cid, g). mput (gr_ClientID g) (revokedRecord reason now g)) (st_Grants st) (st_Grants st))"
    by (rule fold_mput_revoked(2) [OF wf id wf])
qed

lemma revokeGrants_evolves:
  "evolves H F st (st\<lparr>st_Grants := fold (\<lambda>(cid, g). mput (gr_ClientID g) (revokedRecord reason now g)) (st_Grants st) (st_Grants st)\<rparr>)"
proof (rule evolves_grants)
  fix cid g' assume ok: "registryOk st"
    and "map_of (fold (\<lambda>(cid, g). mput (gr_ClientID g) (revokedRecord reason now g)) (st_Grants st) (st_Grants st)) cid = Some g'"
  then obtain g where "map_of (st_Grants st) cid = Some g" "g' = revokedRecord reason now g"
    by (auto simp: revokeGrants_map)
  then show "grantFrom H F st cid g' \<and> grantOk cid g'"
    using registryOkD(1) [OF ok] by (auto simp: grantFrom_def)
qed (simp add: revokeGrants_map)

lemma consumeCodes_evolves:
  "evolves H F st (st\<lparr>st_Codes := map (\<lambda>(h, c). (h, if co_ConsumedAt c = 0 then c\<lparr>co_ConsumedAt := now\<rparr> else c)) (st_Codes st)\<rparr>)"
  by (rule evolves_map_codes) (auto simp: codeRel_def)

lemma revokeAll_evolves: "evolves H F (au_state a) (au_state (revokeAllLocked now reason a))"
proof -
  let ?st = "\<lambda>a. fold (\<lambda>(h, c) st. fst (takeReplayLocked c st)) (st_Codes (au_state a)) (au_state a)"
  have take: "evolves H F st (fold (\<lambda>(h, c) st. fst (takeReplayLocked c st)) cs st)" for cs st
    by (rule evolves_fold) auto
  show ?thesis
    unfolding revokeAllLocked_def Let_def
    using evolves_trans [OF evolves_trans [OF evolves_trans [OF revokeGrants_evolves take] consumeCodes_evolves] disableCloud_evolves]
    by (simp add: revokeAll_fold_state)
qed

lemma revokeAll_disk [simp]: "au_disk (revokeAllLocked now reason a) = au_disk a"
  by (simp add: revokeAllLocked_def Let_def revokeAll_fold_disk)

lemma ResetIdentity_reaches: "reaches H F a (fst (ResetIdentity now io ioI generation a))"
proof -
  let ?a1 = "modState (\<lambda>st. st\<lparr>st_IdentityGeneration := generation\<rparr>) (revokeAllLocked now ''identity reset'' a)"
  obtain a2 err where c: "commitLocked io ?a1 = (a2, err)" by fastforce
  have 1: "evolves H F (au_state a) (au_state ?a1)"
    using evolves_trans [OF revokeAll_evolves evolves_rest(2)] by simp
  then have "reaches H F a a3" if "au_state a3 = au_state a2" "au_disk a3 = au_disk a2" for a3
    by (intro reaches_commit [OF c]) (simp_all add: that commitLocked_facts(1) [OF c])
  then show ?thesis
    by (simp add: ResetIdentity_def Let_def c split: option.split commitOutcome.split)
qed

definition diskState :: "storeState option \<Rightarrow> storeState" where
  "diskState d = (case d of None \<Rightarrow> emptyState | Some st \<Rightarrow> st)"

lemma settle_rel: "idemRel F ck r (settleUndispatched now r)"
  by (auto simp: idemRel_def settleUndispatched_def saysNotSent_def)

lemma normalize_rel:
  "grantRel H F cid g (g\<lparr>gr_Idem := map (\<lambda>(k, r). (k, settleUndispatched now r)) (gr_Idem g)\<rparr>)"
  using settle_rel by (fastforce simp: grantRel_def keyUsed_def map_of_map_snd)

end
