(* ===== verification/Direct_Actions.thy ===== *)
theory Direct_Actions
  imports Direct_Reach
begin

text \<open>
  The opening of the authority and the operations on idempotency records stay within \<open>evolves\<close> and
  \<open>reaches\<close> too, and what their successful answers say of the records.
\<close>

section \<open>Opening\<close>

lemma evolves_normalize: "evolves H F st (fst (normalizeUndispatched now st))"
  unfolding normalizeUndispatched_def fst_conv
proof (rule evolves_grants)
  let ?f = "\<lambda>g. g\<lparr>gr_Idem := map (\<lambda>(k, r). (k, settleUndispatched now r)) (gr_Idem g)\<rparr>"
  fix cid g' assume ok: "registryOk st" and "map_of (map (\<lambda>(k, g). (k, ?f g)) (st_Grants st)) cid = Some g'"
  then obtain g where g: "map_of (st_Grants st) cid = Some g" "g' = ?f g"
    by (auto simp: map_of_map_snd)
  moreover have "grantOk cid (?f g)"
    using registryOkD(1) [OF ok g(1)] gwf_map_snd [of "\<lambda>k r. settleUndispatched now r"] by (simp add: grantOk_def del: map_map)
  ultimately show "grantFrom H F st cid g' \<and> grantOk cid g'"
    using normalize_rel by (auto simp: grantFrom_def)
qed (rule gwf_map_snd [THEN iffD2], rule registryOkD(3))

lemma diskAfter_evolves:
  "evolves H F (diskState d) st \<Longrightarrow> evolves H F (diskState d) (diskState d') \<Longrightarrow> evolves H F (diskState d) (diskState (diskAfter io st d'))"
  by (cases io) (auto simp: diskAfter_def diskState_def)

lemma loadState_facts: "loadState d = Inr (st, migrate) \<Longrightarrow> st = diskState d"
  by (auto simp: loadState_def diskState_def split: option.splits if_splits)

lemma loadAuthority_evolves:
  assumes "loadAuthority now ioM ioN ioI ioG newGen boot life disk diskGen = ((disk', gen'), opened)"
  shows "evolves H F (diskState disk) (diskState disk')"
    and "opened = Some a \<Longrightarrow> au_disk a = disk' \<and> evolves H F (diskState disk) (au_state a)"
proof -
  have "evolves H F (diskState disk) (diskState disk') \<and>
      (\<forall>a. opened = Some a \<longrightarrow> au_disk a = disk' \<and> evolves H F (diskState disk) (au_state a))"
  proof (cases "loadState disk")
    case (Inl e)
    then show ?thesis using assms by (simp add: loadAuthority_def)
  next
    case (Inr p)
    obtain st mig where p: "p = (st, mig)" by fastforce
    define st1 where "st1 = (if mig then st\<lparr>st_V := stateVersion\<rparr> else st)"
    obtain st2 ch where n: "normalizeUndispatched now st1 = (st2, ch)" by fastforce
    define d1 where "d1 = (if mig then diskAfter ioM st1 disk else disk)"
    define d2 where "d2 = (if ch then diskAfter ioN st2 d1 else d1)"
    define gen where "gen = (case diskGen of None \<Rightarrow> newGen | Some g \<Rightarrow> g)"
    define dg where "dg = (if diskGen = None then diskAfter ioI newGen diskGen else diskGen)"
    define a1 where "a1 = modState (\<lambda>st. st\<lparr>st_IdentityGeneration := gen\<rparr>)
      (revokeAllLocked now ''identity changed'' (freshAuthority st2 d2 gen dg life boot))"
    have e1: "evolves H F (diskState disk) st1"
      using loadState_facts [OF Inr [unfolded p]] by (simp add: st1_def)
    have e2: "evolves H F (diskState disk) st2"
      using evolves_trans [OF e1 evolves_normalize, of now] by (simp add: n)
    have d1: "evolves H F (diskState disk) (diskState d1)" by (simp add: d1_def diskAfter_evolves e1)
    have d2: "evolves H F (diskState disk) (diskState d2)" by (simp add: d2_def diskAfter_evolves e2 d1)
    have a1: "evolves H F (diskState disk) (au_state a1)"
      using evolves_trans [OF revokeAll_evolves evolves_rest(2), of H F "freshAuthority st2 d2 gen dg life boot"]
      by (auto simp: a1_def freshAuthority_def intro: evolves_trans [OF e2])
    note d3 = diskAfter_evolves [OF a1 d2, of ioG]
    show ?thesis
      using assms d1 d2 d3 a1 e2 unfolding loadAuthority_def Inr p sum.case prod.case Let_def st1_def [symmetric] n d1_def [symmetric]
        d2_def [symmetric] gen_def [symmetric] dg_def [symmetric] a1_def [symmetric]
      by (auto simp: freshAuthority_def split: if_splits)
  qed
  then show "evolves H F (diskState disk) (diskState disk')"
    and "opened = Some a \<Longrightarrow> au_disk a = disk' \<and> evolves H F (diskState disk) (au_state a)" by blast+
qed

section \<open>Idempotency records\<close>

lemma length_mput_same: "map_of m k = Some w \<Longrightarrow> length (mput k v m) = length m"
  by (induction m) (auto split: if_splits)

lemma putIdem_rel:
  assumes "map_of (gr_Idem g) key = Some r" "idemRel F (cid, key) r r'"
  shows "grantRel H F cid g (g\<lparr>gr_Idem := mput key r' (gr_Idem g)\<rparr>)"
    and "grantOk cid g \<Longrightarrow> grantOk cid (g\<lparr>gr_Idem := mput key r' (gr_Idem g)\<rparr>)"
  using assms by (auto simp: grantRel_def keyUsed_def grantOk_def length_mput_same distinct_update)

lemma delIdem_rel:
  assumes "(cid, key) \<in> fr_removed F"
  shows "grantRel H F cid g (g\<lparr>gr_Idem := mdel key (gr_Idem g)\<rparr>)"
    and "grantOk cid g \<Longrightarrow> grantOk cid (g\<lparr>gr_Idem := mdel key (gr_Idem g)\<rparr>)"
  using assms length_delete_le [of key "gr_Idem g"]
  by (auto simp: grantRel_def keyUsed_def grantOk_def distinct_delete delete_conv' split: if_splits)

lemma compactIdem_Cons:
  assumes "compactIdem H now ((j, r) # idem) spent = (idem', spent')"
  obtains (keep) i where "compactIdem H now idem spent = (i, spent')" "idem' = (j, r) # i"
  | (spend) b where "map_of spent (spentKey H j) \<noteq> None \<or> length spent < maxSpentPerGrant"
      "compactIdem H now idem (mput (spentKey H j) b spent) = (idem', spent')"
proof (cases "im_State r \<noteq> idemDone \<or> \<not> pastRetention r now \<or> map_of spent (spentKey H j) = None \<and> length spent \<ge> maxSpentPerGrant")
  case True
  obtain i s where c: "compactIdem H now idem spent = (i, s)" by fastforce
  with True assms show ?thesis by (intro keep [of i]) (auto simp: Let_def split: if_splits)
next
  case False
  with assms show ?thesis by (intro spend [of "spentBody (im_BodyHash r)"]) (auto simp: Let_def)
qed

lemma compactIdem_sub:
  assumes "compactIdem H now idem spent = (idem', spent')"
  shows "set idem' \<subseteq> set idem \<and> length idem' \<le> length idem \<and> (gwf idem \<longrightarrow> gwf idem')"
  using assms
proof (induction idem arbitrary: spent idem')
  case (Cons x idem)
  obtain k r where x: "x = (k, r)" by fastforce
  from Cons.prems [unfolded x] show ?case
  proof (cases rule: compactIdem_Cons)
    case (keep i)
    with Cons.IH [OF keep(1)] show ?thesis by (auto simp: x)
  next
    case (spend b)
    show ?thesis using Cons.IH [OF spend(2)] by (auto simp: x)
  qed
qed simp

lemma compactIdem_spent:
  assumes "compactIdem H now idem spent = (idem', spent')"
  shows "(map_of spent j \<noteq> None \<longrightarrow> map_of spent' j \<noteq> None) \<and>
    (length spent \<le> maxSpentPerGrant \<longrightarrow> length spent' \<le> maxSpentPerGrant)"
  using assms
proof (induction idem arbitrary: spent idem')
  case (Cons x idem)
  obtain k r where x: "x = (k, r)" by fastforce
  from Cons.prems [unfolded x] show ?case
  proof (cases rule: compactIdem_Cons)
    case (keep i)
    show ?thesis by (rule Cons.IH [OF keep(1)])
  next
    case (spend b)
    have "length (mput (spentKey H k) b spent) \<le> maxSpentPerGrant" if "length spent \<le> maxSpentPerGrant"
      using that spend(1) length_mput [of "spentKey H k" b spent] by (auto simp: length_mput_same)
    with Cons.IH [OF spend(2)] show ?thesis by simp
  qed
qed simp

lemma compactIdem_used:
  assumes "compactIdem H now idem spent = (idem', spent')" "map_of idem k \<noteq> None"
  shows "map_of idem' k \<noteq> None \<or> map_of spent' (spentKey H k) \<noteq> None"
  using assms
proof (induction idem arbitrary: spent idem')
  case (Cons x idem)
  obtain j r where x: "x = (j, r)" by fastforce
  from Cons.prems(1) [unfolded x] show ?case
  proof (cases rule: compactIdem_Cons)
    case (keep i)
    with Cons.IH [OF keep(1)] Cons.prems(2) show ?thesis by (auto simp: x)
  next
    case (spend b)
    with Cons.IH [OF spend(2)] Cons.prems(2) compactIdem_spent [OF spend(2), of "spentKey H k"]
    show ?thesis by (cases "k = j") (simp_all add: x)
  qed
qed simp

lemma compact_simps [simp]:
  "gr_ClientID (compactExpiredLocked H now g) = gr_ClientID g"
  "gr_RevokedAt (compactExpiredLocked H now g) = gr_RevokedAt g"
  "gr_RefreshHash (compactExpiredLocked H now g) = gr_RefreshHash g"
  by (simp_all add: compactExpiredLocked_def split: prod.split)

lemma compact_used: "keyUsed H g k \<Longrightarrow> keyUsed H (compactExpiredLocked H now g) k"
proof -
  obtain i s where c: "compactIdem H now (gr_Idem g) (gr_Spent g) = (i, s)" by fastforce
  assume "keyUsed H g k"
  with compactIdem_used [OF c, of k] compactIdem_spent [OF c, of "spentKey H k"]
  show ?thesis unfolding keyUsed_def compactExpiredLocked_def by (simp add: c) blast
qed

lemma compact_rel:
  assumes ok: "grantOk cid g"
  shows "grantRel H F cid g (compactExpiredLocked H now g) \<and> grantOk cid (compactExpiredLocked H now g)"
proof
  obtain i s where c: "compactIdem H now (gr_Idem g) (gr_Spent g) = (i, s)" by fastforce
  have wf: "gwf i" "gwf (gr_Idem g)" using compactIdem_sub [OF c] ok by (simp_all add: grantOk_def)
  show "grantRel H F cid g (compactExpiredLocked H now g)"
  proof (rule grantRelI)
    fix k r' assume "map_of (gr_Idem (compactExpiredLocked H now g)) k = Some r'"
    then have "(k, r') \<in> set (gr_Idem g)"
      using compactIdem_sub [OF c] by (auto simp: compactExpiredLocked_def c dest: map_of_SomeD)
    then show "(cid, k) \<in> fr_added F \<or> (\<exists>r. map_of (gr_Idem g) k = Some r \<and> idemRel F (cid, k) r r')"
      using wf by auto
  qed (simp_all add: compact_used)
  show "grantOk cid (compactExpiredLocked H now g)"
    using ok wf compactIdem_sub [OF c] compactIdem_spent [OF c] by (simp add: compactExpiredLocked_def c grantOk_def)
qed

section \<open>Actions\<close>

lemma addIdem_rel:
  assumes "map_of (gr_Idem g) key = None" "(cid, key) \<in> fr_added F"
  shows "grantRel H F cid g (g\<lparr>gr_Idem := mput key r (gr_Idem g)\<rparr>)"
    and "grantOk cid g \<Longrightarrow> length (gr_Idem g) < maxIdemPerGrant \<Longrightarrow> grantOk cid (g\<lparr>gr_Idem := mput key r (gr_Idem g)\<rparr>)"
  using assms length_mput [of key r "gr_Idem g"] by (auto simp: grantRel_def keyUsed_def grantOk_def distinct_update)

lemma putGrant_compact:
  assumes "grantOf a cid = Some g" "registryOk (au_state a)"
  shows "reaches H F a (putGrant (compactExpiredLocked H now g) a)"
    and "grantOf (putGrant (compactExpiredLocked H now g) a) cid = Some (compactExpiredLocked H now g)"
proof -
  have "gr_ClientID g = cid" using registryOkD(1) [OF assms(2,1)] by (simp add: grantOk_def)
  then show "grantOf (putGrant (compactExpiredLocked H now g) a) cid = Some (compactExpiredLocked H now g)" by simp
  show "reaches H F a (putGrant (compactExpiredLocked H now g) a)"
    using evolves_regrant [OF assms(1), of "compactExpiredLocked H now g"] compact_rel by (auto intro: reachesI)
qed

lemma BeginAction_reaches:
  assumes F: "\<And>g. grantOf a (ls_ClientID l) = Some g \<Longrightarrow> \<not> keyUsed H g key \<Longrightarrow> (ls_ClientID l, key) \<in> fr_added F"
  shows "reaches H F a (fst (BeginAction H now io l key bodyHash peek ini a))"
proof (rule reaches_wlog)
  assume ok: "registryOk (au_state a)"
  show "reaches H F a (fst (BeginAction H now io l key bodyHash peek ini a))"
  proof (cases "grantOf a (ls_ClientID l)")
    case (Some g0)
    define g where "g = compactExpiredLocked H now g0"
    define r where "r = ini (newIdem bodyHash (au_boot a) now)"
    note a1 = putGrant_compact [OF Some ok, where now = now and H = H, folded g_def]
    have "reaches H F a (fst (case commitLocked io (putGrant (g\<lparr>gr_Idem := mput key r (gr_Idem g)\<rparr>) (putGrant g a)) of
        (a2, None) \<Rightarrow> (a2\<lparr>au_running := (ls_ClientID l, key) # au_running a2\<rparr>, Inr IdemProceed)
      | (a2, Some e) \<Rightarrow> (if rolledBack e then putGrant g a2 else a2, Inl e)))"
      if new: "map_of (gr_Idem g) key = None" "map_of (gr_Spent g) (spentKey H key) = None" "length (gr_Idem g) < maxIdemPerGrant"
    proof -
      have "\<not> keyUsed H g key" using new by (simp add: keyUsed_def)
      then have "\<not> keyUsed H g0 key" using compact_used [of H g0 key now] by (auto simp: g_def)
      note ck = F [OF Some this]
      obtain a2 err where c: "commitLocked io (putGrant (g\<lparr>gr_Idem := mput key r (gr_Idem g)\<rparr>) (putGrant g a)) = (a2, err)"
        by fastforce
      have "reaches H F (putGrant g a) a2" "reaches H F (putGrant g a) (putGrant g a2)"
        by (rule reaches_try_grant [OF a1(2) _ _ c]; simp add: addIdem_rel [OF new(1) ck] new(3))+
      from reaches_trans [OF a1(1) this(1)] reaches_trans [OF a1(1) this(2)] show ?thesis
        unfolding c by (auto simp: reaches_def split: option.split)
    qed
    then show ?thesis
      unfolding BeginAction_def Some option.case Let_def g_def [symmetric] r_def [symmetric]
      by (simp add: a1(1) split: option.split)
  qed (simp add: BeginAction_def)
qed

lemma endAction_reaches:
  assumes "\<And>r t. \<not> saysNotSent (upd r) \<and> \<not> saysNotSent ((upd r)\<lparr>im_EndedAt := t\<rparr>)"
  shows "reaches H F a (endAction now io l key upd a)"
proof -
  let ?a1 = "stopRunning (ls_ClientID l) key a"
  have "reaches H F a (case commitLocked io (putGrant (g\<lparr>gr_Idem := mput key r' (gr_Idem g)\<rparr>) ?a1) of
      (a2, Some e) \<Rightarrow> if rolledBack e then putGrant g a2 else a2 | (a2, None) \<Rightarrow> a2)"
    if "grantOf a (ls_ClientID l) = Some g" "map_of (gr_Idem g) key = Some r" "\<not> saysNotSent r'" for g r r'
  proof -
    obtain a2 err where c: "commitLocked io (putGrant (g\<lparr>gr_Idem := mput key r' (gr_Idem g)\<rparr>) ?a1) = (a2, err)" by fastforce
    have rel: "idemRel F (ls_ClientID l, key) r r'" using that(3) by (simp add: idemRel_def)
    have "reaches H F ?a1 a2" "reaches H F ?a1 (putGrant g a2)"
      by (rule reaches_try_grant [where g = g and cid = "ls_ClientID l", OF _ _ _ c];
          simp add: that(1) putIdem_rel [OF that(2) rel])+
    then show ?thesis unfolding c by (auto simp: reaches_def split: option.split)
  qed
  moreover have "reaches H F a ?a1" by (rule reachesI) simp_all
  ultimately show ?thesis using assms by (simp add: endAction_def Let_def split: option.split)
qed

lemma AbortAction_reaches:
  assumes "(ls_ClientID l, key) \<in> fr_removed F"
  shows "reaches H F a (AbortAction io l key a)"
proof -
  let ?a1 = "stopRunning (ls_ClientID l) key a"
  have "reaches H F a (case commitLocked io (putGrant (g\<lparr>gr_Idem := mdel key (gr_Idem g)\<rparr>) ?a1) of
      (a2, Some e) \<Rightarrow> if rolledBack e then putGrant g a2 else a2 | (a2, None) \<Rightarrow> a2)"
    if "grantOf a (ls_ClientID l) = Some g" for g
  proof -
    obtain a2 err where c: "commitLocked io (putGrant (g\<lparr>gr_Idem := mdel key (gr_Idem g)\<rparr>) ?a1) = (a2, err)" by fastforce
    have "reaches H F ?a1 a2" "reaches H F ?a1 (putGrant g a2)"
      by (rule reaches_try_grant [where g = g and cid = "ls_ClientID l", OF _ _ _ c]; simp add: that delIdem_rel [OF assms])+
    then show ?thesis unfolding c by (auto simp: reaches_def split: option.split)
  qed
  moreover have "reaches H F a ?a1" by (rule reachesI) simp_all
  ultimately show ?thesis by (simp add: AbortAction_def Let_def split: option.split)
qed

lemma reaches_try_idem:
  assumes g: "grantOf a cid = Some g" "map_of (gr_Idem g) key = Some r"
    and rel: "idemRel F (cid, key) r r1" "idemRel F (cid, key) r r2"
    and c: "commitLocked io (putGrant (g\<lparr>gr_Idem := mput key r1 (gr_Idem g)\<rparr>) a) = (a2, err)"
  shows "reaches H F a a2" and "reaches H F a (putGrant (g\<lparr>gr_Idem := mput key r2 (gr_Idem g)\<rparr>) a2)"
proof -
  have ev: "evolves H F (au_state a) (au_state (putGrant (g\<lparr>gr_Idem := mput key r' (gr_Idem g)\<rparr>) a))"
    if "idemRel F (cid, key) r r'" for r'
    using evolves_regrant [OF g(1), of "g\<lparr>gr_Idem := mput key r' (gr_Idem g)\<rparr>"] putIdem_rel [OF g(2) that] by simp
  show "reaches H F a a2"
    by (rule reaches_commit [OF c]) (use ev [OF rel(1)] in \<open>simp_all add: commitLocked_facts(1) [OF c]\<close>)
  show "reaches H F a (putGrant (g\<lparr>gr_Idem := mput key r2 (gr_Idem g)\<rparr>) a2)"
    by (rule reaches_commit [OF c]) (use ev [OF rel(1)] ev [OF rel(2)] in \<open>simp_all add: commitLocked_facts(1) [OF c]\<close>)
qed

lemma EnsureCreationID_reaches: "reaches H F a (fst (EnsureCreationID io fresh l key verb a))"
proof -
  have "reaches H F a (fst (case commitLocked io (putGrant (g\<lparr>gr_Idem := mput key (r\<lparr>im_CreationID := fresh, im_Verb := verb\<rparr>) (gr_Idem g)\<rparr>) a) of
      (a2, None) \<Rightarrow> (a2, Inr fresh)
    | (a2, Some e) \<Rightarrow>
        (if rolledBack e then putGrant (g\<lparr>gr_Idem := mput key (r\<lparr>im_CreationID := [], im_Verb := []\<rparr>) (gr_Idem g)\<rparr>) a2 else a2, Inl e)))"
    if "grantOf a (ls_ClientID l) = Some g" "map_of (gr_Idem g) key = Some r" for g r
    using reaches_try_idem [OF that, of F "r\<lparr>im_CreationID := fresh, im_Verb := verb\<rparr>" "r\<lparr>im_CreationID := [], im_Verb := []\<rparr>"]
    by (auto simp: idemRel_def saysNotSent_def undispatched_def split: prod.split option.split)
  then show ?thesis by (simp add: EnsureCreationID_def split: option.split)
qed

lemma MarkDispatched_reaches:
  assumes "(ls_ClientID l, key) \<in> fr_marked F"
  shows "reaches H F a (fst (MarkDispatched now io l key a))"
proof -
  have "reaches H F a (fst (case commitLocked io (putGrant (g\<lparr>gr_Idem := mput key (r\<lparr>im_DispatchedAt := now\<rparr>) (gr_Idem g)\<rparr>) a) of
      (a2, None) \<Rightarrow> (a2, None)
    | (a2, Some e) \<Rightarrow>
        (if rolledBack e then putGrant (g\<lparr>gr_Idem := mput key (r\<lparr>im_DispatchedAt := 0\<rparr>) (gr_Idem g)\<rparr>) a2 else a2, Some e)))"
    if "grantOf a (ls_ClientID l) = Some g" "map_of (gr_Idem g) key = Some r" for g r
    using reaches_try_idem [OF that, of F "r\<lparr>im_DispatchedAt := now\<rparr>" "r\<lparr>im_DispatchedAt := 0\<rparr>"] assms
    by (auto simp: idemRel_def split: prod.split option.split)
  then show ?thesis by (simp add: MarkDispatched_def split: option.split)
qed

section \<open>What a successful answer says\<close>

lemma prune_grants:
  assumes "registryOk (au_state a)" "map_of (st_Grants (au_state (pruneLocked now a))) cid = Some g"
  shows "grantOf a cid = Some g"
  using assms registryOkD(3) [OF assms(1)]
  by (auto simp: pruneLocked_def pruneCloudLocked_def pruneCodes_def Let_def map_of_mkeep split: option.splits if_splits)

lemma prune_codes:
  assumes "registryOk (au_state a)" "map_of (st_Codes (au_state (pruneLocked now a))) h = Some c"
  shows "codeOf a h = Some c"
  using assms registryOkD(4) [OF assms(1)]
  by (auto simp: pruneLocked_def pruneCloudLocked_def pruneCodes_def Let_def map_of_mkeep split: option.splits if_splits)

text \<open>What a completed write left, where an operation succeeds only with a completed write.\<close>

lemma commit_None:
  assumes "commitLocked io a = (a', None)"
  shows "a' = a\<lparr>au_disk := Some (au_state a)\<rparr>"
  using assms by (auto simp: commitLocked_def split: commitOutcome.splits)

lemma commit_case_Inr:
  assumes "(case commitLocked io a1 of (a2, None) \<Rightarrow> good a2 | (a2, Some e) \<Rightarrow> (bad a2 e, Inl e)) = (a', Inr r)"
  shows "good (a1\<lparr>au_disk := Some (au_state a1)\<rparr>) = (a', Inr r)"
proof -
  obtain a2 err where c: "commitLocked io a1 = (a2, err)" by fastforce
  with assms have "err = None" by (cases err) auto
  with c commit_None [of io a1 a2] assms show ?thesis by auto
qed

lemma commitRedeem_issued:
  assumes op: "commitRedeem H now io acc refresh clientID secret label kind rec a = (a', Inr resp)"
  obtains g a2 where "g = newGrant H now clientID label kind refresh rec a"
    "a2 = putGrant g (putCode (H secret) (rec\<lparr>co_ConsumedAt := now, co_ClientID := clientID\<rparr>)
       (a\<lparr>au_state := fst (takeReplayLocked rec (au_state a))\<rparr>))"
    "issueTokens H now g acc refresh (a2\<lparr>au_disk := Some (au_state a2)\<rparr>) = (a', resp)"
proof -
  obtain st replay where t: "takeReplayLocked rec (au_state a) = (st, replay)" by fastforce
  define g where "g = newGrant H now clientID label kind refresh rec a"
  define a2 where "a2 = putGrant g (putCode (H secret) (rec\<lparr>co_ConsumedAt := now, co_ClientID := clientID\<rparr>) (a\<lparr>au_state := st\<rparr>))"
  have "(case commitLocked io a2 of
      (a3, None) \<Rightarrow> (let (a4, resp) = issueTokens H now g acc refresh a3 in (a4, Inr resp))
    | (a3, Some e) \<Rightarrow> (if rolledBack e then delGrant clientID (modState (restoreReplayLocked rec replay) (putCode (H secret) (rec\<lparr>co_ConsumedAt := 0, co_ClientID := []\<rparr>) a3))
             else markRevokedLocked ''enrollment commit uncertain'' now g a3, Inl e)) = (a', Inr resp)"
    using op by (auto simp: commitRedeem_def t g_def a2_def Let_def split: prod.splits option.splits if_splits)
  from commit_case_Inr [OF this] show ?thesis
    by (intro that [of g a2]) (simp_all add: g_def a2_def t case_prod_beta Let_def prod_eq_iff)
qed

lemma commitRedeem_resp:
  assumes "commitRedeem H now io acc refresh clientID secret label kind rec a = (a', Inr resp)"
  shows "tr_Scope resp = co_Perms rec" "tr_Resource resp = co_Resource rec" "tr_ClientID resp = clientID"
proof -
  obtain g a3 where "g = newGrant H now clientID label kind refresh rec a" "issueTokens H now g acc refresh a3 = (a', resp)"
    using commitRedeem_issued [OF assms] by metis
  then show "tr_Scope resp = co_Perms rec" "tr_Resource resp = co_Resource rec" "tr_ClientID resp = clientID"
    by (auto simp: issueTokens_def newGrant_def Let_def)
qed

lemma commitRedeem_ok:
  assumes op: "commitRedeem H now io acc refresh clientID secret label kind rec a = (a', Inr resp)"
    and ok: "registryOk (au_state a)" and now: "now \<noteq> 0"
  shows "\<And>c. codeOf a' (H secret) = Some c \<Longrightarrow> co_ConsumedAt c \<noteq> 0"
    and "\<And>c. map_of (st_Codes (diskState (au_disk a'))) (H secret) = Some c \<Longrightarrow> co_ConsumedAt c \<noteq> 0"
proof -
  obtain g a2 where a2: "a2 = putGrant g (putCode (H secret) (rec\<lparr>co_ConsumedAt := now, co_ClientID := clientID\<rparr>)
       (a\<lparr>au_state := fst (takeReplayLocked rec (au_state a))\<rparr>))"
    and i: "issueTokens H now g acc refresh (a2\<lparr>au_disk := Some (au_state a2)\<rparr>) = (a', resp)"
    using commitRedeem_issued [OF op] by metis
  define a3 where "a3 = a2\<lparr>au_disk := Some (au_state a2)\<rparr>"
  have code: "co_ConsumedAt c \<noteq> 0" if "map_of (st_Codes (au_state a3)) (H secret) = Some c" for c
    using that now by (auto simp: a3_def a2)
  have s: "au_state a' = au_state (pruneLocked now a3)" "au_disk a' = Some (au_state a3)"
    using issueTokens_simps [of H now g acc refresh a3] unfolding i [folded a3_def] by (simp_all add: a3_def)
  show "co_ConsumedAt c \<noteq> 0" if "map_of (st_Codes (diskState (au_disk a'))) (H secret) = Some c" for c
    using code that by (simp add: s diskState_def)
  have "st_Codes (au_state (pruneLocked now a3)) = mkeep (\<lambda>h c. \<not> now > co_ExpiresAt c + 86400) (st_Codes (au_state a3))"
    by (simp add: pruneLocked_def pruneCloudLocked_def pruneCodes_def Let_def)
  moreover have "gwf (st_Codes (au_state a3))" using registryOkD(4) [OF ok] by (simp add: a3_def a2 distinct_update)
  ultimately show "co_ConsumedAt c \<noteq> 0" if "codeOf a' (H secret) = Some c" for c
    using code that by (auto simp: s map_of_mkeep split: option.splits if_splits)
qed

lemma Redeem_ok:
  assumes "Redeem H D now ioV io acc refresh clientID secret label kind verifier a = (a', Inr resp)"
  obtains rec l where "codeOf a (H secret) = Some rec" "co_ConsumedAt rec = 0" "now < co_ExpiresAt rec"
    "checkVerifierLocked D now ioV (H secret) rec verifier a = (a, None)"
    "commitRedeem H now io acc refresh clientID secret l kind rec a = (a', Inr resp)"
proof -
  obtain lab where l: "(if label = [] then ''direct client'' else label) = lab" by blast
  obtain rec where rec: "codeOf a (H secret) = Some rec" "co_ConsumedAt rec = 0" "now < co_ExpiresAt rec"
    and r: "(case checkVerifierLocked D now ioV (H secret) rec verifier a of
        (a1, Some e) \<Rightarrow> (a1, Inl e)
      | (a1, None) \<Rightarrow> commitRedeem H now io acc refresh clientID secret lab kind rec a1) = (a', Inr resp)"
    using assms unfolding Redeem_def Let_def l by (auto split: option.splits if_splits)
  obtain a1 err where v: "checkVerifierLocked D now ioV (H secret) rec verifier a = (a1, err)" by fastforce
  with r have n: "err = None" by (cases err) auto
  moreover have "a1 = a" using checkVerifier_None(1) v n by blast
  ultimately show ?thesis using that rec v r by auto
qed

lemma Refresh_ok:
  assumes op: "Refresh H now io acc nxt refresh a = (a', Inr resp)" and ok: "registryOk (au_state a)"
  obtains g where "findRefresh (H refresh) a = Some g" "gr_RefreshHash g = H refresh" "gr_RevokedAt g = 0"
    "\<forall>cid g'. grantOf a' cid = Some g' \<or> map_of (st_Grants (diskState (au_disk a'))) cid = Some g' \<longrightarrow>
      (if cid = gr_ClientID g then gr_RefreshHash g' = H nxt else grantOf a cid = Some g')"
proof -
  obtain g where g: "findRefresh (H refresh) a = Some g" "gr_RefreshHash g = H refresh" "gr_RevokedAt g = 0"
    and u: "length (gr_UsedRefresh g) < maxUsedRefresh"
    and r: "(case commitLocked io (putGrant (rotated (H nxt) now g) a) of
        (a1, None) \<Rightarrow> (let (a2, resp) = issueTokens H now (rotated (H nxt) now g) acc nxt a1 in (a2, Inr resp))
      | (a1, Some e) \<Rightarrow> (if rolledBack e then putGrant g a1 else a1, Inl e)) = (a', Inr resp)"
    using op unfolding Refresh_def Let_def rotated_def [symmetric]
    by (auto simp: revokeAndUnlock_def not_le split: option.splits if_splits prod.splits)
  define a1 where "a1 = (putGrant (rotated (H nxt) now g) a)\<lparr>au_disk := Some (au_state (putGrant (rotated (H nxt) now g) a))\<rparr>"
  from commit_case_Inr [OF r] have i: "issueTokens H now (rotated (H nxt) now g) acc nxt a1 = (a', resp)"
    by (simp add: a1_def case_prod_beta Let_def prod_eq_iff)
  have s: "au_state a' = au_state (pruneLocked now a1)" "au_disk a' = Some (au_state a1)"
    using issueTokens_simps [of H now "rotated (H nxt) now g" acc nxt a1] unfolding i by (simp_all add: a1_def)
  let ?F = "nothingNew\<lparr>fr_tokens := {(gr_ClientID g, H nxt)}\<rparr>"
  have "evolves H ?F (au_state a) (au_state a1)"
    using evolves_regrant [OF findRefresh_grant(1) [OF ok g(1)], of "rotated (H nxt) now g"]
      rotated_rel [where F = ?F and h = "H nxt" and cid = "gr_ClientID g", OF _ u] by (simp add: a1_def rotated_def)
  then have ok1: "registryOk (au_state a1)" using ok by (rule evolvesD(1))
  have *: "if cid = gr_ClientID g then gr_RefreshHash g' = H nxt else grantOf a cid = Some g'" if "grantOf a1 cid = Some g'" for cid g'
    using that by (auto simp: a1_def rotated_def)
  show ?thesis
  proof (rule that [OF g], intro allI impI)
    fix cid g' assume "grantOf a' cid = Some g' \<or> map_of (st_Grants (diskState (au_disk a'))) cid = Some g'"
    then have "grantOf a1 cid = Some g'" using prune_grants [OF ok1] by (auto simp: s diskState_def)
    then show "if cid = gr_ClientID g then gr_RefreshHash g' = H nxt else grantOf a cid = Some g'" by (rule *)
  qed
qed

lemma RevokeGrant_ok:
  assumes "RevokeGrant now io clientID reason a = (a', None)" "registryOk (au_state a)" "now \<noteq> 0"
  shows "grantOf a clientID \<noteq> None" "au_disk a' = Some (au_state a')"
    and "\<And>g. grantOf a' clientID = Some g \<Longrightarrow> gr_RevokedAt g \<noteq> 0"
proof -
  obtain g a1 where g: "grantOf a clientID = Some g" and c: "commitLocked io (markRevokedLocked reason now g a) = (a1, None)"
    and a': "a' = cancelLeases AuthRevoked (\<lambda>l. ls_ClientID l = clientID) a1"
    using assms(1) by (auto simp: RevokeGrant_def split: option.splits prod.splits)
  have id: "gr_ClientID g = clientID" using registryOkD(1) [OF assms(2) g] by (simp add: grantOk_def)
  show "grantOf a clientID \<noteq> None" "au_disk a' = Some (au_state a')"
    "\<And>g. grantOf a' clientID = Some g \<Longrightarrow> gr_RevokedAt g \<noteq> 0"
    using assms(3) by (auto simp: a' commit_None [OF c] g id)
qed

lemma ResetIdentity_ok:
  assumes "ResetIdentity now io ioI generation a = (a', None)" "registryOk (au_state a)" "now \<noteq> 0"
  shows "au_disk a' = Some (au_state a')" "\<And>cid g. grantOf a' cid = Some g \<Longrightarrow> gr_RevokedAt g \<noteq> 0 \<and> grantOf a cid \<noteq> None"
proof -
  define a1 where "a1 = modState (\<lambda>st. st\<lparr>st_IdentityGeneration := generation\<rparr>) (revokeAllLocked now ''identity reset'' a)"
  obtain a2 where c: "commitLocked io a1 = (a2, None)"
    and a': "au_state a' = au_state a2" "au_disk a' = au_disk a2"
    using assms(1) by (auto simp: ResetIdentity_def Let_def a1_def split: option.splits prod.splits commitOutcome.splits)
  show "au_disk a' = Some (au_state a')" by (simp add: a' commit_None [OF c])
  have disable: "st_Grants (disableCloudLocked r now st) = st_Grants st" for r st
    by (simp add: disableCloudLocked_def consumeCloudCodes_def Let_def split: option.split)
  have fold: "st_Grants (fold (\<lambda>(h, c) st. fst (takeReplayLocked c st)) cs st) = st_Grants st" for cs st
    by (induction cs arbitrary: st) auto
  show "gr_RevokedAt g \<noteq> 0 \<and> grantOf a cid \<noteq> None" if "grantOf a' cid = Some g" for cid g
    using that assms(3)
    by (auto simp: a' commit_None [OF c] a1_def revokeAllLocked_def Let_def disable fold revokeAll_fold_state revokeGrants_map [OF assms(2)])
qed

lemma MarkDispatched_ok:
  assumes "MarkDispatched now io l key a = (a', None)" "registryOk (au_state a)"
  obtains g r where "grantOf a' (ls_ClientID l) = Some g" "map_of (gr_Idem g) key = Some r" "im_State r = idemAdmitted"
    "im_DispatchedAt r = now" "au_disk a' = Some (au_state a')"
proof -
  obtain g r where g: "grantOf a (ls_ClientID l) = Some g" "map_of (gr_Idem g) key = Some r" "im_State r = idemAdmitted"
    and c: "commitLocked io (putGrant (g\<lparr>gr_Idem := mput key (r\<lparr>im_DispatchedAt := now\<rparr>) (gr_Idem g)\<rparr>) a) = (a', None)"
    using assms(1) by (auto simp: MarkDispatched_def split: option.splits if_splits prod.splits)
  have "gr_ClientID g = ls_ClientID l" using registryOkD(1) [OF assms(2) g(1)] by (simp add: grantOk_def)
  then show ?thesis
    by (intro that [of "g\<lparr>gr_Idem := mput key (r\<lparr>im_DispatchedAt := now\<rparr>) (gr_Idem g)\<rparr>" "r\<lparr>im_DispatchedAt := now\<rparr>"])
       (simp_all add: commit_None [OF c] g)
qed

lemma BeginAction_proceed:
  assumes op: "BeginAction H now io l key bodyHash False ini a = (a', Inr IdemProceed)" and ok: "registryOk (au_state a)"
  obtains g g' where "grantOf a (ls_ClientID l) = Some g" "\<not> keyUsed H g key" "grantOf a' (ls_ClientID l) = Some g'"
    "map_of (gr_Idem g') key = Some (ini (newIdem bodyHash (au_boot a) now))" "au_disk a' = Some (au_state a')"
proof -
  obtain g0 where g0: "grantOf a (ls_ClientID l) = Some g0"
    using op by (auto simp: BeginAction_def split: option.splits if_splits)
  define g where "g = compactExpiredLocked H now g0"
  define r where "r = ini (newIdem bodyHash (au_boot a) now)"
  define a1 where "a1 = putGrant (g\<lparr>gr_Idem := mput key r (gr_Idem g)\<rparr>) (putGrant g a)"
  have new: "map_of (gr_Idem g) key = None" "map_of (gr_Spent g) (spentKey H key) = None"
    and c: "(case commitLocked io a1 of
        (a2, None) \<Rightarrow> (a2\<lparr>au_running := (ls_ClientID l, key) # au_running a2\<rparr>, Inr IdemProceed)
      | (a2, Some e) \<Rightarrow> (if rolledBack e then putGrant g a2 else a2, Inl e)) = (a', Inr IdemProceed)"
    using op unfolding BeginAction_def g0 option.case Let_def g_def [symmetric] r_def [symmetric] a1_def [symmetric]
    by (auto split: if_splits option.splits)
  have id: "gr_ClientID g = ls_ClientID l" using registryOkD(1) [OF ok g0] by (simp add: g_def grantOk_def)
  have "\<not> keyUsed H g key" using new by (simp add: keyUsed_def)
  then have "\<not> keyUsed H g0 key" using compact_used [of H g0 key now] by (auto simp: g_def)
  with commit_case_Inr [OF c] show ?thesis
    by (intro that [OF g0, of "g\<lparr>gr_Idem := mput key r (gr_Idem g)\<rparr>"]) (auto simp: a1_def id r_def)
qed

lemma BeginAction_replay:
  assumes op: "BeginAction H now io l key bodyHash peek ini a = (a', Inr (IdemReplay r))" and ok: "registryOk (au_state a)"
  obtains g where "grantOf a (ls_ClientID l) = Some g" "map_of (gr_Idem g) key = Some r" "im_State r = idemDone"
proof -
  obtain g where g: "grantOf a (ls_ClientID l) = Some g"
    using op by (auto simp: BeginAction_def split: option.splits if_splits)
  define g1 where "g1 = compactExpiredLocked H now g"
  have "map_of (gr_Idem g1) key = Some r \<and> im_State r = idemDone"
    using op unfolding BeginAction_def g option.case Let_def g1_def [symmetric]
    by (auto split: if_splits option.splits prod.splits)
  moreover obtain i s where c: "compactIdem H now (gr_Idem g) (gr_Spent g) = (i, s)" by fastforce
  moreover have "gwf (gr_Idem g)" using registryOkD(1) [OF ok g] by (simp add: grantOk_def)
  ultimately show ?thesis using compactIdem_sub [OF c]
    by (intro that [OF g]) (auto simp: g1_def compactExpiredLocked_def dest: map_of_SomeD)
qed

end
