(* ===== verification/Direct_Invariant.thy ===== *)
theory Direct_Invariant
  imports Direct_System Direct_Actions
begin

text \<open>
  The invariant \<open>good\<close> of the direct server relates log, handlers and registry, for the registry in
  memory and for the one a restart would read. Every step keeps it: the registry by \<open>evolves\<close>, with
  the names the step drew, and the log by what a successful answer says of the registry.
\<close>

section \<open>The invariant\<close>

definition heldKey :: "jobs \<Rightarrow> string \<times> string \<Rightarrow> bool" where
  "heldKey J ck \<longleftrightarrow> (\<exists>b. map_of J ck = Some (Begun b)) \<or> map_of J ck = Some Stopped"

definition busy :: "jobs \<Rightarrow> event list \<Rightarrow> (string \<times> string) set" where
  "busy J L = {ck. heldKey J ck} \<union> sentOf L"

definition goodGrant :: "(string \<Rightarrow> string) \<Rightarrow> jobs \<Rightarrow> event list \<Rightarrow> string \<Rightarrow> grantRecord \<Rightarrow> bool" where
  "goodGrant H J L cid g \<longleftrightarrow> cid \<in> clientsOf L
     \<and> (gr_RefreshHash g = [] \<or> (cid, gr_RefreshHash g) \<in> tokensOf L)
     \<and> gr_RefreshHash g \<notin> refreshedOf L
     \<and> (cid \<in> revokedOf L \<longrightarrow> gr_RevokedAt g \<noteq> 0)
     \<and> (\<forall>k. (cid, k) \<in> busy J L \<longrightarrow> keyUsed H g k)
     \<and> (\<forall>k r. map_of (gr_Idem g) k = Some r \<longrightarrow> saysNotSent r \<longrightarrow>
          (cid, k) \<notin> sentOf L \<and> map_of J (cid, k) \<noteq> Some (Begun False))"

definition goodCode :: "event list \<Rightarrow> string \<Rightarrow> codeRecord \<Rightarrow> bool" where
  "goodCode L h c \<longleftrightarrow> h \<in> codesOf L \<and> (h \<in> redeemedOf L \<longrightarrow> co_ConsumedAt c \<noteq> 0)"

definition goodReg :: "(string \<Rightarrow> string) \<Rightarrow> jobs \<Rightarrow> event list \<Rightarrow> storeState \<Rightarrow> bool" where
  "goodReg H J L st \<longleftrightarrow> registryOk st
     \<and> (\<forall>cid g. map_of (st_Grants st) cid = Some g \<longrightarrow> goodGrant H J L cid g)
     \<and> (\<forall>h c. map_of (st_Codes st) h = Some c \<longrightarrow> goodCode L h c)"

text \<open>What the log says by itself: who draws a token owns it, and nothing happens twice or too late.\<close>

fun goodLog :: "event list \<Rightarrow> bool" where
  "goodLog [] \<longleftrightarrow> True"
| "goodLog (e # L) \<longleftrightarrow> goodLog L \<and>
     (case e of
        EvToken c h \<Rightarrow> h \<notin> insert [] (snd ` tokensOf L)
      | EvCode h \<Rightarrow> h \<notin> codesOf L
      | EvClient c \<Rightarrow> c \<notin> clientsOf L
      | EvRedeemed h \<Rightarrow> h \<in> codesOf L - redeemedOf L
      | EvRefreshed h \<Rightarrow> h \<in> snd ` tokensOf L - refreshedOf L
      | EvRevoked c \<Rightarrow> c \<in> clientsOf L
      | EvAdmitted c \<Rightarrow> c \<notin> revokedOf L
      | EvSent c k \<Rightarrow> c \<in> clientsOf L \<and> (c, k) \<notin> sentOf L
      | EvNotSent c k \<Rightarrow> (c, k) \<notin> sentOf L)"

definition goodJobs :: "jobs \<Rightarrow> event list \<Rightarrow> bool" where
  "goodJobs J L \<longleftrightarrow> (\<forall>c k. heldKey J (c, k) \<longrightarrow> c \<in> clientsOf L \<and> (c, k) \<notin> sentOf L)"

fun registries :: "node \<Rightarrow> storeState list" where
  "registries (Up a) = [au_state a, diskState (au_disk a)]"
| "registries (Down d g) = [diskState d]"

fun good :: "(string \<Rightarrow> string) \<Rightarrow> dsys \<Rightarrow> bool" where
  "good H (n, J, L) \<longleftrightarrow> goodLog L \<and> goodJobs J L \<and> list_all (goodReg H J L) (registries n)"

section \<open>Growing the log\<close>

lemma log_sets_Cons [simp]:
  "codesOf (e # L) = (case e of EvCode h \<Rightarrow> insert h (codesOf L) | _ \<Rightarrow> codesOf L)"
  "clientsOf (e # L) = (case e of EvClient c \<Rightarrow> insert c (clientsOf L) | _ \<Rightarrow> clientsOf L)"
  "tokensOf (e # L) = (case e of EvToken c h \<Rightarrow> insert (c, h) (tokensOf L) | _ \<Rightarrow> tokensOf L)"
  "redeemedOf (e # L) = (case e of EvRedeemed h \<Rightarrow> insert h (redeemedOf L) | _ \<Rightarrow> redeemedOf L)"
  "refreshedOf (e # L) = (case e of EvRefreshed h \<Rightarrow> insert h (refreshedOf L) | _ \<Rightarrow> refreshedOf L)"
  "revokedOf (e # L) = (case e of EvRevoked c \<Rightarrow> insert c (revokedOf L) | _ \<Rightarrow> revokedOf L)"
  "sentOf (e # L) = (case e of EvSent c k \<Rightarrow> insert (c, k) (sentOf L) | _ \<Rightarrow> sentOf L)"
  by (auto simp: log_sets split: event.split)

lemma log_sets_Nil [simp]:
  "codesOf [] = {}" "clientsOf [] = {}" "tokensOf [] = {}" "redeemedOf [] = {}" "refreshedOf [] = {}" "revokedOf [] = {}" "sentOf [] = {}"
  by (simp_all add: log_sets)

lemma busy_Cons [simp]: "busy J (e # L) = (case e of EvSent c k \<Rightarrow> insert (c, k) (busy J L) | _ \<Rightarrow> busy J L)"
  by (auto simp: busy_def split: event.split)

lemma redeemed_codes: "goodLog L \<Longrightarrow> redeemedOf L \<subseteq> codesOf L"
  by (induction L) (auto split: event.splits)

lemma refreshed_tokens: "goodLog L \<Longrightarrow> refreshedOf L \<subseteq> snd ` tokensOf L"
  by (induction L) (auto split: event.splits)

lemma revoked_clients: "goodLog L \<Longrightarrow> revokedOf L \<subseteq> clientsOf L"
  by (induction L) (auto split: event.splits)

lemma sent_clients: "goodLog L \<Longrightarrow> (c, k) \<in> sentOf L \<Longrightarrow> c \<in> clientsOf L"
  by (induction L) (auto split: event.splits)

lemma token_owner: "goodLog L \<Longrightarrow> (c, h) \<in> tokensOf L \<Longrightarrow> (d, h) \<in> tokensOf L \<Longrightarrow> c = d"
proof (induction L)
  case (Cons e L)
  then show ?case by (cases e) force+
qed simp

lemma token_nonempty: "goodLog L \<Longrightarrow> (c, h) \<in> tokensOf L \<Longrightarrow> h \<noteq> []"
  by (induction L) (auto split: event.splits)

lemma refreshed_nonempty: "goodLog L \<Longrightarrow> [] \<notin> refreshedOf L"
  using refreshed_tokens token_nonempty by fastforce

section \<open>Registries that evolve stay good\<close>

definition fits :: "fresh \<Rightarrow> jobs \<Rightarrow> event list \<Rightarrow> bool" where
  "fits F J L \<longleftrightarrow> fr_codes F \<subseteq> codesOf L - redeemedOf L
     \<and> fr_tokens F \<subseteq> tokensOf L \<and> snd ` fr_tokens F \<inter> refreshedOf L = {}
     \<and> fr_clients F \<subseteq> clientsOf L - revokedOf L \<and> (\<forall>c k. c \<in> fr_clients F \<longrightarrow> (c, k) \<notin> busy J L)
     \<and> (\<forall>ck \<in> fr_added F \<union> fr_marked F. ck \<notin> sentOf L \<and> map_of J ck \<noteq> Some (Begun False))
     \<and> fr_removed F \<inter> busy J L = {}"

lemma fits_nothing [simp]: "fits nothingNew J L"
  by (simp add: fits_def nothingNew_def)

lemma fitsD:
  assumes "fits F J L"
  shows "h \<in> fr_codes F \<Longrightarrow> h \<in> codesOf L \<and> h \<notin> redeemedOf L"
    and "(c, t) \<in> fr_tokens F \<Longrightarrow> (c, t) \<in> tokensOf L \<and> t \<notin> refreshedOf L"
    and "c \<in> fr_clients F \<Longrightarrow> c \<in> clientsOf L \<and> c \<notin> revokedOf L \<and> (c, k) \<notin> busy J L"
    and "ck \<in> fr_added F \<or> ck \<in> fr_marked F \<Longrightarrow> ck \<notin> sentOf L \<and> map_of J ck \<noteq> Some (Begun False)"
    and "ck \<in> fr_removed F \<Longrightarrow> ck \<notin> busy J L"
proof -
  note F = assms [unfolded fits_def]
  show "h \<in> fr_codes F \<Longrightarrow> h \<in> codesOf L \<and> h \<notin> redeemedOf L" using F by blast
  show "(c, t) \<in> fr_tokens F \<Longrightarrow> (c, t) \<in> tokensOf L \<and> t \<notin> refreshedOf L" using F by force
  show "c \<in> fr_clients F \<Longrightarrow> c \<in> clientsOf L \<and> c \<notin> revokedOf L \<and> (c, k) \<notin> busy J L" using F by blast
  show "ck \<in> fr_added F \<or> ck \<in> fr_marked F \<Longrightarrow> ck \<notin> sentOf L \<and> map_of J ck \<noteq> Some (Begun False)" using F by blast
  show "ck \<in> fr_removed F \<Longrightarrow> ck \<notin> busy J L" using F by blast
qed

lemma goodGrantD:
  assumes "goodGrant H J L cid g"
  shows "cid \<in> clientsOf L" "gr_RefreshHash g = [] \<or> (cid, gr_RefreshHash g) \<in> tokensOf L" "gr_RefreshHash g \<notin> refreshedOf L"
    "cid \<in> revokedOf L \<Longrightarrow> gr_RevokedAt g \<noteq> 0" "\<And>k. (cid, k) \<in> busy J L \<Longrightarrow> keyUsed H g k"
    "\<And>k r. map_of (gr_Idem g) k = Some r \<Longrightarrow> saysNotSent r \<Longrightarrow> (cid, k) \<notin> sentOf L \<and> map_of J (cid, k) \<noteq> Some (Begun False)"
  using assms by (simp_all add: goodGrant_def)

lemma goodGrantI:
  assumes "cid \<in> clientsOf L" "gr_RefreshHash g = [] \<or> (cid, gr_RefreshHash g) \<in> tokensOf L" "gr_RefreshHash g \<notin> refreshedOf L"
    "cid \<in> revokedOf L \<Longrightarrow> gr_RevokedAt g \<noteq> 0" "\<And>k. (cid, k) \<in> busy J L \<Longrightarrow> keyUsed H g k"
    "\<And>k r. map_of (gr_Idem g) k = Some r \<Longrightarrow> saysNotSent r \<Longrightarrow> (cid, k) \<notin> sentOf L \<and> map_of J (cid, k) \<noteq> Some (Begun False)"
  shows "goodGrant H J L cid g"
  using assms by (simp add: goodGrant_def)

lemma goodGrant_rel:
  assumes g: "goodGrant H J L cid g" and rel: "grantRel H F cid g g'" and F: "fits F J L" and L: "goodLog L"
  shows "goodGrant H J L cid g'"
proof (rule goodGrantI)
  note hash = grantRelD(2) [OF rel]
  show "cid \<in> clientsOf L" using goodGrantD(1) [OF g] .
  show "gr_RefreshHash g' = [] \<or> (cid, gr_RefreshHash g') \<in> tokensOf L"
    using hash goodGrantD(2) [OF g] fitsD(2) [OF F] by metis
  show "gr_RefreshHash g' \<notin> refreshedOf L"
    using hash goodGrantD(3) [OF g] fitsD(2) [OF F] refreshed_nonempty [OF L] by metis
  show "gr_RevokedAt g' \<noteq> 0" if "cid \<in> revokedOf L"
    using grantRelD(1) [OF rel goodGrantD(4) [OF g that]] .
  show "keyUsed H g' k" if "(cid, k) \<in> busy J L" for k
    using grantRelD(3) [OF rel goodGrantD(5) [OF g that]] that fitsD(5) [OF F] by blast
  show "(cid, k) \<notin> sentOf L \<and> map_of J (cid, k) \<noteq> Some (Begun False)"
    if r': "map_of (gr_Idem g') k = Some r'" "saysNotSent r'" for k r'
  proof (cases "(cid, k) \<in> fr_added F \<union> fr_marked F")
    case True
    then show ?thesis using fitsD(4) [OF F] by blast
  next
    case False
    then obtain r where "map_of (gr_Idem g) k = Some r" "idemRel F (cid, k) r r'"
      using grantRelD(4) [OF rel r'(1)] by blast
    then show ?thesis using goodGrantD(6) [OF g] r'(2) False by (auto simp: idemRel_def)
  qed
qed

lemma goodGrant_new:
  assumes new: "grantNew F cid g'" and F: "fits F J L" and L: "goodLog L"
  shows "goodGrant H J L cid g'"
proof (rule goodGrantI)
  have c: "cid \<in> fr_clients F" using new by (simp add: grantNew_def)
  show "cid \<in> clientsOf L" using fitsD(3) [OF F c] by blast
  show "gr_RefreshHash g' = [] \<or> (cid, gr_RefreshHash g') \<in> tokensOf L"
    using new fitsD(2) [OF F] unfolding grantNew_def by blast
  show "gr_RefreshHash g' \<notin> refreshedOf L"
    using new fitsD(2) [OF F] refreshed_nonempty [OF L] unfolding grantNew_def by metis
  show "gr_RevokedAt g' \<noteq> 0" if "cid \<in> revokedOf L" using that fitsD(3) [OF F c] by blast
  show "keyUsed H g' k" if "(cid, k) \<in> busy J L" for k using that fitsD(3) [OF F c] by blast
  show "(cid, k) \<notin> sentOf L \<and> map_of J (cid, k) \<noteq> Some (Begun False)" if "map_of (gr_Idem g') k = Some r" for k r
    using new that fitsD(4) [OF F] unfolding grantNew_def by blast
qed

lemma good_evolves:
  assumes ev: "evolves H F st st'" and st: "goodReg H J L st" and F: "fits F J L" and L: "goodLog L"
  shows "goodReg H J L st'"
  unfolding goodReg_def
proof (intro conjI allI impI)
  have ok: "registryOk st" using st by (simp add: goodReg_def)
  show "registryOk st'" by (rule evolvesD(1) [OF ev ok])
  show "goodGrant H J L cid g'" if "map_of (st_Grants st') cid = Some g'" for cid g'
    using evolvesD(3) [OF ev ok that] st goodGrant_rel [OF _ _ F L] goodGrant_new [OF _ F L]
    unfolding grantFrom_def goodReg_def by blast
  show "goodCode L h c'" if "map_of (st_Codes st') h = Some c'" for h c'
    using evolvesD(2) [OF ev ok that] st fitsD(1) [OF F] unfolding codeFrom_def codeRel_def goodReg_def goodCode_def by blast
qed

lemma good_reaches:
  assumes "reaches H F a a'" "good H (Up a, J, L)" "fits F J L"
  shows "good H (Up a', J, L)"
proof -
  from assms(2) have L: "goodLog L" and st: "goodReg H J L (au_state a)" "goodReg H J L (diskState (au_disk a))" by simp_all
  then have "registryOk (au_state a)" by (simp add: goodReg_def)
  with assms(1) have "evolves H F (au_state a) (au_state a')"
    "au_disk a' = au_disk a \<or> (\<exists>st. au_disk a' = Some st \<and> evolves H F (au_state a) st)"
    by (simp_all add: reaches_def)
  then show ?thesis using assms(2) good_evolves [OF _ st(1) assms(3) L] st(2) by (auto simp: diskState_def)
qed

section \<open>Events keep the registries good\<close>

lemma goodReg_grow:
  assumes "goodReg H J L st"
    and "codesOf L \<subseteq> codesOf L'" "clientsOf L \<subseteq> clientsOf L'" "tokensOf L \<subseteq> tokensOf L'"
    and "redeemedOf L' = redeemedOf L" "refreshedOf L' = refreshedOf L" "revokedOf L' = revokedOf L" "sentOf L' = sentOf L"
  shows "goodReg H J L' st"
proof -
  have "busy J L' = busy J L" by (simp add: busy_def assms(8))
  then have "goodGrant H J L cid g \<Longrightarrow> goodGrant H J L' cid g" for cid g
    using assms(3-8) by (auto simp: goodGrant_def)
  moreover have "goodCode L h c \<Longrightarrow> goodCode L' h c" for h c using assms(2,5) by (auto simp: goodCode_def)
  ultimately show ?thesis using assms(1) unfolding goodReg_def by blast
qed

lemma goodReg_drawn:
  assumes "goodReg H J L st"
  shows "goodReg H J (EvCode h # L) st" "goodReg H J (EvClient c # L) st" "goodReg H J (EvToken c t # L) st"
    "goodReg H J (EvAdmitted c # L) st" "goodReg H J (EvNotSent c k # L) st"
  by (rule goodReg_grow [OF assms]; auto)+

lemma goodReg_redeemed:
  assumes "goodReg H J L st" "\<And>c. map_of (st_Codes st) h = Some c \<Longrightarrow> co_ConsumedAt c \<noteq> 0"
  shows "goodReg H J (EvRedeemed h # L) st"
  using assms by (auto simp: goodReg_def goodGrant_def goodCode_def)

lemma goodReg_refreshed:
  assumes "goodReg H J L st" "\<And>cid g. map_of (st_Grants st) cid = Some g \<Longrightarrow> gr_RefreshHash g \<noteq> h"
  shows "goodReg H J (EvRefreshed h # L) st"
  using assms by (auto simp: goodReg_def goodGrant_def goodCode_def)

lemma goodReg_revoked:
  assumes "goodReg H J L st" "\<And>g. map_of (st_Grants st) c = Some g \<Longrightarrow> gr_RevokedAt g \<noteq> 0"
  shows "goodReg H J (EvRevoked c # L) st"
  using assms by (auto simp: goodReg_def goodGrant_def goodCode_def)

lemma goodJobs_Cons [simp]:
  "goodJobs J (EvCode h # L) = goodJobs J L" "goodJobs J (EvToken c t # L) = goodJobs J L"
  "goodJobs J (EvRedeemed h # L) = goodJobs J L" "goodJobs J (EvRefreshed h # L) = goodJobs J L"
  "goodJobs J (EvRevoked c # L) = goodJobs J L" "goodJobs J (EvAdmitted c # L) = goodJobs J L"
  "goodJobs J (EvNotSent c k # L) = goodJobs J L" "goodJobs J L \<Longrightarrow> goodJobs J (EvClient c # L)"
  by (auto simp: goodJobs_def)

lemma goodD:
  assumes "good H (Up a, J, L)"
  shows "goodLog L" "goodJobs J L" "goodReg H J L (au_state a)" "goodReg H J L (diskState (au_disk a))" "registryOk (au_state a)"
    "\<And>cid g. grantOf a cid = Some g \<Longrightarrow> goodGrant H J L cid g" "\<And>h c. codeOf a h = Some c \<Longrightarrow> goodCode L h c"
  using assms by (auto simp: goodReg_def)

lemma goodI:
  "\<lbrakk>goodLog L; goodJobs J L; goodReg H J L (au_state a); goodReg H J L (diskState (au_disk a))\<rbrakk> \<Longrightarrow> good H (Up a, J, L)"
  by simp

section \<open>Each step\<close>

lemma quiet_reaches: "quiet H a a' \<Longrightarrow> reaches H nothingNew a a'"
  by (induction rule: quiet.induct)
     (simp_all add: EnableCloud_reaches DisableCloud_reaches ClaimTicket_reaches RevokeToken_reaches EnsureCreationID_reaches
       reachesI Done_def watchGrant_def CloseAuthority_def Let_def split: option.split)

lemma good_code:
  assumes g: "good H (Up a, J, L)" and h: "H secret \<notin> codesOf L" and r: "reaches H (nothingNew\<lparr>fr_codes := {H secret}\<rparr>) a a'"
  shows "good H (Up a', J, EvCode (H secret) # L)"
proof (rule good_reaches [OF r])
  show "good H (Up a, J, EvCode (H secret) # L)" using g h by (simp add: goodReg_drawn)
  show "fits (nothingNew\<lparr>fr_codes := {H secret}\<rparr>) J (EvCode (H secret) # L)"
    using h redeemed_codes [OF goodD(1) [OF g]] by (auto simp: fits_def nothingNew_def)
qed

lemma busy_client: "good H (n, J, L) \<Longrightarrow> (c, k) \<in> busy J L \<Longrightarrow> c \<in> clientsOf L"
  using sent_clients by (auto simp: busy_def goodJobs_def)

lemma good_redeem:
  assumes g: "good H (Up a, J, L)" and op: "Redeem H D now ioV io acc refresh clientID secret label kind verifier a = (a', res)"
    and now: "0 < now" and new: "clientID \<notin> clientsOf L" "H refresh \<notin> insert [] (snd ` tokensOf L)"
  shows "good H (Up a', J, (if isl res then [] else [EvRedeemed (H secret)]) @ EvClient clientID # EvToken clientID (H refresh) # L)"
proof -
  let ?F = "nothingNew\<lparr>fr_clients := {clientID}, fr_tokens := {(clientID, H refresh)}\<rparr>"
  let ?L = "EvClient clientID # EvToken clientID (H refresh) # L"
  have good': "good H (Up a', J, ?L)"
  proof (rule good_reaches)
    have "reaches H ?F a (fst (Redeem H D now ioV io acc refresh clientID secret label kind verifier a))"
      by (rule Redeem_reaches) simp_all
    then show "reaches H ?F a a'" by (simp add: op)
    show "good H (Up a, J, ?L)" using g new by (auto simp: goodReg_drawn)
    show "fits ?F J ?L" using new revoked_clients [OF goodD(1) [OF g]] refreshed_tokens [OF goodD(1) [OF g]] busy_client [OF g]
      by (auto simp: fits_def nothingNew_def)
  qed
  show ?thesis
  proof (cases res)
    case (Inr resp)
    obtain rec l where rec: "codeOf a (H secret) = Some rec" "co_ConsumedAt rec = 0"
      and c: "commitRedeem H now io acc refresh clientID secret l kind rec a = (a', Inr resp)"
      using Redeem_ok [OF op [unfolded Inr]] by metis
    note cok = commitRedeem_ok [OF c goodD(5) [OF g]]
    have "H secret \<in> codesOf L - redeemedOf L" using goodD(7) [OF g rec(1)] rec(2) by (auto simp: goodCode_def)
    with good' cok now show ?thesis by (auto simp: Inr intro!: goodReg_redeemed)
  qed (use good' in simp)
qed

lemma good_refresh:
  assumes g: "good H (Up a, J, L)" and op: "Refresh H now io acc nxt token a = (a', res)"
    and ne: "H token \<noteq> []" and new: "H nxt \<notin> insert [] (snd ` tokensOf L)"
    and owner: "owner = (case findRefresh (H token) a of Some g \<Rightarrow> gr_ClientID g | None \<Rightarrow> [])"
  shows "good H (Up a', J, (if isl res then [] else [EvRefreshed (H token)]) @ EvToken owner (H nxt) # L)"
proof -
  let ?F = "nothingNew\<lparr>fr_tokens := {(owner, H nxt)}\<rparr>" and ?L = "EvToken owner (H nxt) # L"
  have good': "good H (Up a', J, ?L)"
  proof (rule good_reaches)
    have "reaches H ?F a (fst (Refresh H now io acc nxt token a))" by (rule Refresh_reaches) (simp add: owner)
    then show "reaches H ?F a a'" by (simp add: op)
    show "good H (Up a, J, ?L)" using g new by (auto simp: goodReg_drawn)
    show "fits ?F J ?L" using new refreshed_tokens [OF goodD(1) [OF g]] by (auto simp: fits_def nothingNew_def)
  qed
  show ?thesis
  proof (cases res)
    case (Inr resp)
    obtain g0 where g0: "findRefresh (H token) a = Some g0" "gr_RefreshHash g0 = H token" "gr_RevokedAt g0 = 0"
      and "\<forall>cid g'. grantOf a' cid = Some g' \<or> map_of (st_Grants (diskState (au_disk a'))) cid = Some g' \<longrightarrow>
        (if cid = gr_ClientID g0 then gr_RefreshHash g' = H nxt else grantOf a cid = Some g')"
      using Refresh_ok [OF op [unfolded Inr] goodD(5) [OF g]] by blast
    note after = this(4) [rule_format]
    have own: "owner = gr_ClientID g0" by (simp add: owner g0)
    note gg = goodD(6) [OF g findRefresh_grant(1) [OF goodD(5) [OF g] g0(1)]]
    have t: "(owner, H token) \<in> tokensOf L" "H token \<notin> refreshedOf L"
      using goodGrantD(2,3) [OF gg] ne by (auto simp: own g0)
    have "gr_RefreshHash g' \<noteq> H token"
      if "grantOf a' cid = Some g' \<or> map_of (st_Grants (diskState (au_disk a'))) cid = Some g'" for cid g'
    proof (cases "cid = owner")
      case True
      with after [OF that] new t(1) show ?thesis by (force simp: own)
    next
      case False
      with after [OF that] have "grantOf a cid = Some g'" by (simp add: own)
      then show ?thesis using goodGrantD(2) [OF goodD(6) [OF g]] token_owner [OF goodD(1) [OF g] t(1)] False ne by metis
    qed
    with good' t show ?thesis by (auto simp: Inr intro!: goodReg_refreshed intro: rev_image_eqI)
  qed (use good' in simp)
qed

lemma good_nothing: "good H (Up a, J, L) \<Longrightarrow> reaches H nothingNew a a' \<Longrightarrow> good H (Up a', J, L)"
  by (rule good_reaches [OF _ _ fits_nothing])

lemma good_revoke:
  assumes g: "good H (Up a, J, L)" and op: "RevokeGrant now io clientID reason a = (a', err)" and now: "0 < now"
  shows "good H (Up a', J, (if err = None then [EvRevoked clientID] else []) @ L)"
proof -
  have good': "good H (Up a', J, L)"
    using RevokeGrant_reaches [of H nothingNew a now io clientID reason] by (intro good_nothing [OF g]) (simp add: op)
  show ?thesis
  proof (cases err)
    case None
    note r = RevokeGrant_ok [OF op [unfolded None] goodD(5) [OF g]]
    have "clientID \<in> clientsOf L" using r(1) now goodGrantD(1) [OF goodD(6) [OF g]] by auto
    with good' r(2,3) now show ?thesis by (auto simp: None diskState_def intro!: goodReg_revoked)
  qed (use good' in simp)
qed

lemma good_revoke_all:
  assumes "goodLog L" "goodJobs J L" "goodReg H J L st" "set cs \<subseteq> clientsOf L"
    and "\<And>cid g. map_of (st_Grants st) cid = Some g \<Longrightarrow> gr_RevokedAt g \<noteq> 0"
  shows "goodLog (map EvRevoked cs @ L) \<and> goodJobs J (map EvRevoked cs @ L) \<and> goodReg H J (map EvRevoked cs @ L) st \<and>
    clientsOf (map EvRevoked cs @ L) = clientsOf L"
  using assms(4)
proof (induction cs)
  case (Cons c cs)
  then show ?case using assms(5) by (auto intro!: goodReg_revoked)
qed (use assms in simp)

lemma good_reset:
  assumes g: "good H (Up a, J, L)" and op: "ResetIdentity now io ioI generation a = (a', err)" and now: "0 < now"
  shows "good H (Up a', J, (if err = None then map (EvRevoked \<circ> fst) (st_Grants (au_state a)) else []) @ L)"
proof -
  have good': "good H (Up a', J, L)"
    using ResetIdentity_reaches [of H nothingNew a now io ioI generation] by (intro good_nothing [OF g]) (simp add: op)
  show ?thesis
  proof (cases err)
    case None
    note r = ResetIdentity_ok [OF op [unfolded None] goodD(5) [OF g]]
    let ?cs = "map fst (st_Grants (au_state a))"
    have "set ?cs \<subseteq> clientsOf L"
      using goodGrantD(1) [OF goodD(6) [OF g]] registryOkD(3) [OF goodD(5) [OF g]] by auto
    from good_revoke_all [OF goodD(1-3) [OF good'] this] r now have
      "goodLog (map EvRevoked ?cs @ L) \<and> goodJobs J (map EvRevoked ?cs @ L) \<and> goodReg H J (map EvRevoked ?cs @ L) (au_state a')"
      by auto
    then show ?thesis using r(1) now by (simp add: None diskState_def)
  qed (use good' in simp)
qed

lemma good_admit:
  assumes g: "good H (Up a, J, L)" and a': "au_state a' = au_state a" "au_disk a' = au_disk a"
    and live: "grantOf a cid = Some gr" "gr_RevokedAt gr = 0"
  shows "good H (Up a', J, EvAdmitted cid # L)"
proof -
  have "cid \<notin> revokedOf L" using goodGrantD(4) [OF goodD(6) [OF g live(1)]] live(2) by blast
  then show ?thesis using g by (simp add: a' goodReg_drawn)
qed

lemma Admit_ok:
  assumes "Admit H now n token perm a = (a', Inr l)" "registryOk (au_state a)"
  obtains g where "grantOf a (ls_ClientID l) = Some g" "gr_RevokedAt g = 0" "au_state a' = au_state a" "au_disk a' = au_disk a"
proof -
  obtain cid g exp where g: "grantOf a cid = Some g" "gr_RevokedAt g = 0" and l: "l = grantLease n g exp"
    and a': "a' = a\<lparr>au_leases := l # au_leases a\<rparr>"
    using assms(1) by (auto simp: Admit_def Let_def split: if_splits option.splits)
  have "gr_ClientID g = cid" using registryOkD(1) [OF assms(2) g(1)] by (simp add: grantOk_def)
  then show ?thesis using that g a' by (simp add: l grantLease_def)
qed

lemma Hold_ok:
  assumes "Hold now n l0 perm a = (a', Inr l)" "registryOk (au_state a)"
  obtains g where "grantOf a (ls_ClientID l) = Some g" "gr_RevokedAt g = 0" "au_state a' = au_state a" "au_disk a' = au_disk a"
proof -
  obtain g exp where g: "grantOf a (ls_ClientID l0) = Some g" "gr_RevokedAt g = 0" and l: "l = grantLease n g exp"
    and a': "a' = a\<lparr>au_leases := l # au_leases a\<rparr>"
    using assms(1) by (auto simp: Hold_def Let_def split: if_splits option.splits)
  have "gr_ClientID g = ls_ClientID l0" using registryOkD(1) [OF assms(2) g(1)] by (simp add: grantOk_def)
  then show ?thesis using that g a' by (simp add: l grantLease_def)
qed

section \<open>Handlers\<close>

lemma heldKey_simps [simp]:
  "\<not> heldKey [] ck"
  "heldKey (mput ck p J) ck' = (if ck' = ck then p \<noteq> SentOff else heldKey J ck')"
  "heldKey (mdel ck J) ck' = (ck' \<noteq> ck \<and> heldKey J ck')"
  by (cases p; auto simp: heldKey_def delete_conv')+

lemma goodReg_fewer:
  assumes "goodReg H J L st" "\<And>ck. heldKey J' ck \<Longrightarrow> heldKey J ck"
    and "\<And>ck. map_of J' ck = Some (Begun False) \<Longrightarrow> map_of J ck = Some (Begun False)"
  shows "goodReg H J' L st"
proof -
  have "busy J' L \<subseteq> busy J L" using assms(2) by (auto simp: busy_def)
  then have "goodGrant H J L cid g \<Longrightarrow> goodGrant H J' L cid g" for cid g
    using assms(3) unfolding goodGrant_def by blast
  then show ?thesis using assms(1) unfolding goodReg_def by blast
qed

lemma good_fewer:
  assumes "good H (n, J, L)" "\<And>ck. heldKey J' ck \<Longrightarrow> heldKey J ck"
    and "\<And>ck. map_of J' ck = Some (Begun False) \<Longrightarrow> map_of J ck = Some (Begun False)"
  shows "good H (n, J', L)"
proof -
  have "goodJobs J' L" using assms(1,2) unfolding good.simps goodJobs_def by blast
  moreover have "goodReg H J' L st" if "goodReg H J L st" for st
    by (rule goodReg_fewer [OF that]) (fact assms(2,3))+
  ultimately show ?thesis using assms(1) by (simp add: list_all_iff)
qed

lemma goodReg_begin:
  assumes st: "goodReg H J L st" and g: "map_of (st_Grants st) cid = Some g" "map_of (gr_Idem g) key = Some r"
    and sync: "saysNotSent r \<Longrightarrow> async"
  shows "goodReg H (mput (cid, key) (Begun async) J) L st"
proof -
  have "goodGrant H (mput (cid, key) (Begun async) J) L c d" if d: "map_of (st_Grants st) c = Some d" for c d
  proof (rule goodGrantI)
    have good: "goodGrant H J L c d" using st d by (simp add: goodReg_def)
    note * = goodGrantD [OF good]
    show "c \<in> clientsOf L" "gr_RefreshHash d = [] \<or> (c, gr_RefreshHash d) \<in> tokensOf L" "gr_RefreshHash d \<notin> refreshedOf L"
      using *(1-3) by blast+
    show "gr_RevokedAt d \<noteq> 0" if "c \<in> revokedOf L" using *(4) that .
    show "keyUsed H d k" if "(c, k) \<in> busy (mput (cid, key) (Begun async) J) L" for k
    proof (cases "(c, k) = (cid, key)")
      case True
      then show ?thesis using d g by (simp add: keyUsed_def)
    next
      case False
      then show ?thesis using *(5) that by (auto simp: busy_def)
    qed
    show "(c, k) \<notin> sentOf L \<and> map_of (mput (cid, key) (Begun async) J) (c, k) \<noteq> Some (Begun False)"
      if "map_of (gr_Idem d) k = Some s" "saysNotSent s" for k s
      using *(6) [OF that] d g sync that by (cases "(c, k) = (cid, key)") auto
  qed
  then show ?thesis using st by (simp add: goodReg_def)
qed

lemma goodReg_sent:
  assumes st: "goodReg H J L st"
    and used: "\<And>g. map_of (st_Grants st) cid = Some g \<Longrightarrow> keyUsed H g key \<and> (\<forall>r. map_of (gr_Idem g) key = Some r \<longrightarrow> \<not> saysNotSent r)"
  shows "goodReg H J (EvSent cid key # L) st"
proof -
  have "goodGrant H J (EvSent cid key # L) c d" if d: "map_of (st_Grants st) c = Some d" for c d
    using st d used by (fastforce simp: goodReg_def goodGrant_def)
  then show ?thesis using st by (auto simp: goodReg_def goodCode_def)
qed

lemma good_begin:
  assumes g: "good H (Up a, J, L)" and op: "BeginAction H now io l key bodyHash False ini a = (a', res)"
    and ini: "\<And>r. saysNotSent (ini (newIdem bodyHash (au_boot a) now)) \<Longrightarrow> async"
  shows "good H (Up a', if res = Inr IdemProceed then mput (ls_ClientID l, key) (Begun async) J else J, L)"
proof -
  let ?ck = "(ls_ClientID l, key)"
  define F where "F = (if \<exists>g. grantOf a (ls_ClientID l) = Some g \<and> \<not> keyUsed H g key then nothingNew\<lparr>fr_added := {?ck}\<rparr> else nothingNew)"
  have "reaches H F a (fst (BeginAction H now io l key bodyHash False ini a))"
    by (rule BeginAction_reaches) (auto simp: F_def)
  moreover have unused: "?ck \<notin> busy J L" if "grantOf a (ls_ClientID l) = Some d" "\<not> keyUsed H d key" for d
    using goodGrantD(5) [OF goodD(6) [OF g that(1)]] that(2) by blast
  then have "fits F J L"
    by (auto simp: F_def fits_def nothingNew_def busy_def heldKey_def)
  ultimately have good': "good H (Up a', J, L)" using good_reaches [OF _ g] by (simp add: op)
  show ?thesis
  proof (cases "res = Inr IdemProceed")
    case True
    obtain d d' where d: "grantOf a (ls_ClientID l) = Some d" "\<not> keyUsed H d key" and d': "grantOf a' (ls_ClientID l) = Some d'"
      "map_of (gr_Idem d') key = Some (ini (newIdem bodyHash (au_boot a) now))" "au_disk a' = Some (au_state a')"
      using BeginAction_proceed [OF op [unfolded True] goodD(5) [OF g]] by blast
    have "goodReg H (mput ?ck (Begun async) J) L (au_state a')"
      by (rule goodReg_begin [OF goodD(3) [OF good'] d'(1,2)]) (rule ini)
    moreover have "goodJobs (mput ?ck (Begun async) J) L"
      using goodD(2) [OF g] unused [OF d] goodGrantD(1) [OF goodD(6) [OF g d(1)]] by (auto simp: goodJobs_def busy_def)
    ultimately show ?thesis using goodD(1) [OF g] True by (simp add: d'(3) diskState_def)
  qed (use good' in simp)
qed

lemma notRun_text: "notRun cause = (cd, msg) \<Longrightarrow> msg \<noteq> undispatchedError"
  by (cases cause) (auto simp: precheckCode_def undispatchedError_def split: if_splits)

lemma FinishAction_says:
  assumes "msg \<noteq> undispatchedError"
  shows "\<not> saysNotSent (FinishAction False cd msg r) \<and> \<not> saysNotSent ((FinishAction False cd msg r)\<lparr>im_EndedAt := t\<rparr>)"
  using assms by (simp add: FinishAction_def saysNotSent_def undispatched_def)

lemma settle_says:
  assumes "settle creates target affected ident revoked err = (upd, ans)"
  shows "\<not> saysNotSent (upd r) \<and> \<not> saysNotSent ((upd r)\<lparr>im_EndedAt := t\<rparr>)"
proof -
  have texts: "''the amux daemon must be upgraded before it can create sessions over direct access; nothing was sent to it'' \<noteq> undispatchedError"
    "''the daemon rejected the action'' \<noteq> undispatchedError" "''the amux daemon was not reachable; the action did not run'' \<noteq> undispatchedError"
    by (simp_all add: undispatchedError_def)
  have "upd \<in> {FinishCreated (id_ID ident) (case target of Some root \<Rightarrow> root | None \<Rightarrow> id_ID ident) (id_Incarnation ident) (id_RootIncarnation ident),
      AmbiguousAction, FinishResult [] [] affected} \<or> (\<exists>cd msg. upd = FinishAction False cd msg \<and> msg \<noteq> undispatchedError)"
    using assms texts by (auto simp: settle_def Let_def split: if_splits)
  then show ?thesis
    by (auto simp: FinishAction_says) (auto simp: FinishCreated_def AmbiguousAction_def FinishResult_def saysNotSent_def undispatched_def)
qed

lemma idemReply_says:
  assumes "idemReply identities before after out = Some (ErrorAnswer status cd undispatchedError)"
  obtains r where "out = IdemReplay r" "\<not> im_OK r" "im_Error r = undispatchedError"
proof -
  have texts: "targetUnavailableMsg \<noteq> undispatchedError" "unverifiableMsg \<noteq> undispatchedError" "idemExpiredMsg \<noteq> undispatchedError"
    by (simp_all add: targetUnavailableMsg_def unverifiableMsg_def idemExpiredMsg_def undispatchedError_def)
  have "identityReadErr e \<noteq> ErrorAnswer status cd undispatchedError" for e
    by (simp add: identityReadErr_def undispatchedError_def)
  then have "replayCreated identities before after r \<noteq> ErrorAnswer status cd undispatchedError" for r
    using texts by (auto simp: replayCreated_def split: option.split sum.split identityVerdict.split) (simp_all add: undispatchedError_def)
  with assms texts that show ?thesis
    by (auto simp: idemReply_def split: idemOutcome.splits if_splits) (simp_all add: undispatchedError_def)
qed

lemma elapsed_error: "cs_Error (if c then st\<lparr>cs_ElapsedMS := e\<rparr> else st) = cs_Error st"
  by simp

lemma statusOf_error:
  assumes "cs_Error (statusOf v now) = undispatchedError"
  shows "saysNotSent (cv_rec v)"
proof -
  let ?r = "cv_rec v"
  have no: "undispatchedError \<noteq> []" "unknownOutcome \<noteq> undispatchedError"
    by (simp_all add: undispatchedError_def unknownOutcome_def)
  consider "undispatched ?r" | "im_State ?r = idemDone" "\<not> im_OK ?r" "im_Code ?r \<noteq> []"
    | "\<not> undispatched ?r" "\<not> (im_State ?r = idemDone \<and> \<not> im_OK ?r \<and> im_Code ?r \<noteq> [])" by blast
  then show ?thesis
  proof cases
    case 2
    then show ?thesis using assms unfolding statusOf_def Let_def elapsed_error by (simp add: saysNotSent_def)
  next
    case 3
    then have "cs_Error (statusOf v now) \<in> {[], unknownOutcome}"
      unfolding statusOf_def Let_def elapsed_error undispatched_def by (simp split: if_split) blast
    with assms no show ?thesis by auto
  qed (simp add: saysNotSent_def)
qed

lemma writeCreation_says:
  assumes "writeCreation identities before after ended status v now = StatusAnswer status' st" "cs_Error st = undispatchedError"
  shows "saysNotSent (cv_rec v)"
proof -
  have texts: "targetUnavailableMsg \<noteq> undispatchedError" "unverifiableMsg \<noteq> undispatchedError"
    by (simp_all add: targetUnavailableMsg_def unverifiableMsg_def undispatchedError_def)
  have "identityReadErr e \<noteq> StatusAnswer status' st" for e by (simp add: identityReadErr_def)
  with assms(1) have "st = statusOf v now \<or> cs_Error st \<in> {targetUnavailableMsg, unverifiableMsg}"
    unfolding writeCreation_def Let_def
    by (auto simp: identityFailed_def split: if_splits option.splits sum.splits identityVerdict.splits)
  with assms(2) texts show ?thesis using statusOf_error by auto
qed

lemma good_told:
  assumes "good H (Up a, J, L)" "grantOf a cid = Some g" "map_of (gr_Idem g) key = Some r" "saysNotSent r" "good H (Up a', J, L)"
  shows "good H (Up a', J, EvNotSent cid key # L)"
  using goodGrantD(6) [OF goodD(6) [OF assms(1,2)] assms(3,4)] assms(5) by (simp add: goodReg_drawn)

lemma good_sent:
  assumes g: "good H (Up a, J, L)" and held: "heldKey J (cid, key)"
    and a': "good H (Up a', J, L)"
    and used: "\<And>st g r. st \<in> set (registries (Up a')) \<Longrightarrow> map_of (st_Grants st) cid = Some g \<Longrightarrow> map_of (gr_Idem g) key = Some r \<Longrightarrow> \<not> saysNotSent r"
  shows "good H (Up a', mput (cid, key) SentOff J, EvSent cid key # L)"
proof -
  have c: "cid \<in> clientsOf L" "(cid, key) \<notin> sentOf L" using goodD(2) [OF g] held by (auto simp: goodJobs_def)
  have J: "goodReg H (mput (cid, key) SentOff J) L' st" if "goodReg H J L' st" for st L'
    by (rule goodReg_fewer [OF that]) (auto split: if_splits)
  have "goodReg H (mput (cid, key) SentOff J) (EvSent cid key # L) st" if st: "st \<in> set (registries (Up a'))" for st
  proof (rule J, rule goodReg_sent)
    show reg: "goodReg H J L st" using a' st by (simp only: good.simps list_all_iff)
    show "keyUsed H g key \<and> (\<forall>r. map_of (gr_Idem g) key = Some r \<longrightarrow> \<not> saysNotSent r)" if "map_of (st_Grants st) cid = Some g" for g
      using reg that used [OF st that] held by (auto simp: goodReg_def goodGrant_def busy_def)
  qed
  moreover have "goodJobs (mput (cid, key) SentOff J) (EvSent cid key # L)"
    using goodD(2) [OF g] by (auto simp: goodJobs_def split: if_splits)
  ultimately show ?thesis using goodD(1) [OF g] c by (simp add: list_all_iff)
qed

lemma good_send:
  assumes g: "good H (Up a, J, L)" and held: "map_of J (cid, key) = Some (Begun False)"
  shows "good H (Up a, mput (cid, key) SentOff J, EvSent cid key # L)"
proof (rule good_sent [OF g _ g])
  show "heldKey J (cid, key)" using held by (auto simp: heldKey_def)
  fix st d r assume "st \<in> set (registries (Up a))" "map_of (st_Grants st) cid = Some d" "map_of (gr_Idem d) key = Some r"
  moreover have "goodReg H J L st" using g \<open>st \<in> set (registries (Up a))\<close> by (simp only: good.simps list_all_iff)
  ultimately show "\<not> saysNotSent r" using goodGrantD(6) [of H J L cid d key r] held by (auto simp: goodReg_def)
qed

lemma good_mark:
  assumes g: "good H (Up a, J, L)" and held: "map_of J (ls_ClientID l, key) = Some (Begun True)"
    and op: "MarkDispatched now io l key a = (a', err)"
  shows "good H (Up a', J, L)"
proof (rule good_reaches [OF _ g])
  let ?F = "nothingNew\<lparr>fr_marked := {(ls_ClientID l, key)}\<rparr>"
  show "reaches H ?F a a'" using MarkDispatched_reaches [of l key ?F H a now io] by (simp add: op)
  have "heldKey J (ls_ClientID l, key)" using held by (auto simp: heldKey_def)
  then show "fits ?F J L" using goodD(2) [OF g] held by (auto simp: fits_def nothingNew_def goodJobs_def)
qed

lemma good_dispatch:
  assumes g: "good H (Up a, J, L)" and held: "map_of J (ls_ClientID l, key) = Some (Begun True)"
    and op: "MarkDispatched now io l key a = (a', None)" and now: "0 < now"
  shows "good H (Up a', mput (ls_ClientID l, key) SentOff J, EvSent (ls_ClientID l) key # L)"
proof (rule good_sent [OF g _ good_mark [OF g held op]])
  show "heldKey J (ls_ClientID l, key)" using held by (auto simp: heldKey_def)
  obtain d s where "grantOf a' (ls_ClientID l) = Some d" "map_of (gr_Idem d) key = Some s" "im_State s = idemAdmitted"
    "im_DispatchedAt s = now" "au_disk a' = Some (au_state a')"
    by (rule MarkDispatched_ok [OF op goodD(5) [OF g]])
  then show "\<not> saysNotSent r" if "st \<in> set (registries (Up a'))" "map_of (st_Grants st) (ls_ClientID l) = Some g" "map_of (gr_Idem g) key = Some r"
    for st g r using that now by (auto simp: diskState_def saysNotSent_def undispatched_def)
qed

lemma good_dispatch_failed:
  assumes "good H (Up a, J, L)" and held: "map_of J (ls_ClientID l, key) = Some (Begun True)"
    and "MarkDispatched now io l key a = (a', err)"
  shows "good H (Up a', mput (ls_ClientID l, key) Stopped J, L)"
  by (rule good_fewer [OF good_mark [OF assms]]) (use held in \<open>auto simp: heldKey_def split: if_splits\<close>)

lemma good_end:
  assumes g: "good H (Up a, J, L)" and upd: "\<And>r t. \<not> saysNotSent (upd r) \<and> \<not> saysNotSent ((upd r)\<lparr>im_EndedAt := t\<rparr>)"
  shows "good H (Up (endAction now io l key upd a), mdel ck J, L)"
  by (rule good_fewer [OF good_nothing [OF g endAction_reaches [OF upd]]]) (auto simp: delete_conv' split: if_splits)

lemma good_abort:
  assumes g: "good H (Up a, J, L)" and held: "map_of J (ls_ClientID l, key) = Some (Begun False)"
  shows "good H (Up (AbortAction io l key a), mdel (ls_ClientID l, key) J, L)"
proof (rule good_reaches)
  let ?F = "nothingNew\<lparr>fr_removed := {(ls_ClientID l, key)}\<rparr>"
  show "reaches H ?F a (AbortAction io l key a)" by (rule AbortAction_reaches) simp
  show "good H (Up a, mdel (ls_ClientID l, key) J, L)"
    by (rule good_fewer [OF g]) (auto simp: delete_conv' split: if_splits)
  have "heldKey J (ls_ClientID l, key)" using held by (auto simp: heldKey_def)
  then show "fits ?F (mdel (ls_ClientID l, key) J) L"
    using goodD(2) [OF g] by (auto simp: fits_def nothingNew_def busy_def goodJobs_def)
qed

section \<open>Every run is good\<close>

lemma good_peek:
  assumes g: "good H (Up a, J, L)" and op: "BeginAction H now io l key bodyHash True ini a = (a', res)"
  shows "good H (Up a', J, L)"
proof (cases "grantOf a (ls_ClientID l)")
  case (Some d)
  note c = putGrant_compact(1) [OF Some goodD(5) [OF g], of H nothingNew now]
  have "a' = a \<or> a' = putGrant (compactExpiredLocked H now d) a"
    using op by (auto simp: BeginAction_def Some Let_def split: if_splits option.splits)
  then show ?thesis using g good_nothing [OF g c] by blast
qed (use g op in \<open>auto simp: BeginAction_def split: if_splits\<close>)

lemma good_told_by_reply:
  assumes g: "good H (Up a, J, L)" and op: "BeginAction H now io l key bodyHash peek ini a = (a', Inr out)"
    and says: "idemReply identities before after out = Some (ErrorAnswer status cd undispatchedError)"
  shows "good H (Up a', J, EvNotSent (ls_ClientID l) key # L)"
proof -
  obtain r where r: "out = IdemReplay r" "\<not> im_OK r" "im_Error r = undispatchedError" by (rule idemReply_says [OF says])
  obtain d where d: "grantOf a (ls_ClientID l) = Some d" "map_of (gr_Idem d) key = Some r" "im_State r = idemDone"
    by (rule BeginAction_replay [OF op [unfolded r(1)] goodD(5) [OF g]])
  have "reaches H nothingNew a (fst (BeginAction H now io l key bodyHash peek ini a))"
    by (rule BeginAction_reaches) (simp add: d keyUsed_def)
  then have a': "good H (Up a', J, L)" using good_nothing [OF g] by (simp add: op)
  show ?thesis by (rule good_told [OF g d(1,2) _ a']) (simp add: saysNotSent_def r d)
qed

lemma good_told_by_status:
  assumes g: "good H (Up a, J, L)" and v: "creationByKey l key a = Some v"
    and says: "writeCreation identities before after ended status v now = StatusAnswer status st" "cs_Error st = undispatchedError"
  shows "good H (Up a, J, EvNotSent (ls_ClientID l) key # L)"
proof -
  obtain d where d: "grantOf a (ls_ClientID l) = Some d" "map_of (gr_Idem d) key = Some (cv_rec v)"
    using v by (auto simp: creationByKey_def split: option.splits)
  show ?thesis by (rule good_told [OF g d writeCreation_says [OF says] g])
qed

lemma good_restart:
  assumes g: "good H (Down d i, [], L)" and op: "loadAuthority now ioM ioN ioI ioG newGen boot life d i = ((d', i'), opened)"
  shows "good H (case opened of Some a \<Rightarrow> Up a | None \<Rightarrow> Down d' i', [], L)"
proof -
  have L: "goodLog L" "goodJobs [] L" "goodReg H [] L (diskState d)" using g by simp_all
  note ev = loadAuthority_evolves [OF op, where H = H and F = nothingNew]
  have "goodReg H [] L (diskState d')" by (rule good_evolves [OF ev(1) L(3) _ L(1)]) simp
  moreover have "goodReg H [] L (au_state a)" "au_disk a = d'" if "opened = Some a" for a
    using good_evolves [OF ev(2) [OF that, THEN conjunct2] L(3) _ L(1)] ev(2) [OF that] by simp_all
  ultimately show ?thesis using L by (auto split: option.split)
qed

lemma dstep_good:
  assumes "dstep H D s s'" "good H s"
  shows "good H s'"
  using assms
proof (induction rule: dstep.induct)
  case (quiet a a' J L) then show ?case using good_nothing quiet_reaches by blast
next
  case (new_code now secret io label perms resource ttl a a' res L J)
  then show ?case using good_code [of H a J L secret a'] NewCode_reaches [of H secret a now io label perms resource ttl] by simp
next
  case (issue now secret io req a a' res L J)
  then show ?case using good_code [of H a J L secret a'] IssueCloudCode_reaches [of H secret a now io req] by simp
next
  case (admit now n token perm a a' l J L) then show ?case using Admit_ok goodD(5) good_admit by metis
next
  case (hold now n l0 perm a a' l J L) then show ?case using Hold_ok goodD(5) good_admit by metis
next
  case (begin_sync now io l key bodyHash a a' res J L)
  show ?case by (rule good_begin [OF begin_sync(2,1)]) (simp add: saysNotSent_def undispatched_def newIdem_def)
next
  case (begin_async now io l key bodyHash creationID verb a a' res J L)
  show ?case by (rule good_begin [OF begin_async(2,1)]) simp
next
  case (not_run J l key cause cd msg a L now io)
  show ?case by (rule good_end [OF not_run(3)]) (rule FinishAction_says [OF notRun_text [OF not_run(2)]])
next
  case (settled J l key creates target affected ident revoked err upd ans a L now io)
  show ?case by (rule good_end [OF settled(3)]) (rule settle_says [OF settled(2)])
next
  case (crash a J L) then show ?case using good_fewer [of H "Down (au_disk a) (au_diskIdentity a)" J L "[]"] by simp
qed (blast intro: good_redeem good_refresh good_revoke good_reset good_peek good_told_by_reply good_told_by_status good_abort good_send
    good_dispatch good_dispatch_failed good_restart)+

lemma druns_good: "druns H D s \<Longrightarrow> good H s"
proof (induction rule: druns.induct)
  case start
  show ?case by (simp add: goodJobs_def goodReg_def registryOk_def diskState_def emptyState_def)
next
  case (step s s')
  then show ?case using dstep_good by blast
qed

end
