(* ===== verification/Direct_Handlers.thy ===== *)
theory Direct_Handlers
  imports Direct_Invariant
begin

text \<open>
  The handlers of \<^verbatim>\<open>server.go\<close> and \<^verbatim>\<open>creations.go\<close> are runs of the system: wherever a run may be, letting one of
  them finish gives a run again, so that what holds of every run holds of the handlers, alone or between other
  steps.
\<close>

lemma run_step: "druns H D s \<Longrightarrow> dstep H D s s' \<Longrightarrow> druns H D s'"
  by (rule druns.step)

lemma idemReply_None: "idemReply identities before after out = None \<longleftrightarrow> out = IdemProceed"
  by (cases out) (simp_all add: idemReply_def)

definition runsOn :: "(string \<Rightarrow> string) \<Rightarrow> (string \<Rightarrow> string) \<Rightarrow> Authority \<Rightarrow> bool" where
  "runsOn H D a \<longleftrightarrow> (\<exists>J L. druns H D (Up a, J, L))"

lemma runsOnI: "druns H D (Up a, J, L) \<Longrightarrow> runsOn H D a"
  by (auto simp: runsOn_def)

lemma ended_runs:
  assumes "druns H D (Up a, J, L)" "map_of J (ls_ClientID l, key) = Some (Begun True) \<or> map_of J (ls_ClientID l, key) = Some Stopped"
  shows "runsOn H D (didNotRun E l key cause a)"
  unfolding didNotRun_def
  by (cases "notRun cause") (auto intro: runsOnI [OF run_step [OF assms(1) dstep.not_run [OF assms(2)]]])

lemma sent_runs:
  assumes "druns H D (Up a, J, L)" "map_of J (ls_ClientID l, key) = Some SentOff"
  shows "runsOn H D (endAction now io l key (fst (settle creates target affected ident revoked err)) a)"
  using runsOnI [OF run_step [OF assms(1) dstep.settled [OF assms(2)]]] by (metis prod.collapse)

lemma runAction_runs:
  assumes r: "druns H D (Up a, J, L)"
  shows "runsOn H D (fst (runAction H E l key bodyHash verb creates target a))"
proof -
  obtain a1 res where p: "BeginAction H (ae_peekNow E) Saved l key bodyHash True (\<lambda>r. r) a = (a1, res)" by fastforce
  note r1 = run_step [OF r dstep.peek [OF p]]
  obtain a2 res2 where b: "BeginAction H (ae_beginNow E) (ae_beginIO E) l key bodyHash False (\<lambda>r. r) a1 = (a2, res2)" by fastforce
  note r2 = run_step [OF r1 dstep.begin_sync [OF b]]
  let ?J = "mput (ls_ClientID l, key) (Begun False) J"
  have ends: "runsOn H D (AbortAction io l key a2)"
    "runsOn H D (endAction now io l key (fst (settle creates target affected ident revoked err)) a2)"
    if "res2 = Inr IdemProceed" for io now affected ident revoked err
  proof -
    have r3: "druns H D (Up a2, ?J, L)" using r2 that by simp
    show "runsOn H D (AbortAction io l key a2)" by (rule runsOnI [OF run_step [OF r3 dstep.abort]]) simp
    have "druns H D (Up a2, mput (ls_ClientID l, key) SentOff ?J, EvSent (ls_ClientID l) key # L)"
      by (rule run_step [OF r3 dstep.send]) simp
    then show "runsOn H D (endAction now io l key (fst (settle creates target affected ident revoked err)) a2)"
      by (rule sent_runs) simp
  qed
  show ?thesis
    unfolding runAction_def p prod.case
    by (auto simp: b idemReply_None runsOnI [OF r1] runsOnI [OF r2] ends case_prod_beta Let_def
        split: sum.split option.split)
qed

lemma runsOn_quiet: "runsOn H D a \<Longrightarrow> quiet H a a' \<Longrightarrow> runsOn H D a'"
  unfolding runsOn_def using druns.step dstep.quiet by meson

lemma existingReply_runs: "runsOn H D a \<Longrightarrow> runsOn H D (fst (existingReply E l key verb out a))"
  using runsOn_quiet [OF _ quiet.ensure_id]
  by (auto simp: existingReply_def answerExisting_def case_prod_beta split: idemOutcome.split sum.split)

lemma creationJob_runs:
  assumes r: "druns H D (Up a, J, L)" and held: "map_of J (ls_ClientID h, key) = Some (Begun True)" and now: "0 < je_markNow E"
  shows "runsOn H D (fst (creationJob E h key verb perm target j a))"
proof -
  obtain a1 err where m: "MarkDispatched (je_markNow E) (je_markIO E) h key a = (a1, err)" by fastforce
  have "runsOn H D (didNotRun E h key cause a1)" if "err = Some e" for e cause
    by (rule ended_runs [OF run_step [OF r dstep.dispatch_failed [OF held m [unfolded that]]]]) simp
  moreover have "runsOn H D (endAction n io h key (fst (settle True target [] ident b er)) a1)" if "err = None" for n io ident b er
    by (rule sent_runs [OF run_step [OF r dstep.dispatch [OF held m [unfolded that] now]]]) simp
  moreover note ended_runs [OF r disjI1 [OF held]]
  ultimately show ?thesis
    unfolding creationJob_def Let_def fst_conv
    by (intro runsOn_quiet [OF _ quiet.lease_done]) (auto simp: m case_prod_beta Let_def split: option.split)
qed

text \<open>A creation that was launched holds its key for the job, under the client of its worker lease.\<close>

definition launchedOn :: "(string \<Rightarrow> string) \<Rightarrow> (string \<Rightarrow> string) \<Rightarrow> string \<Rightarrow> Authority \<Rightarrow> answer + Lease \<Rightarrow> bool" where
  "launchedOn H D key a res \<longleftrightarrow>
     (case res of
        Inl ans \<Rightarrow> runsOn H D a
      | Inr h \<Rightarrow> \<exists>J L. druns H D (Up a, J, L) \<and> map_of J (ls_ClientID h, key) = Some (Begun True))"

lemma launchCreation_runs:
  assumes r: "druns H D (Up a, J, L)" and held: "map_of J (ls_ClientID l, key) = Some (Begun True)"
    and op: "launchCreation E l key perm a = (a', res)"
  shows "launchedOn H D key a' res"
proof -
  obtain a1 hres where h: "Hold (je_holdNow E) (je_lease E) l perm a = (a1, hres)" by fastforce
  show ?thesis
  proof (cases hres)
    case (Inl e)
    then have "a1 = a" using h by (auto simp: Hold_def Let_def split: option.splits if_splits)
    then show ?thesis using op h Inl ended_runs [OF r disjI1 [OF held]] by (auto simp: launchCreation_def launchedOn_def)
  next
    case (Inr w)
    have ok: "registryOk (au_state a)" using goodD(5) [OF druns_good [OF r]] .
    obtain g where "grantOf a (ls_ClientID l) = Some g" "ls_ClientID w = gr_ClientID g"
      using h Inr by (auto simp: Hold_def Let_def grantLease_def split: option.splits if_splits)
    then have "ls_ClientID w = ls_ClientID l" using registryOkD(1) [OF ok] by (auto simp: grantOk_def)
    moreover have "a' = a1" "res = Inr w" using op h Inr by (auto simp: launchCreation_def)
    ultimately show ?thesis using run_step [OF r dstep.hold [OF h [unfolded Inr]]] held by (auto simp: launchedOn_def)
  qed
qed

lemma beginCreation_runs:
  assumes r: "druns H D (Up a, J, L)" and op: "beginCreation H E l key bodyHash verb perm a = (a', res)"
  shows "launchedOn H D key a' res"
proof -
  obtain a1 bres where b: "BeginAction H (je_beginNow E) (je_beginIO E) l key bodyHash False (stampCreation (je_creationID E) verb True) a = (a1, bres)"
    by fastforce
  note r1 = run_step [OF r dstep.begin_async [OF b]]
  have "launchedOn H D key a' res" if "bres = Inr IdemProceed" "launchCreation E l key perm a1 = (a', res)"
    using launchCreation_runs [OF r1 _ that(2)] that(1) by simp
  moreover have "launchedOn H D key a1 (Inl ans)" "launchedOn H D key a (Inl ans)" for ans
    using runsOnI [OF r1] runsOnI [OF r] by (simp_all add: launchedOn_def)
  moreover have "launchedOn H D key (fst (existingReply E l key verb out a1)) (Inl ans)" for out ans
    using existingReply_runs [OF runsOnI [OF r1]] by (simp add: launchedOn_def)
  ultimately show ?thesis using op unfolding beginCreation_def b
    by (auto simp: case_prod_beta split: option.splits sum.splits idemOutcome.splits)
qed

lemma runCreationAsync_runs:
  assumes r: "druns H D (Up a, J, L)" and op: "runCreationAsync H E l key bodyHash verb perm creates j a = (a', j', res)"
  shows "launchedOn H D key a' res"
proof -
  obtain a1 pres where p: "BeginAction H (je_peekNow E) Saved l key bodyHash True (\<lambda>r. r) a = (a1, pres)" by fastforce
  note r1 = run_step [OF r dstep.peek [OF p]]
  obtain a2 bres where b: "beginCreation H E l key bodyHash verb perm a1 = (a2, bres)" by fastforce
  note launched = beginCreation_runs [OF r1 b]
  have here: "launchedOn H D key a1 (Inl ans)" "launchedOn H D key a (Inl ans)" for ans
    using runsOnI [OF r1] runsOnI [OF r] by (simp_all add: launchedOn_def)
  have told: "launchedOn H D key (fst (existingReply E l key verb out a1)) (Inl ans)" for out ans
    using existingReply_runs [OF runsOnI [OF r1]] by (simp add: launchedOn_def)
  show ?thesis using op launched here told unfolding runCreationAsync_def p prod.case b
    by (auto simp: case_prod_beta split: if_splits option.splits sum.splits idemOutcome.splits)
qed

end
