(* ===== verification/Direct_Props.thy ===== *)
theory Direct_Props
  imports Direct_Invariant
begin

text \<open>
  What a run of the direct server guarantees, over crashes, restarts and failed writes: the properties
  of its log and of its registry.
\<close>

section \<open>The log read backwards\<close>

fun sends :: "event list \<Rightarrow> (string \<times> string) list" where
  "sends [] = []"
| "sends (e # L) = (case e of EvSent c k \<Rightarrow> (c, k) # sends L | _ \<Rightarrow> sends L)"

fun redeems :: "event list \<Rightarrow> string list" where
  "redeems [] = []"
| "redeems (e # L) = (case e of EvRedeemed h \<Rightarrow> h # redeems L | _ \<Rightarrow> redeems L)"

fun refreshes :: "event list \<Rightarrow> string list" where
  "refreshes [] = []"
| "refreshes (e # L) = (case e of EvRefreshed h \<Rightarrow> h # refreshes L | _ \<Rightarrow> refreshes L)"

lemma log_lists [simp]: "set (sends L) = sentOf L" "set (redeems L) = redeemedOf L" "set (refreshes L) = refreshedOf L"
  by (induction L) (auto split: event.splits)

lemma goodLog_distinct:
  assumes "goodLog L"
  shows "distinct (sends L)" "distinct (redeems L)" "distinct (refreshes L)"
  using assms by (induction L) (auto split: event.splits)

lemma goodLog_append: "goodLog (L1 @ L2) \<Longrightarrow> goodLog L2"
  by (induction L1) auto

lemma run_log: "druns H D (n, J, L) \<Longrightarrow> goodLog L"
  using druns_good [of H D "(n, J, L)"] by simp

section \<open>A run\<close>

text \<open>
  A machine that makes a code, enrolls a client with it, admits it, runs one action, and
  then refreshes its token or revokes it. Hashes are the identity here.
\<close>

definition runSetup :: Authority where
  "runSetup = (case snd (loadAuthority 5 Saved Saved Saved Saved ''gen'' ''boot'' \<lparr>lf_Access = 600 * second, lf_Idle = DefaultIdleTTL, lf_Absolute = DefaultAbsoluteTT\<rparr> None None) of
     Some a \<Rightarrow> a | None \<Rightarrow> freshAuthority emptyState None [] None \<lparr>lf_Access = 0, lf_Idle = 0, lf_Absolute = 0\<rparr> [])"

definition runCoded :: Authority where
  "runCoded =
     (let st = \<lparr>st_V = 3, st_IdentityGeneration = ''gen'',
            st_Codes = [(''code'', codeRecordOf ''phone'' [''read''] \<lparr>sc_Kind = ''all_sessions'', sc_Workgroups = []\<rparr> 10 610)],
            st_Grants = [], st_Cloud = None, st_CloudIssues = []\<rparr>
      in runSetup\<lparr>au_state := st, au_disk := Some st\<rparr>)"

definition runEnrolled :: Authority where
  "runEnrolled = fst (Redeem (\<lambda>s. s) (\<lambda>s. s) 20 Saved Saved ''amxa_1'' ''amxr_1'' ''c1'' ''code'' ''phone'' ''web'' [] runCoded)"

definition runAdmitted :: Authority where
  "runAdmitted = fst (Admit (\<lambda>s. s) 30 0 ''amxa_1'' ''read'' runEnrolled)"

definition runLease :: Lease where
  "runLease = \<lparr>ls_id = 0, ls_ClientID = ''c1'', ls_Perms = [''read''], ls_Resource = \<lparr>sc_Kind = ''all_sessions'', sc_Workgroups = []\<rparr>,
     ls_ExpiresAt = 620\<rparr>"

definition runBegun :: Authority where
  "runBegun = fst (BeginAction (\<lambda>s. s) 31 Saved runLease ''key'' ''body'' False (\<lambda>r. r) runAdmitted)"

definition runRefreshed :: Authority where
  "runRefreshed = fst (Refresh (\<lambda>s. s) 40 Saved ''amxa_2'' ''amxr_2'' ''amxr_1'' runBegun)"

definition runRevoked :: Authority where
  "runRevoked = fst (RevokeGrant 50 Saved ''c1'' ''lost'' runBegun)"

definition runLog :: "event list" where
  "runLog = [EvRevoked ''c1'', EvSent ''c1'' ''key'', EvAdmitted ''c1'',
     EvRedeemed ''code'', EvClient ''c1'', EvToken ''c1'' ''amxr_1'', EvCode ''code'']"

lemma runSetup_loaded:
  "loadAuthority 5 Saved Saved Saved Saved ''gen'' ''boot'' \<lparr>lf_Access = 600 * second, lf_Idle = DefaultIdleTTL, lf_Absolute = DefaultAbsoluteTT\<rparr> None None =
   ((au_disk runSetup, Some ''gen''), Some runSetup)"
  by code_simp

lemma run_setup: "druns H D (Up runSetup, [], [])"
  using druns.step [OF druns.start dstep.restart [OF runSetup_loaded]] by simp

lemma runCoded_new:
  "NewCode (\<lambda>s. s) 10 ''code'' Saved ''phone'' [''read''] \<lparr>sc_Kind = ''all_sessions'', sc_Workgroups = []\<rparr> 0 runSetup
   = (runCoded, Inr (''code'', 610))"
  by code_simp

lemma run_redeem_ok:
  "\<not> isl (snd (Redeem (\<lambda>s. s) (\<lambda>s. s) 20 Saved Saved ''amxa_1'' ''amxr_1'' ''c1'' ''code'' ''phone'' ''web'' [] runCoded))"
  by code_simp

lemma run_admit_ok:
  "map_sum id ls_ClientID (snd (Admit (\<lambda>s. s) 30 0 ''amxa_1'' ''read'' runEnrolled)) = Inr ''c1''"
  by code_simp

lemma run_begin_ok:
  "case snd (BeginAction (\<lambda>s. s) 31 Saved runLease ''key'' ''body'' False (\<lambda>r. r) runAdmitted) of Inr IdemProceed \<Rightarrow> True | _ \<Rightarrow> False"
  by code_simp

lemma run_find_ok:
  "case findRefresh ''amxr_1'' runBegun of None \<Rightarrow> False | Some g \<Rightarrow> gr_ClientID g = ''c1'' \<and> gr_RefreshHash g = ''amxr_1'' \<and>
     gr_RevokedAt g = 0 \<and> 40 < gr_AbsoluteExpiry g \<and> 40 < gr_LastRefreshAt g + gr_IdleTTL g \<and> gr_IdentityGeneration g = au_identity runBegun \<and>
     gr_UsedRefresh g = []"
  by code_simp

lemma run_issuable_ok:
  "case issuableLocked runBegun of None \<Rightarrow> True | Some e \<Rightarrow> False"
  by code_simp

lemma run_revoke_ok:
  "case snd (RevokeGrant 50 Saved ''c1'' ''lost'' runBegun) of None \<Rightarrow> True | Some e \<Rightarrow> False"
  by code_simp

lemma run_enrolled:
  "druns (\<lambda>s. s) (\<lambda>s. s) (Up runEnrolled, [], [EvRedeemed ''code'', EvClient ''c1'', EvToken ''c1'' ''amxr_1'', EvCode ''code''])"
proof -
  from druns.step [OF run_setup dstep.new_code [OF runCoded_new]] have c: "druns (\<lambda>s. s) (\<lambda>s. s) (Up runCoded, [], [EvCode ''code''])"
    by simp
  obtain res where r: "Redeem (\<lambda>s. s) (\<lambda>s. s) 20 Saved Saved ''amxa_1'' ''amxr_1'' ''c1'' ''code'' ''phone'' ''web'' [] runCoded = (runEnrolled, res)"
    unfolding runEnrolled_def by (metis prod.collapse)
  with run_redeem_ok have "\<not> isl res" by simp
  with druns.step [OF c dstep.redeem [OF r]] show ?thesis by simp
qed

lemma run_sent:
  "druns (\<lambda>s. s) (\<lambda>s. s) (Up runBegun, [((''c1'', ''key''), SentOff)], EvSent ''c1'' ''key'' # EvAdmitted ''c1'' #
     [EvRedeemed ''code'', EvClient ''c1'', EvToken ''c1'' ''amxr_1'', EvCode ''code''])"
proof -
  obtain l where l: "Admit (\<lambda>s. s) 30 0 ''amxa_1'' ''read'' runEnrolled = (runAdmitted, Inr l)" "ls_ClientID l = ''c1''"
    using run_admit_ok unfolding runAdmitted_def
    by (cases "Admit (\<lambda>s. s) 30 0 ''amxa_1'' ''read'' runEnrolled"; cases "snd (Admit (\<lambda>s. s) 30 0 ''amxa_1'' ''read'' runEnrolled)") auto
  note a = druns.step [OF run_enrolled dstep.admit [OF l(1)], unfolded l(2)]
  have b: "BeginAction (\<lambda>s. s) 31 Saved runLease ''key'' ''body'' False (\<lambda>r. r) runAdmitted = (runBegun, Inr IdemProceed)"
    using run_begin_ok unfolding runBegun_def by (auto simp: prod_eq_iff split: sum.splits idemOutcome.splits)
  have "druns (\<lambda>s. s) (\<lambda>s. s) (Up runBegun, [((''c1'', ''key''), Begun False)], EvAdmitted ''c1'' #
      [EvRedeemed ''code'', EvClient ''c1'', EvToken ''c1'' ''amxr_1'', EvCode ''code''])"
    using druns.step [OF a dstep.begin_sync [OF b]] by (simp add: runLease_def)
  from druns.step [OF this dstep.send [where cid = "''c1''" and key = "''key''"]] show ?thesis by simp
qed

lemma run_refreshed:
  "druns (\<lambda>s. s) (\<lambda>s. s) (Up runRefreshed, [((''c1'', ''key''), SentOff)], EvRefreshed ''amxr_1'' # EvToken ''c1'' ''amxr_2'' # tl runLog)"
proof -
  obtain g where g: "findRefresh ''amxr_1'' runBegun = Some g" "gr_ClientID g = ''c1''" "gr_RefreshHash g = ''amxr_1''"
    "gr_RevokedAt g = 0" "40 < gr_AbsoluteExpiry g" "40 < gr_LastRefreshAt g + gr_IdleTTL g" "gr_IdentityGeneration g = au_identity runBegun"
    "gr_UsedRefresh g = []"
    using run_find_ok by (auto split: option.splits)
  have free: "issuableLocked runBegun = None" using run_issuable_ok by (simp split: option.splits)
  obtain res where r: "Refresh (\<lambda>s. s) 40 Saved ''amxa_2'' ''amxr_2'' ''amxr_1'' runBegun = (runRefreshed, res)"
    unfolding runRefreshed_def by (metis prod.collapse)
  have "\<not> isl (snd (Refresh (\<lambda>s. s) 40 Saved ''amxa_2'' ''amxr_2'' ''amxr_1'' runBegun))"
    using g by (simp add: Refresh_def free commitLocked_def maxUsedRefresh_def Let_def case_prod_beta)
  then have "\<not> isl res" by (simp add: r)
  then show ?thesis using druns.step [OF run_sent dstep.refresh [OF r _ _ refl]] g by (simp add: runLog_def)
qed

lemma run_revoked: "druns (\<lambda>s. s) (\<lambda>s. s) (Up runRevoked, [((''c1'', ''key''), SentOff)], runLog)"
proof -
  have "RevokeGrant 50 Saved ''c1'' ''lost'' runBegun = (runRevoked, None)"
    using run_revoke_ok unfolding runRevoked_def by (auto simp: prod_eq_iff split: option.splits)
  from druns.step [OF run_sent dstep.revoke [OF this]] show ?thesis by (simp add: runLog_def)
qed

text \<open>A machine whose owner enables cloud issuance and whose provider is issued a code.\<close>

definition cloudHash :: "string \<Rightarrow> string" where
  "cloudHash s = replicate 32 (CHR ''a'')"

definition cloudRequest :: CloudIssueRequest where
  "cloudRequest = \<lparr>cq_IssueKey = ''k'', cq_Requester = ''owner'', cq_ProviderID = ''cloud'', cq_CodeChallenge = concat (replicate 10 ''YWFh'') @ ''YWE'',
     cq_CodeChallengeMethod = ''S256'', cq_Permissions = [''read''], cq_Resource = \<lparr>sc_Kind = ''all_sessions'', sc_Workgroups = []\<rparr>,
     cq_Label = ''phone'', cq_Handoff = []\<rparr>"

definition cloudPolicyIn :: cloudPolicy where
  "cloudPolicyIn = \<lparr>cp_Enabled = True, cp_Generation = 1, cp_Perms = [''read''], cp_Resource = \<lparr>sc_Kind = ''all_sessions'', sc_Workgroups = []\<rparr>,
     cp_OwnerPin = ''owner'', cp_ProviderPin = ''cloud'', cp_MaxOutstanding = 3, cp_MaxPerHour = 10, cp_Issued = [], cp_ChangedAt = 6,
     cp_DisableReason = []\<rparr>"

definition cloudEnabled :: Authority where
  "cloudEnabled =
     (let st = (au_state runSetup)\<lparr>st_Cloud := Some cloudPolicyIn\<rparr> in runSetup\<lparr>au_state := st, au_disk := Some st\<rparr>)"

definition cloudCode :: codeRecord where
  "cloudCode = cloudCodeRecord (\<lambda>s. s) 10 cloudPolicyIn cloudRequest False"

definition cloudIssued :: Authority where
  "cloudIssued =
     (let st = (au_state cloudEnabled)\<lparr>st_Codes := [(''code'', cloudCode)],
            st_CloudIssues := [(''k'', \<lparr>ci_ReqHash = cloudReqHash (\<lambda>s. s) cloudRequest, ci_CodeHash = ''code'', ci_Code = ''code'', ci_CreatedAt = 10,
               ci_ExpiresAt = 310\<rparr>)],
            st_Cloud := Some (cloudPolicyIn\<lparr>cp_Issued := [10]\<rparr>)\<rparr>
      in cloudEnabled\<lparr>au_state := st, au_disk := Some st\<rparr>)"

lemma cloudEnabled_new:
  "EnableCloud 6 Saved \<lparr>pr_Permissions = [''read''], pr_Resource = \<lparr>sc_Kind = ''all_sessions'', sc_Workgroups = []\<rparr>, pr_OwnerPin = ''owner'',
     pr_ProviderPin = ''cloud'', pr_MaxOutstanding = 0, pr_MaxPerHour = 0\<rparr> runSetup = (cloudEnabled, None)"
  by code_simp

lemma cloudIssued_new: "IssueCloudCode (\<lambda>s. s) 10 ''code'' Saved cloudRequest cloudEnabled = (cloudIssued, Inr (''code'', 310))"
  by code_simp

lemma cloudRedeem_ok:
  "\<not> isl (snd (Redeem (\<lambda>s. s) cloudHash 20 Saved Saved ''amxa_1'' ''amxr_1'' ''c1'' ''code'' ''phone'' ''web'' (replicate 43 (CHR ''v'')) cloudIssued))"
  by code_simp

lemma cloud_run: "druns (\<lambda>s. s) cloudHash (Up cloudIssued, [], [EvCode ''code''])"
proof -
  have "druns (\<lambda>s. s) cloudHash (Up cloudEnabled, [], [])"
    using druns.step [OF run_setup dstep.quiet [OF quiet.enable]] cloudEnabled_new by (metis fst_conv)
  from druns.step [OF this dstep.issue [OF cloudIssued_new]] show ?thesis by simp
qed

section \<open>Properties\<close>

text \<open>
  C35. Over any run of the direct server, with any failed or uncertain write, any crash and any restart, an
  action with one idempotency key of one client is handed to the daemon at most once, and whenever the
  server answers that it stopped before the creation was sent, it had not been sent.
\<close>

theorem actions_sent_once:
  assumes "druns H D (n, J, L)"
  shows "distinct (sends L) \<and> (\<forall>L1 c k L2. L = L1 @ EvNotSent c k # L2 \<longrightarrow> (c, k) \<notin> set (sends L2))"
  using run_log [OF assms] goodLog_distinct(1) goodLog_append by fastforce

theorem actions_sent_once_witness:
  "druns (\<lambda>s. s) (\<lambda>s. s) (Up runRevoked, [((''c1'', ''key''), SentOff)], runLog) \<and> sends runLog = [(''c1'', ''key'')] \<and> distinct (sends runLog)"
  using run_revoked actions_sent_once [OF run_revoked] by (simp add: runLog_def)

text \<open>
  C36. Over any run of the direct server, a refresh token is exchanged for new tokens at most once, across
  crashes and restarts.
\<close>

theorem refresh_token_once:
  assumes "druns H D (n, J, L)"
  shows "distinct (refreshes L)"
  using run_log [OF assms] by (rule goodLog_distinct(3))

theorem refresh_token_once_witness:
  "refreshes (EvRefreshed ''amxr_1'' # EvToken ''c1'' ''amxr_2'' # tl runLog) = [''amxr_1''] \<and>
   distinct (refreshes (EvRefreshed ''amxr_1'' # EvToken ''c1'' ''amxr_2'' # tl runLog))"
  using refresh_token_once [OF run_refreshed] by (simp add: runLog_def)

text \<open>
  C37. Over any run of the direct server, an enrollment code enrolls at most one client, across crashes and
  restarts.
\<close>

theorem code_redeemed_once:
  assumes "druns H D (n, J, L)"
  shows "distinct (redeems L)"
  using run_log [OF assms] by (rule goodLog_distinct(2))

theorem code_redeemed_once_witness:
  "druns (\<lambda>s. s) (\<lambda>s. s) (Up runRevoked, [((''c1'', ''key''), SentOff)], runLog) \<and> redeems runLog = [''code''] \<and> distinct (redeems runLog)"
  using run_revoked code_redeemed_once [OF run_revoked] by (simp add: runLog_def)



text \<open>
  C39. In any state a run reaches, a code issued over the cloud enrolls a client only before its expiry, only
  with a verifier whose S256 challenge is the one the code carries, only while the policy that issued it is
  the one in force and enabled, and only with permissions and a resource scope within that policy's ceiling.
\<close>

theorem cloud_code_within_policy:
  assumes "druns H D (Up a, J, L)"
    and "Redeem H D now ioV io acc refresh clientID secret label kind verifier a = (a', Inr resp)"
    and "codeOf a (H secret) = Some rec" "co_Origin rec = OriginCloud"
  shows "\<exists>p. st_Cloud (au_state a) = Some p \<and> cp_Enabled p \<and> cp_Generation p = co_PolicyGen rec \<and> now < co_ExpiresAt rec \<and>
    ValidVerifier verifier \<and> S256Challenge D verifier = co_Challenge rec \<and>
    set (tr_Scope resp) \<subseteq> set (cp_Perms p) \<and> withinCeiling (tr_Resource resp) (cp_Resource p)"
proof -
  obtain rec' l where "codeOf a (H secret) = Some rec'" and now: "now < co_ExpiresAt rec'"
    and v: "checkVerifierLocked D now ioV (H secret) rec' verifier a = (a, None)"
    and c: "commitRedeem H now io acc refresh clientID secret l kind rec' a = (a', Inr resp)"
    using Redeem_ok [OF assms(2)] by metis
  with assms(3) have rec: "rec' = rec" by simp
  obtain p where p: "st_Cloud (au_state a) = Some p" "cp_Enabled p" "cp_Generation p = co_PolicyGen rec"
    and "ValidVerifier verifier" "S256Challenge D verifier = co_Challenge rec"
    using checkVerifier_None(2) [OF v] assms(4) by (auto simp: rec)
  moreover have "codeOk (st_Cloud (au_state a)) rec"
    using registryOkD(2) [OF goodD(5) [OF druns_good [OF assms(1)]] assms(3)] .
  ultimately show ?thesis using commitRedeem_resp [OF c] now assms(4) by (auto simp: rec codeOk_def)
qed

theorem cloud_code_within_policy_witness:
  "\<exists>p. st_Cloud (au_state cloudIssued) = Some p \<and> cp_Enabled p \<and> cp_Generation p = 1 \<and>
    S256Challenge cloudHash (replicate 43 (CHR ''v'')) = co_Challenge cloudCode"
proof -
  obtain a' resp where "Redeem (\<lambda>s. s) cloudHash 20 Saved Saved ''amxa_1'' ''amxr_1'' ''c1'' ''code'' ''phone'' ''web''
      (replicate 43 (CHR ''v'')) cloudIssued = (a', Inr resp)"
    using cloudRedeem_ok by (metis prod.collapse sum.collapse(2))
  moreover have "codeOf cloudIssued ''code'' = Some cloudCode" "co_Origin cloudCode = OriginCloud" "co_PolicyGen cloudCode = 1"
    by (simp_all add: cloudIssued_def cloudCode_def cloudCodeRecord_def cloudPolicyIn_def Let_def)
  ultimately show ?thesis using cloud_code_within_policy [OF cloud_run] by fastforce
qed

text \<open>
  C40. In any state a run reaches, the registry in memory and the registry a restart would read are well
  formed: every grant is stored under its own client id, holds read and only known permissions in their
  fixed order and a normalized resource scope, and keeps its action records, spent keys and used refresh
  tokens within their bounds; every code does too, and a cloud code of the policy in force is within its
  ceiling.
\<close>

theorem registry_well_formed:
  assumes "druns H D (Up a, J, L)"
  shows "registryOk (au_state a) \<and> registryOk (diskState (au_disk a))"
  using druns_good [OF assms] by (simp add: goodReg_def)

theorem registry_well_formed_witness:
  "registryOk (au_state runRevoked) \<and> registryOk (diskState (au_disk runRevoked))"
  using registry_well_formed [OF run_revoked] .

end
