(* ===== verification/Spec2Isabelle.thy ===== *)
theory Spec2Isabelle
  imports Access_Request Replay_Limits Session_Admission Session_Discovery Direct_Handlers Direct_Props
begin

text \<open>
  A verification development for \<^verbatim>\<open>amux\<close>, the agent multiplexer.
\<close>

end
